(* ===== verification/Prelude.thy ===== *)
theory Prelude
  imports Main "HOL-Library.Word" "HOL-Library.Monad_Syntax"
begin

text \<open>
  Shared vocabulary of the development: the collections of rewrite rules that the
  component theories fill, the few pieces of the C++ standard library that the
  sources use and that several components share (\<open>std::to_string\<close> on unsigned
  numbers, \<open>std::atomic\<close> compare-and-exchange, \<open>std::find_if\<close>), and generic lemmas
  about lists and the option monad.
\<close>

named_theorems op_defs \<open>definitions of the operations of a component\<close>
named_theorems frame_simps \<open>which fields an operation leaves alone\<close>

subsection \<open>The option monad\<close>

text \<open>
  An operation that dereferences a pointer returns an option: \<open>None\<close> stands for the
  undefined behaviour of dereferencing a null pointer.
\<close>

lemma bind_Some_iff [simp]:
  "(m \<bind> f = Some y) \<longleftrightarrow> (\<exists>x. m = Some x \<and> f x = Some y)"
  by (cases m) auto

lemma bind_SomeE [elim]:
  assumes "m \<bind> f = Some y"
  obtains x where "m = Some x" "f x = Some y"
  using assms by (cases m) auto

subsection \<open>Lists\<close>

definition find_if :: "('a \<Rightarrow> bool) \<Rightarrow> 'a list \<Rightarrow> nat" where
  \<comment> \<open>\<open>std::find_if\<close>: the position of the first match, the length if there is none\<close>
  "find_if f xs = length (takeWhile (\<lambda>x. \<not> f x) xs)"

lemma find_if_le: "find_if f xs \<le> length xs"
  by (simp add: find_if_def length_takeWhile_le)

lemma find_if_less_iff: "find_if f xs < length xs \<longleftrightarrow> (\<exists>x\<in>set xs. f x)"
proof -
  have "find_if f xs = length xs \<longleftrightarrow> takeWhile (\<lambda>x. \<not> f x) xs = xs"
    unfolding find_if_def by (metis append_eq_conv_conj length_takeWhile_le take_all_iff takeWhile_eq_take)
  then show ?thesis
    using find_if_le [of f xs] by (auto simp: takeWhile_eq_all_conv)
qed

lemma find_if_hit: "find_if f xs < length xs \<Longrightarrow> f (xs ! find_if f xs)"
  using nth_length_takeWhile [of "\<lambda>x. \<not> f x" xs] by (simp add: find_if_def)

lemma find_if_before: "i < find_if f xs \<Longrightarrow> \<not> f (xs ! i)"
  unfolding find_if_def by (metis nth_mem set_takeWhileD takeWhile_nth)

lemma mset_remove_nth:
  "i < length xs \<Longrightarrow> set (take i xs @ drop (Suc i) xs) \<subseteq> set xs"
  by (auto dest: in_set_takeD in_set_dropD)

subsection \<open>Compare and exchange\<close>

text \<open>
  \<open>std::atomic::compare_exchange_strong (expected, desired)\<close> on an atomic that holds
  \<open>cur\<close>: whether it succeeded, the new value of the atomic, the new value of
  \<open>expected\<close>. The weak form may also fail although the values agree.
\<close>

definition compare_exchange_strong :: "'a \<Rightarrow> 'a \<Rightarrow> 'a \<Rightarrow> bool \<times> 'a \<times> 'a" where
  "compare_exchange_strong cur expected desired =
     (if cur = expected then (True, desired, expected) else (False, cur, cur))"

definition compare_exchange_weak :: "bool \<Rightarrow> 'a \<Rightarrow> 'a \<Rightarrow> 'a \<Rightarrow> bool \<times> 'a \<times> 'a" where
  "compare_exchange_weak spurious cur expected desired =
     (if cur = expected \<and> \<not> spurious then (True, desired, expected) else (False, cur, cur))"

lemma compare_exchange_strong_same [simp]:
  "compare_exchange_strong a a b = (True, b, a)"
  by (simp add: compare_exchange_strong_def)

lemma compare_exchange_strong_fails [simp]:
  "a \<noteq> b \<Longrightarrow> compare_exchange_strong a b c = (False, a, a)"
  by (simp add: compare_exchange_strong_def)

subsection \<open>Decimal numbers\<close>

definition digit_char :: "nat \<Rightarrow> char" where
  "digit_char d = char_of (48 + d)"

lemma digit_chars [simp]:
  "digit_char 0 = CHR ''0''" "digit_char 1 = CHR ''1''" "digit_char (Suc 0) = CHR ''1''" "digit_char 2 = CHR ''2''"
  "digit_char 3 = CHR ''3''" "digit_char 4 = CHR ''4''" "digit_char 5 = CHR ''5''"
  "digit_char 6 = CHR ''6''" "digit_char 7 = CHR ''7''" "digit_char 8 = CHR ''8''"
  "digit_char 9 = CHR ''9''"
  by (simp_all add: digit_char_def char_of_def bit_numeral_rec bit_Suc_0_iff)
fun to_string :: "nat \<Rightarrow> string" where
  \<comment> \<open>\<open>std::to_string\<close> of an unsigned number\<close>
  "to_string n =
     (if n < 10 then [digit_char n] else to_string (n div 10) @ [digit_char (n mod 10)])"

declare to_string.simps [simp del]

lemma of_char_digit_char: "d < 10 \<Longrightarrow> (of_char (digit_char d) :: nat) = 48 + d"
  by (simp add: digit_char_def)

lemma to_string_nonempty: "to_string n \<noteq> []"
  by (subst to_string.simps) simp

lemma to_string_digits:
  "c \<in> set (to_string n) \<Longrightarrow> 48 \<le> (of_char c :: nat) \<and> (of_char c :: nat) \<le> 57"
proof (induction n rule: to_string.induct)
  case (1 n)
  show ?case
  proof (cases "n < 10")
    case True
    with "1.prems" show ?thesis
      by (simp add: to_string.simps [of n] of_char_digit_char)
  next
    case False
    with "1.prems" have "c \<in> set (to_string (n div 10)) \<or> c = digit_char (n mod 10)"
      by (auto simp: to_string.simps [of n])
    moreover have "(of_char (digit_char (n mod 10)) :: nat) = 48 + n mod 10"
      by (simp add: of_char_digit_char)
    moreover have "n mod 10 < 10"
      by simp
    ultimately show ?thesis
      using "1.IH" False by fastforce
  qed
qed

definition dec_value :: "string \<Rightarrow> nat" where
  \<comment> \<open>the value of a string of decimal digits\<close>
  "dec_value s = foldl (\<lambda>v c. v * 10 + (of_char c - 48)) 0 s"

lemma dec_value_snoc: "dec_value (s @ [c]) = dec_value s * 10 + (of_char c - 48)"
  by (simp add: dec_value_def)

lemma dec_value_to_string [simp]: "dec_value (to_string n) = n"
proof (induction n rule: to_string.induct)
  case (1 n)
  show ?case
  proof (cases "n < 10")
    case True
    then show ?thesis
      by (simp add: to_string.simps [of n] dec_value_def of_char_digit_char)
  next
    case False
    with "1.IH" show ?thesis
      by (simp add: to_string.simps [of n] dec_value_snoc of_char_digit_char)
  qed
qed

lemma to_string_inject [simp]: "to_string m = to_string n \<longleftrightarrow> m = n"
  by (metis dec_value_to_string)

subsection \<open>Hexadecimal numbers\<close>

definition hex_char :: "nat \<Rightarrow> char" where
  "hex_char d = (if d < 10 then digit_char d else char_of (87 + d))"

fun to_hex :: "nat \<Rightarrow> string" where
  \<comment> \<open>a number written to a stream in the \<open>std::hex\<close> format\<close>
  "to_hex n = (if n < 16 then [hex_char n] else to_hex (n div 16) @ [hex_char (n mod 16)])"

declare to_hex.simps [simp del]

subsection \<open>Canonical decimal numbers\<close>

definition is_digit :: "char \<Rightarrow> bool" where
  "is_digit c \<longleftrightarrow> 48 \<le> (of_char c :: nat) \<and> (of_char c :: nat) \<le> 57"

definition canonical_dec :: "string \<Rightarrow> bool" where
  \<comment> \<open>decimal digits without a leading zero\<close>
  "canonical_dec s \<longleftrightarrow> s \<noteq> [] \<and> list_all is_digit s \<and> (hd s = CHR ''0'' \<longrightarrow> tl s = [])"

lemma bit_one_nat [simp]: "bit (Suc 0) 0"
  by (simp add: bit_Suc_0_iff)

lemma digit_char_of: "is_digit c \<Longrightarrow> digit_char (of_char c - 48) = c"
  by (simp add: is_digit_def digit_char_def)

lemma is_digit_digit_char: "d < 10 \<Longrightarrow> is_digit (digit_char d)"
  by (simp add: is_digit_def of_char_digit_char)

lemma list_all_to_string: "list_all is_digit (to_string n)"
  using to_string_digits [of _ n] by (simp add: list_all_iff is_digit_def)

lemma hd_to_string: "hd (to_string n) = CHR ''0'' \<Longrightarrow> n = 0"
proof (induction n rule: to_string.induct)
  case (1 n)
  show ?case
  proof (cases "n < 10")
    case True
    with "1.prems" have "(of_char (digit_char n) :: nat) = 48"
      by (simp add: to_string.simps [of n])
    with True show ?thesis by (simp add: of_char_digit_char)
  next
    case False
    with "1.prems" have "hd (to_string (n div 10)) = CHR ''0''"
      by (simp add: to_string.simps [of n] to_string_nonempty)
    with "1.IH" False show ?thesis by simp
  qed
qed

lemma canonical_to_string: "canonical_dec (to_string n)"
proof (cases "n = 0")
  case True
  then show ?thesis
    using list_all_to_string [of 0] by (simp add: canonical_dec_def to_string.simps [of 0])
next
  case False
  then show ?thesis
    using hd_to_string [of n] list_all_to_string [of n] to_string_nonempty [of n]
    by (auto simp: canonical_dec_def)
qed

lemma dec_value_pos:
  assumes "list_all is_digit s" "s \<noteq> []" "hd s \<noteq> CHR ''0''"
  shows "dec_value s > 0"
  using assms
proof (induction s rule: rev_induct)
  case (snoc c s)
  show ?case
  proof (cases "s = []")
    case True
    with snoc.prems have "is_digit c" "c \<noteq> CHR ''0''" by simp_all
    moreover have "(of_char c :: nat) \<noteq> 48"
      using \<open>c \<noteq> CHR ''0''\<close> of_char_eq_iff [of c "CHR ''0''", where 'a = nat] by simp
    ultimately show ?thesis using True by (simp add: dec_value_def is_digit_def)
  next
    case False
    with snoc show ?thesis by (simp add: dec_value_snoc)
  qed
qed simp

lemma to_string_dec_value:
  assumes "canonical_dec s"
  shows "to_string (dec_value s) = s"
  using assms
proof (induction s rule: rev_induct)
  case Nil
  then show ?case by (simp add: canonical_dec_def)
next
  case (snoc c s)
  then have c: "is_digit c" by (simp add: canonical_dec_def)
  then have d: "of_char c - 48 < (10 :: nat)" unfolding is_digit_def by linarith
  show ?case
  proof (cases "s = []")
    case True
    with c d show ?thesis by (simp add: dec_value_def to_string.simps digit_char_of)
  next
    case False
    with snoc.prems have can: "canonical_dec s" and nz: "hd s \<noteq> CHR ''0''"
      by (auto simp: canonical_dec_def)
    have "dec_value s > 0"
      using can nz by (intro dec_value_pos) (auto simp: canonical_dec_def)
    with snoc.IH [OF can] c d show ?thesis
      by (simp add: dec_value_snoc to_string.simps [of "_ * 10 + _"] digit_char_of)
  qed
qed

lemma canonical_iff: "canonical_dec s \<longleftrightarrow> (\<exists>n. s = to_string n)"
  using canonical_to_string to_string_dec_value by metis

end
