(* ===== verification/Socket_State.thy ===== *)
theory Socket_State
  imports Prelude
begin

text \<open>
  The connection state of a socket (\<open>enum SocketState\<close> of GWSocket.h) and the
  compare-and-exchange loop \<open>GWSocket::setDisconnectingCAS\<close> (GWSocket.cpp) that lets
  exactly one caller move a socket into the disconnecting state.

  The loop is the one place of GWSocket.cpp whose code is about several threads, so it is
  modelled with them: between any two accesses to the atomic another thread may store a
  new value. The list \<open>env\<close> says what happens before each access, \<open>None\<close> for no
  store. The main thread alone is the case \<open>env = []\<close>.
\<close>

datatype SocketState =
    STATE_CONNECTING
  | STATE_CONNECTED
  | STATE_DISCONNECT_REQUESTED
  | STATE_DISCONNECTING
  | STATE_DISCONNECTED

fun observe :: "SocketState option list \<Rightarrow> SocketState \<Rightarrow> SocketState \<times> SocketState option list" where
  \<comment> \<open>the value an access of the atomic finds, and what the other threads do afterwards\<close>
  "observe [] cur = (cur, [])"
| "observe (None # env) cur = (cur, env)"
| "observe (Some st # env) cur = (st, env)"

lemma observeD:
  assumes "(x, env') = observe env cur"
  shows "length env' \<le> length env" and "x \<noteq> cur \<Longrightarrow> length env' < length env"
  using assms by (cases "(env, cur)" rule: observe.cases; simp)+

function setDisconnectingCAS :: "SocketState option list \<Rightarrow> SocketState \<Rightarrow> bool \<times> SocketState" where
  "setDisconnectingCAS env cur =
     (let (expected, env) = observe env cur in
      if expected = STATE_DISCONNECTED \<or> expected = STATE_DISCONNECTING then (False, expected)
      else
        let (cur, env1) = observe env expected;
            (ok, cur, _) = compare_exchange_strong cur expected STATE_DISCONNECTING in
        if ok then (True, cur)
        else
          let (cur, env2) = observe env1 cur in
          if cur = STATE_CONNECTED then setDisconnectingCAS env2 cur
          else
            let (cur, env3) = observe env2 cur in
            if cur = STATE_CONNECTING then setDisconnectingCAS env3 cur
            else (False, cur))"
  by pat_completeness auto
termination
proof (relation "measure (\<lambda>(env, cur). length env)", goal_cases)
  case 1
  show ?case by simp
next
  case (2 env cur p expected env0 p1 cur1 env1 p2 ok y cur2 z p3 cur3 env2)
  then have "length env1 < length env0"
    using observeD(2) [of cur1 env1 env0 expected]
    by (auto simp: compare_exchange_strong_def split: if_splits)
  moreover have "length env0 \<le> length env" "length env2 \<le> length env1"
    using 2 by (auto dest: observeD(1))
  ultimately show ?case by simp
next
  case (3 env cur p expected env0 p1 cur1 env1 p2 ok y cur2 z p3 cur3 env2 p4 cur4 env3)
  then have "length env1 < length env0"
    using observeD(2) [of cur1 env1 env0 expected]
    by (auto simp: compare_exchange_strong_def split: if_splits)
  moreover have "length env0 \<le> length env" "length env2 \<le> length env1" "length env3 \<le> length env2"
    using 3 by (auto dest: observeD(1))
  ultimately show ?case by simp
qed

declare setDisconnectingCAS.simps [simp del]

text \<open>Without other threads the loop body runs once.\<close>

lemma setDisconnectingCAS_alone:
  "setDisconnectingCAS [] st =
     (if st = STATE_DISCONNECTED \<or> st = STATE_DISCONNECTING then (False, st)
      else (True, STATE_DISCONNECTING))"
  by (subst setDisconnectingCAS.simps) simp

subsection \<open>The loop among other threads\<close>

lemma observe_subset: "observe env cur = (x, env') \<Longrightarrow> set env' \<subseteq> set env"
  by (cases "(env, cur)" rule: observe.cases) auto

lemma observe_value: "observe env cur = (x, env') \<Longrightarrow> x = cur \<or> Some x \<in> set env"
  by (cases "(env, cur)" rule: observe.cases) auto

text \<open>One round of the loop: how it ends, or the shorter list of stores left for the next.\<close>

lemma cas_round:
  obtains (refused) e env0 where "observe env cur = (e, env0)"
      "e = STATE_DISCONNECTED \<or> e = STATE_DISCONNECTING" "setDisconnectingCAS env cur = (False, e)"
  | (won) "setDisconnectingCAS env cur = (True, STATE_DISCONNECTING)"
  | (again) e env0 c1 env1 env' st where "observe env cur = (e, env0)" "observe env0 e = (c1, env1)"
      "c1 \<noteq> e" "st = STATE_CONNECTED \<or> st = STATE_CONNECTING" "length env' < length env"
      "set env' \<subseteq> set env" "setDisconnectingCAS env cur = setDisconnectingCAS env' st"
  | (lost) e env0 c1 env1 c2 env2 c3 env3 where "observe env cur = (e, env0)" "observe env0 e = (c1, env1)"
      "c1 \<noteq> e" "observe env1 c1 = (c2, env2)" "c2 \<noteq> STATE_CONNECTED" "observe env2 c2 = (c3, env3)"
      "c3 \<noteq> STATE_CONNECTING" "setDisconnectingCAS env cur = (False, c3)"
proof -
  obtain e env0 where o0: "observe env cur = (e, env0)" by fastforce
  obtain c1 env1 where o1: "observe env0 e = (c1, env1)" by fastforce
  obtain c2 env2 where o2: "observe env1 c1 = (c2, env2)" by fastforce
  obtain c3 env3 where o3: "observe env2 c2 = (c3, env3)" by fastforce
  note step = setDisconnectingCAS.simps [of env cur, unfolded o0 Let_def split o1 compare_exchange_strong_def]
  consider "e = STATE_DISCONNECTED \<or> e = STATE_DISCONNECTING"
    | "e \<noteq> STATE_DISCONNECTED" "e \<noteq> STATE_DISCONNECTING" "c1 = e"
    | "e \<noteq> STATE_DISCONNECTED" "e \<noteq> STATE_DISCONNECTING" "c1 \<noteq> e" by blast
  then show thesis
  proof cases
    case 1
    with refused [OF o0] step show thesis by simp
  next
    case 2
    with won step show thesis by simp
  next
    case 3
    have len: "length env1 < length env" "length env2 < length env" "length env3 < length env"
      using observeD [OF o0 [symmetric]] observeD [OF o1 [symmetric]] observeD [OF o2 [symmetric]]
        observeD [OF o3 [symmetric]] 3 by linarith+
    have sub: "set env2 \<subseteq> set env" "set env3 \<subseteq> set env"
      using observe_subset [OF o0] observe_subset [OF o1] observe_subset [OF o2] observe_subset [OF o3]
      by auto
    show thesis
    proof (cases "c2 = STATE_CONNECTED \<or> c3 = STATE_CONNECTING")
      case True
      with 3 step o2 o3 len sub again [OF o0 o1 3(3)] show thesis
        by (cases "c2 = STATE_CONNECTED") auto
    next
      case False
      with 3 step o2 o3 lost [OF o0 o1 3(3) o2 _ o3] show thesis by auto
    qed
  qed
qed

theorem cas_outcome:
  assumes "setDisconnectingCAS env cur = (ok, st)"
  shows "if ok then st = STATE_DISCONNECTING else st \<noteq> STATE_CONNECTING"
  using assms
proof (induction "length env" arbitrary: env cur rule: less_induct)
  case less
  show ?case
  proof (cases env cur rule: cas_round)
    case (again e env0 c1 env1 env' st')
    show ?thesis
      by (rule less.hyps [of env' st']) (use again less.prems in simp_all)
  qed (use less.prems in auto)
qed

theorem cas_outcome_witness:
  "setDisconnectingCAS [None, Some STATE_CONNECTED] STATE_CONNECTING = (True, STATE_DISCONNECTING)
   \<and> (if True then STATE_DISCONNECTING = STATE_DISCONNECTING else STATE_DISCONNECTING \<noteq> STATE_CONNECTING)"
proof
  show run: "setDisconnectingCAS [None, Some STATE_CONNECTED] STATE_CONNECTING = (True, STATE_DISCONNECTING)"
    by (simp add: setDisconnectingCAS.simps compare_exchange_strong_def)
  show "if True then STATE_DISCONNECTING = STATE_DISCONNECTING else STATE_DISCONNECTING \<noteq> STATE_CONNECTING"
    by (rule cas_outcome [OF run])
qed

theorem cas_wins_against_handshake:
  assumes "set env \<subseteq> {None, Some STATE_CONNECTED}"
    "cur \<noteq> STATE_DISCONNECTED" "cur \<noteq> STATE_DISCONNECTING"
  shows "setDisconnectingCAS env cur = (True, STATE_DISCONNECTING)"
  using assms
proof (induction "length env" arbitrary: env cur rule: less_induct)
  case less
  show ?case
  proof (cases env cur rule: cas_round)
    case (refused e env0)
    with observe_value [OF refused(1)] less.prems show ?thesis by auto
  next
    case (again e env0 c1 env1 env' st)
    with less show ?thesis by auto
  next
    case (lost e env0 c1 env1 c2 env2 c3 env3)
    have sub: "set env0 \<subseteq> {None, Some STATE_CONNECTED}" "set env1 \<subseteq> {None, Some STATE_CONNECTED}"
      using observe_subset [OF lost(1)] observe_subset [OF lost(2)] less.prems(1) by auto
    then have "c1 = STATE_CONNECTED"
      using observe_value [OF lost(2)] lost(3) by auto
    then have "c2 = STATE_CONNECTED"
      using observe_value [OF lost(4)] sub(2) by auto
    with lost(5) show ?thesis by simp
  qed
qed

theorem cas_wins_against_handshake_witness:
  "setDisconnectingCAS [None, Some STATE_CONNECTED, None] STATE_CONNECTING = (True, STATE_DISCONNECTING)"
  by (rule cas_wins_against_handshake) simp_all

theorem cas_gives_up_on_request:
  "st = STATE_CONNECTING \<or> st = STATE_CONNECTED \<longleftrightarrow>
   setDisconnectingCAS [None, Some STATE_DISCONNECT_REQUESTED] st = (False, STATE_DISCONNECT_REQUESTED)"
  by (cases st) (simp_all add: setDisconnectingCAS.simps compare_exchange_strong_def)

end
