(* ===== verification/Blocking_Queue.thy ===== *)
theory Blocking_Queue
  imports Prelude "HOL-Library.Multiset"
begin

text \<open>
  \<open>BlockingQueue<T>\<close> of BlockingQueue.h: the queue that carries the events of a socket
  from its completion handlers to the polling timer. The state is the backing deque; the
  mutex makes each operation atomic and the condition variable only wakes \<open>take\<close>, so
  neither has a state here. The interface that the rest of the program relies on is the
  locale \<open>fifo_queue\<close>.
\<close>

record 'a bqueue =
  backingQueue :: "'a list"

definition empty_queue :: "'a bqueue" where
  "empty_queue = \<lparr>backingQueue = []\<rparr>"

definition put :: "'a \<Rightarrow> 'a bqueue \<Rightarrow> 'a bqueue" where
  "put elem q = q\<lparr>backingQueue := backingQueue q @ [elem]\<rparr>"

definition bq_size :: "'a bqueue \<Rightarrow> nat" where
  "bq_size q = length (backingQueue q)"

definition bq_empty :: "'a bqueue \<Rightarrow> bool" where
  "bq_empty q = (bq_size q = 0)"

definition swapToFrontIf :: "('a \<Rightarrow> bool) \<Rightarrow> 'a bqueue \<Rightarrow> bool \<times> 'a bqueue" where
  "swapToFrontIf func q =
     (let xs = backingQueue q; pos = find_if func xs in
      if pos \<noteq> 0 \<and> pos \<noteq> length xs
      then (True, q\<lparr>backingQueue := xs[pos := xs ! 0, 0 := xs ! pos]\<rparr>)
      else (False, q))"

definition removeIf :: "('a \<Rightarrow> bool) \<Rightarrow> 'a bqueue \<Rightarrow> bool \<times> 'a bqueue" where
  "removeIf func q =
     (let xs = backingQueue q; pos = find_if func xs in
      if pos \<noteq> 0 \<and> pos \<noteq> length xs
      then (True, q\<lparr>backingQueue := take pos xs @ drop (Suc pos) xs\<rparr>)
      else (False, q))"

text \<open>
  \<open>remove\<close> erases the single position that \<open>std::remove\<close> returns. That position is
  the end when the element does not occur, and erasing the end is undefined (\<open>None\<close>).
  After \<open>std::remove\<close> the positions behind it hold unspecified values, here \<open>junk\<close>.
\<close>

definition bq_remove :: "(nat \<Rightarrow> 'a) \<Rightarrow> 'a \<Rightarrow> 'a bqueue \<Rightarrow> 'a bqueue option" where
  "bq_remove junk elem q =
     (let xs = backingQueue q;
          kept = filter (\<lambda>x. x \<noteq> elem) xs in
      if length kept = length xs then None
      else Some (q\<lparr>backingQueue := kept @ map junk [Suc (length kept)..<length xs]\<rparr>))"

definition bq_take :: "'a bqueue \<Rightarrow> ('a \<times> 'a bqueue) option" where
  \<comment> \<open>\<open>None\<close>: the queue is empty and the caller waits\<close>
  "bq_take q =
     (case backingQueue q of [] \<Rightarrow> None
      | front # rest \<Rightarrow> Some (front, q\<lparr>backingQueue := rest\<rparr>))"

definition bq_clear :: "'a bqueue \<Rightarrow> 'a list \<times> 'a bqueue" where
  "bq_clear q = (backingQueue q, q\<lparr>backingQueue := []\<rparr>)"

lemmas bq_defs [op_defs] =
  empty_queue_def put_def bq_size_def bq_empty_def bq_take_def bq_clear_def

lemma backingQueue_put [simp]: "backingQueue (put x q) = backingQueue q @ [x]"
  by (simp add: put_def)

lemma backingQueue_clear [simp]:
  "fst (bq_clear q) = backingQueue q" "backingQueue (snd (bq_clear q)) = []"
  by (simp_all add: bq_clear_def)

subsection \<open>The interface\<close>

text \<open>
  A producer (the completion handlers) and a consumer (the polling timer) use a queue
  through four operations. A history of their calls, in the order the mutex serialises
  them, is a list of \<open>qop\<close>s.
\<close>

datatype 'a qop = Put 'a | Take | Clear

fun run_queue ::
  "('a \<Rightarrow> 'q \<Rightarrow> 'q) \<Rightarrow> ('q \<Rightarrow> ('a \<times> 'q) option) \<Rightarrow> ('q \<Rightarrow> 'a list \<times> 'q) \<Rightarrow> 'a qop list \<Rightarrow> 'q \<Rightarrow>
   'a list \<times> 'q" where
  \<comment> \<open>the elements the consumer has received, and the queue; a blocked \<open>take\<close> is skipped\<close>
  "run_queue putf takef clearf [] q = ([], q)"
| "run_queue putf takef clearf (Put x # ops) q = run_queue putf takef clearf ops (putf x q)"
| "run_queue putf takef clearf (Take # ops) q =
     (case takef q of
        None \<Rightarrow> run_queue putf takef clearf ops q
      | Some (x, q') \<Rightarrow>
          let (out, q'') = run_queue putf takef clearf ops q' in (x # out, q''))"
| "run_queue putf takef clearf (Clear # ops) q =
     (let (xs, q') = clearf q; (out, q'') = run_queue putf takef clearf ops q' in (xs @ out, q''))"

fun puts_of :: "'a qop list \<Rightarrow> 'a list" where
  "puts_of [] = []"
| "puts_of (Put x # ops) = x # puts_of ops"
| "puts_of (Take # ops) = puts_of ops"
| "puts_of (Clear # ops) = puts_of ops"

locale fifo_queue =
  fixes new :: 'q
    and putf :: "'a \<Rightarrow> 'q \<Rightarrow> 'q"
    and takef :: "'q \<Rightarrow> ('a \<times> 'q) option"
    and clearf :: "'q \<Rightarrow> 'a list \<times> 'q"
    and contents :: "'q \<Rightarrow> 'a list"
  assumes new_contents: "contents new = []"
    and put_contents: "contents (putf x q) = contents q @ [x]"
    and take_blocks: "takef q = None \<longleftrightarrow> contents q = []"
    and take_contents: "takef q = Some (x, q') \<Longrightarrow> contents q = x # contents q'"
    and clear_contents: "clearf q = (xs, q') \<Longrightarrow> xs = contents q \<and> contents q' = []"
begin

text \<open>Nothing is lost, duplicated or reordered, however the calls interleave.\<close>

lemma conservation:
  "run_queue putf takef clearf ops q = (out, q') \<Longrightarrow> out @ contents q' = contents q @ puts_of ops"
proof (induction ops arbitrary: q out)
  case Nil
  then show ?case by simp
next
  case (Cons a ops)
  then show ?case
  proof (cases a)
    case (Put x)
    with Cons show ?thesis by (simp add: put_contents)
  next
    case Take
    with Cons show ?thesis
      by (auto split: option.splits prod.splits dest: take_contents)
  next
    case Clear
    with Cons show ?thesis
      by (auto split: prod.splits dest!: clear_contents)
  qed
qed

lemma received_prefix:
  assumes "run_queue putf takef clearf ops new = (out, q')"
  shows "\<exists>rest. puts_of ops = out @ rest"
  using conservation [OF assms] by (metis new_contents append_Nil)

end

interpretation bqueue: fifo_queue empty_queue put bq_take bq_clear backingQueue
  by unfold_locales (auto simp: op_defs split: list.splits)

subsection \<open>The predicate operations\<close>

lemma swapToFrontIf_cases:
  obtains (hit) pos where "0 < pos" "pos < length (backingQueue q)"
      "func (backingQueue q ! pos)" "\<forall>i<pos. \<not> func (backingQueue q ! i)"
      "swapToFrontIf func q = (True, q\<lparr>backingQueue := (backingQueue q)
         [pos := backingQueue q ! 0, 0 := backingQueue q ! pos]\<rparr>)"
  | (miss) "swapToFrontIf func q = (False, q)"
      "backingQueue q = [] \<or> func (backingQueue q ! 0) \<or> (\<forall>x\<in>set (backingQueue q). \<not> func x)"
proof (cases "find_if func (backingQueue q) \<noteq> 0 \<and> find_if func (backingQueue q) \<noteq> length (backingQueue q)")
  case True
  then have "find_if func (backingQueue q) < length (backingQueue q)"
    using find_if_le [of func "backingQueue q"] by simp
  with True show ?thesis
    by (intro hit [of "find_if func (backingQueue q)"])
       (auto simp: swapToFrontIf_def Let_def find_if_hit find_if_before)
next
  case False
  have "backingQueue q = [] \<or> func (backingQueue q ! 0) \<or> (\<forall>x\<in>set (backingQueue q). \<not> func x)"
  proof (cases "find_if func (backingQueue q) = length (backingQueue q)")
    case True
    then show ?thesis using find_if_less_iff [of func "backingQueue q"] by auto
  next
    case False
    with \<open>\<not> (_ \<and> _)\<close> have "find_if func (backingQueue q) = 0" by simp
    then show ?thesis
      using find_if_hit [of func "backingQueue q"] by (cases "backingQueue q") auto
  qed
  with False show ?thesis by (intro miss) (auto simp: swapToFrontIf_def)
qed

lemma mset_swap_front:
  assumes "i < length xs"
  shows "mset (xs[i := xs ! 0, 0 := xs ! i]) = mset xs"
  using assms by (intro mset_swap) auto

subsection \<open>What a user of the queue may rely on\<close>

text \<open>
  C40. However puts, takes and clears of the event queue interleave, the consumer gets
  exactly the elements put, in order, and the rest is still queued.
\<close>

theorem queue_conserves:
  assumes "run_queue put bq_take bq_clear ops empty_queue = (out, q)"
  shows "out @ backingQueue q = puts_of ops"
  using bqueue.conservation [OF assms] by (simp add: empty_queue_def)

theorem queue_conserves_witness:
  "run_queue put bq_take bq_clear [Take, Put (1 :: nat), Put 2, Take, Put 3, Clear, Put 4] empty_queue
     = ([1, 2, 3], \<lparr>backingQueue = [4]\<rparr>)
   \<and> [1, 2, 3] @ backingQueue \<lparr>backingQueue = [4 :: nat]\<rparr> = [1, 2, 3, 4]"
proof
  show run: "run_queue put bq_take bq_clear [Take, Put (1 :: nat), Put 2, Take, Put 3, Clear, Put 4] empty_queue
     = ([1, 2, 3], \<lparr>backingQueue = [4]\<rparr>)"
    by (simp add: op_defs)
  show "[1, 2, 3] @ backingQueue \<lparr>backingQueue = [4 :: nat]\<rparr> = [1, 2, 3, 4]"
    using queue_conserves [OF run] by simp
qed

theorem swap_keeps_elements:
  "mset (backingQueue (snd (swapToFrontIf func q))) = mset (backingQueue q)
   \<and> fst (swapToFrontIf func q) = (list_ex func (backingQueue q) \<and> \<not> func (hd (backingQueue q)))
   \<and> list_ex func (backingQueue q) =
       (backingQueue q \<noteq> [] \<and> func (hd (backingQueue (snd (swapToFrontIf func q)))))"
proof (cases rule: swapToFrontIf_cases [of q func])
  case (hit pos)
  then have "backingQueue q \<noteq> []" "list_ex func (backingQueue q)"
    by (auto simp: list_ex_iff)
  with hit show ?thesis by (simp add: mset_swap_front hd_conv_nth)
next
  case miss
  then show ?thesis by (cases "backingQueue q") (auto simp: list_ex_iff)
qed

theorem removeIf_spares_front:
  "backingQueue (snd (removeIf func q)) =
     (case backingQueue q of [] \<Rightarrow> []
      | x # xs \<Rightarrow> if func x then x # xs else x # takeWhile (\<lambda>y. \<not> func y) xs @ tl (dropWhile (\<lambda>y. \<not> func y) xs))"
proof (cases "backingQueue q")
  case Nil
  then show ?thesis by (simp add: removeIf_def Let_def find_if_def)
next
  case (Cons x xs)
  let ?n = "length (takeWhile (\<lambda>y. \<not> func y) xs)"
  have "take ?n xs = takeWhile (\<lambda>y. \<not> func y) xs" "drop ?n xs = dropWhile (\<lambda>y. \<not> func y) xs"
    by (simp_all add: takeWhile_eq_take [symmetric] dropWhile_eq_drop [symmetric])
  moreover have "?n = length xs \<Longrightarrow> dropWhile (\<lambda>y. \<not> func y) xs = []"
    by (simp add: dropWhile_eq_drop)
  moreover have "?n = length xs \<Longrightarrow> takeWhile (\<lambda>y. \<not> func y) xs = xs"
    by (metis takeWhile_eq_take take_all order_refl)
  moreover have "drop (Suc ?n) xs = tl (dropWhile (\<lambda>y. \<not> func y) xs)"
    by (simp add: dropWhile_eq_drop drop_Suc tl_drop)
  ultimately show ?thesis
    using Cons by (auto simp: removeIf_def Let_def find_if_def)
qed

theorem remove_erases_one:
  assumes "length (filter ((=) elem) (backingQueue q)) = 1"
  shows "bq_remove junk elem q = Some (q\<lparr>backingQueue := remove1 elem (backingQueue q)\<rparr>)"
proof -
  let ?xs = "backingQueue q"
  have len: "length ?xs = length (filter (\<lambda>x. x \<noteq> elem) ?xs) + 1"
    using sum_length_filter_compl [of "(=) elem" ?xs] assms by (simp add: eq_commute)
  have "filter (\<lambda>x. x \<noteq> elem) xs = remove1 elem xs" if "length (filter ((=) elem) xs) = 1" for xs
    using that
  proof (induction xs)
    case (Cons y ys)
    then show ?case by (auto simp: filter_empty_conv filter_id_conv)
  qed simp
  with assms len show ?thesis by (simp add: bq_remove_def Let_def)
qed

theorem remove_erases_one_witness:
  "bq_remove (\<lambda>_. 0) (2 :: nat) \<lparr>backingQueue = [1, 2, 3]\<rparr> = Some \<lparr>backingQueue = [1, 3]\<rparr>"
  using remove_erases_one [of 2 "\<lparr>backingQueue = [1, 2, 3 :: nat]\<rparr>"] by simp

theorem remove_absent_undefined:
  "bq_remove junk elem q = None \<longleftrightarrow> elem \<notin> set (backingQueue q)"
proof -
  have "length (filter (\<lambda>x. x \<noteq> elem) xs) = length xs \<longleftrightarrow> elem \<notin> set xs" for xs
  proof (cases "elem \<in> set xs")
    case True
    then show ?thesis using length_filter_less [of elem xs "\<lambda>x. x \<noteq> elem"] by simp
  next
    case False
    then have "filter (\<lambda>x. x \<noteq> elem) xs = xs" by (auto simp: filter_id_conv)
    with False show ?thesis by simp
  qed
  then show ?thesis by (simp add: bq_remove_def Let_def)
qed

end
