(* ===== verification/GWSocket_Base.thy ===== *)
theory GWSocket_Base
  imports Socket_State Blocking_Queue
begin

text \<open>
  The data of \<open>GWSocket\<close> (GWSocket.h) and those of its operations (GWSocket.cpp) that need
  no virtual function but \<open>closeSocket\<close>. A class is an extensible record: the two
  subclasses extend \<open>gwsocket\<close> by their own fields, and an operation of the base class
  works on \<open>'a gwsocket_scheme\<close>.

  Boost.Asio is the environment. Starting an asynchronous operation hands a completion
  handler to the io_context; the model keeps the operations that have been handed over and
  not completed in \<open>pending\<close>, each with the connection generation that its handler was
  wrapped with (\<open>guardGeneration\<close>), and all operations ever started, in order, in
  \<open>started\<close>. Which one completes next, and with which error code, is up to the
  environment.
\<close>

subsection \<open>Messages\<close>

datatype GWSMessageInType = IN_CONNECTED | IN_MESSAGE | IN_ERROR | IN_DISCONNECTED

record GWSocketMessageIn =
  in_type :: GWSMessageInType
  in_message :: string

datatype GWSMessageOutType = OUT_DISCONNECT | OUT_MESSAGE

record GWSocketMessageOut =
  out_type :: GWSMessageOutType
  out_message :: string
  out_binary :: bool

text \<open>
  \<open>boost::system::error_code\<close> as far as the sources look at it: whether it is set, the
  four values it is compared with, and its text.
\<close>

datatype ec_value =
    Success
  | Eof
  | OperationAborted
  | StreamTruncated
  | WebsocketClosed
  | OtherError int

record error_code =
  ec_value :: ec_value
  ec_message :: string

definition ec_set :: "error_code \<Rightarrow> bool" where
  "ec_set ec = (ec_value ec \<noteq> Success)"

subsection \<open>The socket\<close>

datatype async_op =
    ResolveOp string string
  | ConnectOp
  | SslHandshakeOp string string
  | HandshakeOp string string
  | ReadOp
  | WriteOp string bool
  | CloseOp

record gwsocket =
  messageQueue :: "GWSocketMessageIn bqueue"
  path :: string
  host :: string
  port :: "32 word"
  state :: SocketState
  perMessageDeflate :: bool
  disableContextTakeover :: bool
  writing :: bool
  messageToWrite :: string
  generation :: "32 word"
  cookies :: "string \<rightharpoonup> string"
  headers :: "string \<rightharpoonup> string"
  readBuffer :: string
  writeQueue :: "GWSocketMessageOut list"
  pending :: "(32 word \<times> async_op) list"
  started :: "async_op list"

definition new_gwsocket :: "string \<Rightarrow> 16 word \<Rightarrow> string \<Rightarrow> gwsocket" where
  "new_gwsocket host' port' path' =
     \<lparr>messageQueue = empty_queue, path = path', host = host', port = ucast port',
      state = STATE_DISCONNECTED, perMessageDeflate = False, disableContextTakeover = False,
      writing = False, messageToWrite = [], generation = 0, cookies = Map.empty,
      headers = Map.empty, readBuffer = [], writeQueue = [], pending = [], started = []\<rparr>"

definition isConnected :: "'a gwsocket_scheme \<Rightarrow> bool" where
  "isConnected s = (state s = STATE_CONNECTED)"

definition canBeDeleted :: "'a gwsocket_scheme \<Rightarrow> bool" where
  "canBeDeleted s = (state s = STATE_DISCONNECTED)"

definition put_in :: "GWSMessageInType \<Rightarrow> string \<Rightarrow> 'a gwsocket_scheme \<Rightarrow> 'a gwsocket_scheme" where
  "put_in ty msg s =
     s\<lparr>messageQueue := put \<lparr>in_type = ty, in_message = msg\<rparr> (messageQueue s)\<rparr>"

definition clearQueue :: "'a gwsocket_scheme \<Rightarrow> 'a gwsocket_scheme" where
  "clearQueue s = s\<lparr>writeQueue := []\<rparr>"

definition setPerMessageDeflate :: "bool \<Rightarrow> 'a gwsocket_scheme \<Rightarrow> 'a gwsocket_scheme" where
  "setPerMessageDeflate value s = s\<lparr>perMessageDeflate := value\<rparr>"

definition setDisableContextTakeover :: "bool \<Rightarrow> 'a gwsocket_scheme \<Rightarrow> 'a gwsocket_scheme" where
  "setDisableContextTakeover value s = s\<lparr>disableContextTakeover := value\<rparr>"

text \<open>
  Starting an asynchronous operation with a handler wrapped by \<open>guardGeneration\<close>: the
  wrapper captures the generation of this moment, and its call runs the handler only if
  the generation is still the same.
\<close>

definition async_start :: "async_op \<Rightarrow> 'a gwsocket_scheme \<Rightarrow> 'a gwsocket_scheme" where
  "async_start op s =
     s\<lparr>pending := pending s @ [(generation s, op)], started := started s @ [op]\<rparr>"

definition guardGeneration ::
  "32 word \<Rightarrow> ('a gwsocket_scheme \<Rightarrow> 'a gwsocket_scheme option) \<Rightarrow>
   'a gwsocket_scheme \<Rightarrow> 'a gwsocket_scheme option" where
  "guardGeneration expected handler s =
     (if generation s \<noteq> expected then Some s else handler s)"

subsection \<open>Closing\<close>

definition default_reason :: string where
  "default_reason = ''No reason specified''"

text \<open>
  \<open>cs\<close> is the virtual \<open>closeSocket\<close>. Cancelling the resolver changes nothing here: its
  pending handler stays pending, and the environment may complete it with any code.
\<close>

definition doClose ::
  "('a gwsocket_scheme \<Rightarrow> 'a gwsocket_scheme) \<Rightarrow> string \<Rightarrow> 'a gwsocket_scheme \<Rightarrow> 'a gwsocket_scheme" where
  "doClose cs disconnectReason s =
     (let s = s\<lparr>generation := generation s + 1\<rparr>;
          s = cs s;
          s = clearQueue s;
          s = s\<lparr>state := STATE_DISCONNECTED\<rparr>;
          s = s\<lparr>writing := False\<rparr>
      in put_in IN_DISCONNECTED disconnectReason s)"

definition set_disconnecting :: "'a gwsocket_scheme \<Rightarrow> bool \<times> 'a gwsocket_scheme" where
  \<comment> \<open>\<open>setDisconnectingCAS\<close> run on the main thread alone\<close>
  "set_disconnecting s =
     (let (ok, st) = setDisconnectingCAS [] (state s) in (ok, s\<lparr>state := st\<rparr>))"

definition closeNow ::
  "('a gwsocket_scheme \<Rightarrow> 'a gwsocket_scheme) \<Rightarrow> string \<Rightarrow> 'a gwsocket_scheme \<Rightarrow>
   bool \<times> 'a gwsocket_scheme" where
  "closeNow cs disconnectReason s =
     (let (ok, s) = set_disconnecting s in
      if \<not> ok then (False, s) else (True, doClose cs disconnectReason s))"

definition errorConnection ::
  "('a gwsocket_scheme \<Rightarrow> 'a gwsocket_scheme) \<Rightarrow> string \<Rightarrow> 'a gwsocket_scheme \<Rightarrow>
   bool \<times> 'a gwsocket_scheme" where
  "errorConnection cs errorMessage s =
     (let (ok, s) = set_disconnecting s in
      if \<not> ok then (False, s)
      else (True, doClose cs errorMessage (put_in IN_ERROR errorMessage s)))"

definition onDisconnected ::
  "('a gwsocket_scheme \<Rightarrow> 'a gwsocket_scheme) \<Rightarrow> error_code \<Rightarrow> 'a gwsocket_scheme \<Rightarrow>
   'a gwsocket_scheme" where
  "onDisconnected cs ec s = doClose cs (ec_message ec) s"

definition isConnectionClosedError :: "error_code \<Rightarrow> bool" where
  "isConnectionClosedError ec =
     (ec_value ec = Eof \<or> ec_value ec = OperationAborted
      \<or> ec_value ec = StreamTruncated \<or> ec_value ec = WebsocketClosed)"

lemma set_disconnecting_alone:
  "set_disconnecting s =
     (if state s = STATE_DISCONNECTED \<or> state s = STATE_DISCONNECTING then (False, s)
      else (True, s\<lparr>state := STATE_DISCONNECTING\<rparr>))"
  by (simp add: set_disconnecting_def setDisconnectingCAS_alone)

lemmas closing_defs [op_defs] =
  doClose_def closeNow_def errorConnection_def onDisconnected_def set_disconnecting_alone

end
