(* ===== verification/Transport.thy ===== *)
theory Transport
  imports GWSocket_Base
begin

text \<open>
  The pure virtual functions of \<open>GWSocket\<close>, which \<open>WebSocket\<close> and \<open>SSLWebSocket\<close>
  override, as a table of functions, and the contract that the comments of GWSocket.h put
  on them as the locale \<open>transport\<close>. The entries after \<open>v_getCloseReason\<close> are what the
  libraries call on the subclass alone: the completion of a TLS handshake, the certificate
  callback, and the close frame of the peer that the stream remembers.

  A result \<open>None\<close> is a dereference of the null stream pointer.
\<close>

text \<open>The OpenSSL verification results that the sources distinguish.\<close>

datatype x509_error =
    X509_V_OK
  | X509_V_ERR_UNABLE_TO_GET_ISSUER_CERT
  | X509_V_ERR_CERT_NOT_YET_VALID
  | X509_V_ERR_ERROR_IN_CERT_NOT_BEFORE_FIELD
  | X509_V_ERR_CERT_REVOKED
  | X509_V_ERR_CERT_HAS_EXPIRED
  | X509_V_ERR_ERROR_IN_CERT_NOT_AFTER_FIELD
  | X509_V_ERR_INVALID_CA
  | X509_V_ERR_SUBJECT_ISSUER_MISMATCH
  | X509_V_ERR_AKID_SKID_MISMATCH
  | X509_V_ERR_AKID_ISSUER_SERIAL_MISMATCH
  | X509_V_ERR_HOSTNAME_MISMATCH
  | X509_V_ERR_EMAIL_MISMATCH
  | X509_V_ERR_IP_ADDRESS_MISMATCH
  | X509_V_ERR_CERT_UNTRUSTED
  | X509_V_ERR_CERT_REJECTED
  | X509_V_ERR_SELF_SIGNED_CERT_IN_CHAIN
  | X509_V_ERR_UNABLE_TO_GET_CRL
  | X509_V_ERR_UNABLE_TO_GET_ISSUER_CERT_LOCALLY
  | X509_V_ERR_OTHER int

record 's vtable =
  v_asyncHandshake :: "string \<Rightarrow> string \<Rightarrow> 's \<Rightarrow> 's option"
  v_asyncConnect :: "bool \<Rightarrow> 's \<Rightarrow> 's option"
  v_asyncRead :: "'s \<Rightarrow> 's option"
  v_asyncWrite :: "string \<Rightarrow> bool \<Rightarrow> 's \<Rightarrow> 's option"
  v_asyncCloseSocket :: "'s \<Rightarrow> 's option"
  v_closeSocket :: "'s \<Rightarrow> 's"
  v_getCloseReason :: "'s \<Rightarrow> string"

record 's socket_class = "'s vtable" +
  c_sslHandshakeComplete :: "bool \<Rightarrow> error_code \<Rightarrow> string \<Rightarrow> string \<Rightarrow> 's \<Rightarrow> 's option"
  c_verifyCertificate :: "x509_error \<Rightarrow> 's \<Rightarrow> bool \<times> 's"
  c_peerClosed :: "string \<Rightarrow> 's \<Rightarrow> 's"
  c_connectFails :: "'s \<Rightarrow> 's option" \<comment> \<open>\<open>asyncConnect\<close> up to its error report; \<open>None\<close> without one\<close>

subsection \<open>Agreement on the base class\<close>

abbreviation same_base :: "'a gwsocket_scheme \<Rightarrow> 'b gwsocket_scheme \<Rightarrow> bool" where
  "same_base s t \<equiv> gwsocket.truncate s = gwsocket.truncate t"

lemma same_baseD:
  assumes "same_base s t"
  shows "messageQueue s = messageQueue t" "path s = path t" "host s = host t" "port s = port t"
    "state s = state t" "perMessageDeflate s = perMessageDeflate t"
    "disableContextTakeover s = disableContextTakeover t" "writing s = writing t"
    "messageToWrite s = messageToWrite t" "generation s = generation t" "cookies s = cookies t"
    "headers s = headers t" "readBuffer s = readBuffer t" "writeQueue s = writeQueue t"
    "pending s = pending t" "started s = started t"
  using assms by (simp_all add: gwsocket.truncate_def)

lemma same_baseI:
  assumes "messageQueue s = messageQueue t" "path s = path t" "host s = host t" "port s = port t"
    "state s = state t" "perMessageDeflate s = perMessageDeflate t"
    "disableContextTakeover s = disableContextTakeover t" "writing s = writing t"
    "messageToWrite s = messageToWrite t" "generation s = generation t" "cookies s = cookies t"
    "headers s = headers t" "readBuffer s = readBuffer t" "writeQueue s = writeQueue t"
    "pending s = pending t" "started s = started t"
  shows "same_base s t"
  using assms by (simp add: gwsocket.truncate_def)

subsection \<open>The contract\<close>

locale transport =
  fixes V :: "('a gwsocket_scheme, 'z) vtable_scheme"
    and has_ws :: "'a \<Rightarrow> bool"
    and tls :: bool
  assumes connect_total: "v_asyncConnect V ok s \<noteq> None"
    and connect_base:
      "v_asyncConnect V ok s = Some s' \<Longrightarrow>
       (has_ws (gwsocket.more s') \<and> same_base s' (async_start ConnectOp s))
       \<or> (\<exists>msg t. same_base t s \<and> s' = snd (errorConnection (v_closeSocket V) msg t))"
    and handshake_total: "has_ws (gwsocket.more s) \<Longrightarrow> v_asyncHandshake V h p s \<noteq> None"
    and handshake_base:
      "v_asyncHandshake V h p s = Some s' \<Longrightarrow>
       has_ws (gwsocket.more s') \<and>
       same_base s' (async_start (if tls then SslHandshakeOp h p else HandshakeOp h p) s)"
    and read_total: "has_ws (gwsocket.more s) \<Longrightarrow> v_asyncRead V s \<noteq> None"
    and read_base:
      "v_asyncRead V s = Some s' \<Longrightarrow>
       has_ws (gwsocket.more s') \<and> same_base s' (async_start ReadOp s)"
    and write_total: "has_ws (gwsocket.more s) \<Longrightarrow> v_asyncWrite V m b s \<noteq> None"
    and write_base:
      "v_asyncWrite V m b s = Some s' \<Longrightarrow>
       has_ws (gwsocket.more s') \<and>
       same_base s' ((async_start (WriteOp m b) s)\<lparr>messageToWrite := messageToWrite s'\<rparr>)"
    and close_total: "has_ws (gwsocket.more s) \<Longrightarrow> v_asyncCloseSocket V s \<noteq> None"
    and close_base:
      "v_asyncCloseSocket V s = Some s' \<Longrightarrow>
       has_ws (gwsocket.more s') \<and> same_base s' (async_start CloseOp s)"
    and closeSocket_base: "same_base (v_closeSocket V s) s"
    and closeSocket_ws: "has_ws (gwsocket.more (v_closeSocket V s)) = has_ws (gwsocket.more s)"

text \<open>
  What the libraries call on a subclass alone. \<open>hs\<close> stands for \<open>handshakeCompleted\<close>,
  which a failed TLS handshake is passed on to.
\<close>

locale socket_class_contract = transport V has_ws tls
  for V :: "('a gwsocket_scheme, 'z) socket_class_scheme"
    and has_ws :: "'a \<Rightarrow> bool"
    and tls :: bool +
  fixes hs :: "bool \<Rightarrow> error_code \<Rightarrow> 'a gwsocket_scheme \<Rightarrow> 'a gwsocket_scheme option"
  assumes tls_total:
      "tls \<Longrightarrow> \<not> ec_set ec \<Longrightarrow> has_ws (gwsocket.more s) \<Longrightarrow>
       c_sslHandshakeComplete V spurious ec h p s \<noteq> None"
    and tls_done:
      "tls \<Longrightarrow> \<not> ec_set ec \<Longrightarrow> c_sslHandshakeComplete V spurious ec h p s = Some s' \<Longrightarrow>
       has_ws (gwsocket.more s') \<and> same_base s' (async_start (HandshakeOp h p) s)"
    and tls_failed:
      "tls \<Longrightarrow> ec_set ec \<Longrightarrow> c_sslHandshakeComplete V spurious ec h p s = hs spurious ec s"
    and no_tls: "\<not> tls \<Longrightarrow> c_sslHandshakeComplete V spurious ec h p s = None"
    and verify:
      "c_verifyCertificate V err s = (accepted, s') \<Longrightarrow>
       (accepted \<and> s' = s)
       \<or> (\<not> accepted \<and> (\<exists>msg. s' = snd (errorConnection (v_closeSocket V) msg s)))"
    and peerClosed_base: "same_base (c_peerClosed V reason s) s"
    and peerClosed_ws:
      "has_ws (gwsocket.more (c_peerClosed V reason s)) = has_ws (gwsocket.more s)"

end
