(* ===== verification/GWSocket.thy ===== *)
theory GWSocket
  imports Transport
begin

text \<open>
  The operations and completion handlers of \<open>GWSocket\<close> (GWSocket.cpp), over the table
  \<open>V\<close> of the virtual functions, and the run of a socket: what the module may call, what
  the io_context may complete, what the network may do.

  The argument \<open>spurious\<close> says whether the weak compare-and-exchange in \<open>checkWriting\<close>
  fails although the values agree, which the C++ standard allows. The recursive mutex on
  the write queue has no state: its owner is always the running thread.
\<close>

subsection \<open>Writing\<close>

definition checkWriting ::
  "('a gwsocket_scheme, 'z) vtable_scheme \<Rightarrow> bool \<Rightarrow> 'a gwsocket_scheme \<Rightarrow> 'a gwsocket_scheme option" where
  "checkWriting V spurious s =
     (if state s = STATE_CONNECTED \<or> state s = STATE_DISCONNECT_REQUESTED then
        (if \<not> writing s then
           (case writeQueue s of
              [] \<Rightarrow> Some s
            | message # rest \<Rightarrow>
                let s = s\<lparr>writing := True\<rparr>;
                    s = s\<lparr>writeQueue := rest\<rparr> in
                (case out_type message of
                   OUT_MESSAGE \<Rightarrow> v_asyncWrite V (out_message message) (out_binary message) s
                 | OUT_DISCONNECT \<Rightarrow>
                     let (ok, st, _) = compare_exchange_weak spurious (state s)
                                         STATE_DISCONNECT_REQUESTED STATE_DISCONNECTING;
                         s = s\<lparr>state := st\<rparr> in
                     if ok then v_asyncCloseSocket V s
                     else Some (snd (closeNow (v_closeSocket V) default_reason s))))
         else Some s)
      else Some s)"

definition gw_write ::
  "('a gwsocket_scheme, 'z) vtable_scheme \<Rightarrow> bool \<Rightarrow> string \<Rightarrow> bool \<Rightarrow> 'a gwsocket_scheme \<Rightarrow>
   'a gwsocket_scheme option" where
  "gw_write V spurious message binary s =
     (let entry = \<lparr>out_type = OUT_MESSAGE, out_message = message, out_binary = binary\<rparr>;
          s = s\<lparr>writeQueue := writeQueue s @ [entry]\<rparr>
      in checkWriting V spurious s)"

definition gw_close ::
  "('a gwsocket_scheme, 'z) vtable_scheme \<Rightarrow> bool \<Rightarrow> 'a gwsocket_scheme \<Rightarrow>
   (bool \<times> 'a gwsocket_scheme) option" where
  "gw_close V spurious s =
     (let expected = state s in
      if expected = STATE_DISCONNECTED \<or> expected = STATE_DISCONNECTING
         \<or> expected = STATE_DISCONNECT_REQUESTED then Some (False, s)
      else
        let (ok, st, _) = compare_exchange_strong (state s) expected STATE_DISCONNECT_REQUESTED;
            s = s\<lparr>state := st\<rparr> in
        if \<not> ok then Some (False, s)
        else
          let entry = \<lparr>out_type = OUT_DISCONNECT, out_message = [], out_binary = False\<rparr>;
              s = s\<lparr>writeQueue := writeQueue s @ [entry]\<rparr> in
          if expected \<noteq> STATE_CONNECTING
          then map_option (\<lambda>s. (True, s)) (checkWriting V spurious s)
          else Some (True, s))"

definition onWrite ::
  "('a gwsocket_scheme, 'z) vtable_scheme \<Rightarrow> bool \<Rightarrow> error_code \<Rightarrow> 'a gwsocket_scheme \<Rightarrow>
   'a gwsocket_scheme option" where
  "onWrite V spurious ec s =
     (if \<not> ec_set ec then checkWriting V spurious (s\<lparr>writing := False\<rparr>)
      else if isConnectionClosedError ec then
        Some (snd (closeNow (v_closeSocket V) ''Connection closed by remote host'' s))
      else Some (snd (errorConnection (v_closeSocket V) (ec_message ec) s)))"

subsection \<open>Reading\<close>

definition onRead ::
  "('a gwsocket_scheme, 'z) vtable_scheme \<Rightarrow> error_code \<Rightarrow> 'a gwsocket_scheme \<Rightarrow>
   'a gwsocket_scheme option" where
  "onRead V ec s =
     (if \<not> ec_set ec then
        (let s = put_in IN_MESSAGE (readBuffer s) s;
             s = s\<lparr>readBuffer := []\<rparr>
         in v_asyncRead V s)
      else if isConnectionClosedError ec then
        (let closeReason = v_getCloseReason V s;
             closeReason = (if closeReason = [] then default_reason else closeReason)
         in Some (snd (closeNow (v_closeSocket V) closeReason s)))
      else Some (snd (errorConnection (v_closeSocket V) (ec_message ec) s)))"

subsection \<open>Connecting\<close>

definition gw_open :: "bool \<Rightarrow> 'a gwsocket_scheme \<Rightarrow> 'a gwsocket_scheme" where
  "gw_open shouldClearQueue s =
     (let (ok, st, _) = compare_exchange_strong (state s) STATE_DISCONNECTED STATE_CONNECTING in
      if \<not> ok then s
      else
        let s = s\<lparr>state := st\<rparr>;
            s = (if shouldClearQueue then clearQueue s else s);
            s = s\<lparr>generation := generation s + 1\<rparr>
        in async_start (ResolveOp (host s) (to_string (unat (port s)))) s)"

definition hostResolvedStep ::
  "('a gwsocket_scheme, 'z) vtable_scheme \<Rightarrow> bool \<Rightarrow> error_code \<Rightarrow> 'a gwsocket_scheme \<Rightarrow>
   'a gwsocket_scheme option" where
  "hostResolvedStep V params_ok ec s =
     (if \<not> ec_set ec then v_asyncConnect V params_ok s
      else Some (snd (errorConnection (v_closeSocket V) (''[Resolver] '' @ ec_message ec) s)))"

definition hostWithPort :: "'a gwsocket_scheme \<Rightarrow> string" where
  "hostWithPort s =
     (if port s \<noteq> 80 then host s @ '':'' @ to_string (unat (port s)) else host s)"

definition socketConnected ::
  "('a gwsocket_scheme, 'z) vtable_scheme \<Rightarrow> error_code \<Rightarrow> 'a gwsocket_scheme \<Rightarrow>
   'a gwsocket_scheme option" where
  "socketConnected V ec s =
     (if \<not> ec_set ec then v_asyncHandshake V (hostWithPort s) (path s) s
      else Some (snd (errorConnection (v_closeSocket V)
                        (''Connection failed: '' @ ec_message ec) s)))"

definition handshakeCompleted ::
  "('a gwsocket_scheme, 'z) vtable_scheme \<Rightarrow> bool \<Rightarrow> error_code \<Rightarrow> 'a gwsocket_scheme \<Rightarrow>
   'a gwsocket_scheme option" where
  "handshakeCompleted V spurious ec s =
     (if \<not> ec_set ec then
        (let (ok, st, _) = compare_exchange_strong (state s) STATE_CONNECTING STATE_CONNECTED;
             s = s\<lparr>state := st\<rparr> in
         if ok then
           (let s = put_in IN_CONNECTED ''Connected'' s in
            v_asyncRead V s \<bind> checkWriting V spurious)
         else Some (snd (closeNow (v_closeSocket V) default_reason s)))
      else Some (snd (errorConnection (v_closeSocket V)
                        (''Connection failed: '' @ ec_message ec) s)))"

lemmas handler_defs [op_defs] =
  checkWriting_def gw_write_def gw_close_def onWrite_def onRead_def gw_open_def
  hostResolvedStep_def socketConnected_def handshakeCompleted_def

subsection \<open>A socket at work\<close>

text \<open>
  The completion of a pending operation runs the handler that its start wrapped with
  \<open>guardGeneration\<close>. \<open>params_ok\<close> is what the two OpenSSL calls in
  \<open>SSLWebSocket::asyncConnect\<close> return.
\<close>

definition run_handler ::
  "('a gwsocket_scheme, 'z) socket_class_scheme \<Rightarrow> bool \<Rightarrow> bool \<Rightarrow> error_code \<Rightarrow> async_op \<Rightarrow>
   'a gwsocket_scheme \<Rightarrow> 'a gwsocket_scheme option" where
  "run_handler K spurious params_ok ec op s =
     (case op of
        ResolveOp _ _ \<Rightarrow> hostResolvedStep K params_ok ec s
      | ConnectOp \<Rightarrow> socketConnected K ec s
      | SslHandshakeOp h p \<Rightarrow> c_sslHandshakeComplete K spurious ec h p s
      | HandshakeOp _ _ \<Rightarrow> handshakeCompleted K spurious ec s
      | ReadOp \<Rightarrow> onRead K ec s
      | WriteOp _ _ \<Rightarrow> onWrite K spurious ec s
      | CloseOp \<Rightarrow> Some (onDisconnected (v_closeSocket K) ec s))"

definition complete ::
  "('a gwsocket_scheme, 'z) socket_class_scheme \<Rightarrow> nat \<Rightarrow> bool \<Rightarrow> bool \<Rightarrow> error_code \<Rightarrow>
   'a gwsocket_scheme \<Rightarrow> 'a gwsocket_scheme option" where
  "complete K i spurious params_ok ec s =
     (if i < length (pending s) then
        (let (expected, op) = pending s ! i;
             s = s\<lparr>pending := take i (pending s) @ drop (Suc i) (pending s)\<rparr>
         in guardGeneration expected (run_handler K spurious params_ok ec op) s)
      else Some s)"

definition current_ops :: "'a gwsocket_scheme \<Rightarrow> async_op list" where
  \<comment> \<open>the pending operations whose handlers would still run\<close>
  "current_ops s = map snd (filter (\<lambda>(g, _). g = generation s) (pending s))"

datatype sock_event =
    EvOpen bool
  | EvClose bool
  | EvCloseNow
  | EvWrite bool string bool
  | EvClearQueue
  | EvSetDeflate bool
  | EvSetTakeover bool
  | EvPoll
  | EvComplete nat bool bool error_code
  | EvReceive string
  | EvPeerClosed string
  | EvVerify x509_error

text \<open>
  One step. Bytes and close frames arrive only while a read of the current connection is
  pending; the certificate callback runs only during a TLS handshake. \<open>EvPoll\<close> is the
  timer taking the queued events; they are the step's output.
\<close>

fun sock_step ::
  "('a gwsocket_scheme, 'z) socket_class_scheme \<Rightarrow> sock_event \<Rightarrow> 'a gwsocket_scheme \<Rightarrow>
   ('a gwsocket_scheme \<times> GWSocketMessageIn list) option" where
  "sock_step K (EvOpen clear) s = Some (gw_open clear s, [])"
| "sock_step K (EvClose spurious) s = map_option (\<lambda>(_, s). (s, [])) (gw_close K spurious s)"
| "sock_step K EvCloseNow s = Some (snd (closeNow (v_closeSocket K) default_reason s), [])"
| "sock_step K (EvWrite spurious m b) s = map_option (\<lambda>s. (s, [])) (gw_write K spurious m b s)"
| "sock_step K EvClearQueue s = Some (clearQueue s, [])"
| "sock_step K (EvSetDeflate v) s = Some (setPerMessageDeflate v s, [])"
| "sock_step K (EvSetTakeover v) s = Some (setDisableContextTakeover v s, [])"
| "sock_step K EvPoll s =
     (let (out, q) = bq_clear (messageQueue s) in Some (s\<lparr>messageQueue := q\<rparr>, out))"
| "sock_step K (EvComplete i spurious params_ok ec) s =
     map_option (\<lambda>s. (s, [])) (complete K i spurious params_ok ec s)"
| "sock_step K (EvReceive bytes) s =
     Some (if ReadOp \<in> set (current_ops s) then s\<lparr>readBuffer := readBuffer s @ bytes\<rparr> else s, [])"
| "sock_step K (EvPeerClosed reason) s =
     Some (if ReadOp \<in> set (current_ops s) then c_peerClosed K reason s else s, [])"
| "sock_step K (EvVerify err) s =
     Some (if \<exists>op\<in>set (map snd (pending s)). (case op of SslHandshakeOp _ _ \<Rightarrow> True | _ \<Rightarrow> False)
           then snd (c_verifyCertificate K err s) else s, [])"

fun sock_run ::
  "('a gwsocket_scheme, 'z) socket_class_scheme \<Rightarrow> sock_event list \<Rightarrow> 'a gwsocket_scheme \<Rightarrow>
   ('a gwsocket_scheme \<times> GWSocketMessageIn list) option" where
  "sock_run K [] s = Some (s, [])"
| "sock_run K (e # es) s =
     (case sock_step K e s of
        None \<Rightarrow> None
      | Some (s, out) \<Rightarrow>
          (case sock_run K es s of None \<Rightarrow> None | Some (s, out') \<Rightarrow> Some (s, out @ out')))"

end
