(* ===== verification/Socket_Inv.thy ===== *)
theory Socket_Inv
  imports GWSocket
begin

text \<open>
  What is true of a socket between any two steps: how its state, its \<open>writing\<close> flag, its
  write queue and the operations it has outstanding fit together, and which sequences of
  events it reports. Everything is proved once, for every subclass that keeps the
  contract of \<open>transport\<close>.
\<close>

subsection \<open>Outstanding operations\<close>

fun is_resolve_op :: "async_op \<Rightarrow> bool" where
  "is_resolve_op (ResolveOp _ _) = True"
| "is_resolve_op _ = False"

fun is_connect_op :: "async_op \<Rightarrow> bool" where
  "is_connect_op (ResolveOp _ _) = True"
| "is_connect_op ConnectOp = True"
| "is_connect_op (SslHandshakeOp _ _) = True"
| "is_connect_op (HandshakeOp _ _) = True"
| "is_connect_op _ = False"

fun is_write_op :: "async_op \<Rightarrow> bool" where
  "is_write_op (WriteOp _ _) = True"
| "is_write_op _ = False"

fun is_ssl_op :: "async_op \<Rightarrow> bool" where
  "is_ssl_op (SslHandshakeOp _ _) = True"
| "is_ssl_op _ = False"

definition n_of :: "(async_op \<Rightarrow> bool) \<Rightarrow> async_op list \<Rightarrow> 'a gwsocket_scheme \<Rightarrow> nat" where
  \<comment> \<open>how many operations of a kind: those outstanding, and those of \<open>X\<close>, whose handler is
     about to run\<close>
  "n_of P X s = length (filter P (X @ current_ops s))"

lemma current_ops_cong:
  "generation s = generation t \<Longrightarrow> pending s = pending t \<Longrightarrow> current_ops s = current_ops t"
  by (simp add: current_ops_def)

lemma current_ops_update [simp]:
  "current_ops (s\<lparr>messageQueue := q\<rparr>) = current_ops s"
  "current_ops (s\<lparr>state := st\<rparr>) = current_ops s"
  "current_ops (s\<lparr>writing := b\<rparr>) = current_ops s"
  "current_ops (s\<lparr>messageToWrite := m\<rparr>) = current_ops s"
  "current_ops (s\<lparr>readBuffer := m\<rparr>) = current_ops s"
  "current_ops (s\<lparr>writeQueue := w\<rparr>) = current_ops s"
  "current_ops (s\<lparr>perMessageDeflate := b\<rparr>) = current_ops s"
  "current_ops (s\<lparr>disableContextTakeover := b\<rparr>) = current_ops s"
  by (simp_all add: current_ops_def)

lemma current_ops_start [simp]: "current_ops (async_start op s) = current_ops s @ [op]"
  by (simp add: current_ops_def async_start_def)

lemma n_of_nil: "n_of P [] s = length (filter P (current_ops s))"
  by (simp add: n_of_def)

lemma n_of_cong: "current_ops s = current_ops t \<Longrightarrow> n_of P X s = n_of P X t"
  by (simp add: n_of_def)

lemma n_of_start [simp]: "n_of P X (async_start op s) = n_of P X s + (if P op then 1 else 0)"
  by (simp add: n_of_def)

lemma n_of_X: "n_of P (op # X) s = n_of P X s + (if P op then 1 else 0)"
  by (simp add: n_of_def)

lemma n_of_0: "n_of P X s = 0 \<longleftrightarrow> (\<forall>op\<in>set X \<union> set (current_ops s). \<not> P op)"
  by (auto simp: n_of_def filter_empty_conv)

subsection \<open>Generations\<close>

definition gens_ok :: "nat \<Rightarrow> 'a gwsocket_scheme \<Rightarrow> bool" where
  \<comment> \<open>the generation counter has not wrapped, and no handler is of a later generation\<close>
  "gens_ok n s \<longleftrightarrow>
     unat (generation s) \<le> n \<and> (\<forall>g\<in>fst ` set (pending s). unat g \<le> unat (generation s))"

lemma gens_ok_mono: "gens_ok n s \<Longrightarrow> n \<le> m \<Longrightarrow> gens_ok m s"
  by (auto simp: gens_ok_def)

lemma unat_next:
  "unat (g :: 32 word) \<le> n \<Longrightarrow> n < 2 ^ 32 - 1 \<Longrightarrow> unat (g + 1) = unat g + 1"
  by (subst unat_add_lem [THEN iffD1]) auto

lemma next_generation:
  assumes "gens_ok n s" "n < 2 ^ 32 - 1"
  shows "gens_ok (Suc n) (s\<lparr>generation := generation s + 1\<rparr>)"
    and "current_ops (s\<lparr>generation := generation s + 1\<rparr>) = []"
proof -
  have next1: "unat (generation s + 1) = unat (generation s) + 1"
    using assms unat_next [of "generation s" n] by (auto simp: gens_ok_def)
  with assms(1) show "gens_ok (Suc n) (s\<lparr>generation := generation s + 1\<rparr>)"
    by (auto simp: gens_ok_def le_SucI)
  show "current_ops (s\<lparr>generation := generation s + 1\<rparr>) = []"
    using assms(1) next1 by (fastforce simp: gens_ok_def current_ops_def filter_empty_conv)
qed

subsection \<open>The reported events\<close>

datatype life = Down | Up | Failed

fun life_step :: "life \<Rightarrow> GWSMessageInType \<Rightarrow> life option" where
  "life_step Down IN_CONNECTED = Some Up"
| "life_step Up IN_MESSAGE = Some Up"
| "life_step Down IN_ERROR = Some Failed"
| "life_step Up IN_ERROR = Some Failed"
| "life_step _ IN_DISCONNECTED = Some Down"
| "life_step _ _ = None"

fun lifecycle :: "life \<Rightarrow> GWSMessageInType list \<Rightarrow> life option" where
  \<comment> \<open>the reports a client may see: connected, then messages, an error only just before the
     disconnect that ends the connection\<close>
  "lifecycle l [] = Some l"
| "lifecycle l (t # ts) = (case life_step l t of None \<Rightarrow> None | Some l' \<Rightarrow> lifecycle l' ts)"

lemma lifecycle_append:
  "lifecycle l (xs @ ys) = (case lifecycle l xs of None \<Rightarrow> None | Some l' \<Rightarrow> lifecycle l' ys)"
  by (induction xs arbitrary: l) (auto split: option.splits)

definition reports :: "GWSocketMessageIn list \<Rightarrow> 'a gwsocket_scheme \<Rightarrow> GWSMessageInType list" where
  \<comment> \<open>the events polled so far, then those still queued\<close>
  "reports d s = map in_type (d @ backingQueue (messageQueue s))"

lemma reports_put_in [simp]: "reports d (put_in ty m s) = reports d s @ [ty]"
  by (simp add: reports_def put_in_def)

lemma reports_update [simp]:
  "reports d (s\<lparr>state := st\<rparr>) = reports d s" "reports d (s\<lparr>writing := b\<rparr>) = reports d s"
  "reports d (s\<lparr>readBuffer := m\<rparr>) = reports d s" "reports d (s\<lparr>writeQueue := w\<rparr>) = reports d s"
  "reports d (s\<lparr>generation := g\<rparr>) = reports d s"
  "reports d (s\<lparr>perMessageDeflate := b\<rparr>) = reports d s"
  "reports d (s\<lparr>disableContextTakeover := b\<rparr>) = reports d s"
  by (simp_all add: reports_def)

lemma reports_cong: "messageQueue s = messageQueue t \<Longrightarrow> reports d s = reports d t"
  by (simp add: reports_def)

definition n_opens :: "'a gwsocket_scheme \<Rightarrow> nat" where
  \<comment> \<open>connection attempts: each starts one name resolution\<close>
  "n_opens s = length (filter is_resolve_op (started s))"

subsection \<open>The invariant\<close>

fun phase :: "SocketState \<Rightarrow> bool \<Rightarrow> nat \<Rightarrow> nat \<Rightarrow> nat \<Rightarrow> nat \<Rightarrow> bool" where
  \<comment> \<open>state, writing flag, and the number of connecting, reading, writing and closing
     operations\<close>
  "phase STATE_DISCONNECTED wr c r w k \<longleftrightarrow> \<not> wr \<and> c = 0 \<and> r = 0 \<and> w = 0 \<and> k = 0"
| "phase STATE_CONNECTING wr c r w k \<longleftrightarrow> \<not> wr \<and> c = 1 \<and> r = 0 \<and> w = 0 \<and> k = 0"
| "phase STATE_CONNECTED wr c r w k \<longleftrightarrow> c = 0 \<and> r = 1 \<and> w = (if wr then 1 else 0) \<and> k = 0"
| "phase STATE_DISCONNECT_REQUESTED wr c r w k \<longleftrightarrow>
     k = 0 \<and> (\<not> wr \<and> c = 1 \<and> r = 0 \<and> w = 0 \<or> c = 0 \<and> r = 1 \<and> w = (if wr then 1 else 0))"
| "phase STATE_DISCONNECTING wr c r w k \<longleftrightarrow> wr \<and> c = 0 \<and> r \<le> 1 \<and> w = 0 \<and> k = 1"

definition phase_ok :: "async_op list \<Rightarrow> 'a gwsocket_scheme \<Rightarrow> bool" where
  "phase_ok X s =
     phase (state s) (writing s) (n_of is_connect_op X s) (n_of ((=) ReadOp) X s)
       (n_of is_write_op X s) (n_of ((=) CloseOp) X s)"

definition idle_queue_ok :: "async_op list \<Rightarrow> 'a gwsocket_scheme \<Rightarrow> bool" where
  \<comment> \<open>on an established connection a queued message waits only for a write to finish\<close>
  "idle_queue_ok X s \<longleftrightarrow>
     (state s = STATE_CONNECTED \<or> state s = STATE_DISCONNECT_REQUESTED) \<longrightarrow>
     n_of is_connect_op X s = 0 \<longrightarrow> \<not> writing s \<longrightarrow> writeQueue s = []"

definition n_disconnects :: "'a gwsocket_scheme \<Rightarrow> nat" where
  \<comment> \<open>close requests in the write queue\<close>
  "n_disconnects s = length (filter (\<lambda>m. out_type m = OUT_DISCONNECT) (writeQueue s))"

definition core_inv ::
  "('a \<Rightarrow> bool) \<Rightarrow> bool \<Rightarrow> async_op list \<Rightarrow> nat \<Rightarrow> GWSocketMessageIn list \<Rightarrow>
   'a gwsocket_scheme \<Rightarrow> bool" where
  "core_inv has_ws tls X n d s \<longleftrightarrow>
     gens_ok n s \<and> phase_ok X s
     \<and> n_disconnects s \<le> (if state s = STATE_DISCONNECT_REQUESTED then 1 else 0)
     \<and> (\<forall>op\<in>set (X @ current_ops s). \<not> is_resolve_op op \<longrightarrow> has_ws (gwsocket.more s))
     \<and> (\<not> tls \<longrightarrow> (\<forall>op\<in>set X \<union> snd ` set (pending s). \<not> is_ssl_op op))
     \<and> lifecycle Down (reports d s) =
         Some (if state s = STATE_DISCONNECTED \<or> n_of is_connect_op X s > 0 then Down else Up)
     \<and> length (filter ((=) IN_DISCONNECTED) (reports d s))
         + (if state s = STATE_DISCONNECTED then 0 else 1) = n_opens s"

definition sock_inv ::
  "('a \<Rightarrow> bool) \<Rightarrow> bool \<Rightarrow> nat \<Rightarrow> GWSocketMessageIn list \<Rightarrow> 'a gwsocket_scheme \<Rightarrow> bool" where
  "sock_inv has_ws tls n d s \<longleftrightarrow> core_inv has_ws tls [] n d s \<and> idle_queue_ok [] s"

text \<open>The invariant looks at the base class and at whether there is a stream.\<close>

lemma core_inv_same:
  assumes "same_base s t" "has_ws (gwsocket.more s) = has_ws (gwsocket.more t)"
  shows "core_inv has_ws tls X n d s = core_inv has_ws tls X n d t"
  using assms(2) same_baseD [OF assms(1)]
  by (simp add: core_inv_def gens_ok_def phase_ok_def n_of_def current_ops_def reports_def n_opens_def
      n_disconnects_def)

lemma idle_queue_ok_same:
  assumes "same_base s t"
  shows "idle_queue_ok X s = idle_queue_ok X t"
  using same_baseD [OF assms] by (simp add: idle_queue_ok_def n_of_def current_ops_def)

lemma sock_inv_same:
  assumes "same_base s t" "has_ws (gwsocket.more s) = has_ws (gwsocket.more t)"
  shows "sock_inv has_ws tls n d s = sock_inv has_ws tls n d t"
  using core_inv_same [OF assms] idle_queue_ok_same [OF assms(1)] by (simp add: sock_inv_def)

lemma core_inv_mono: "core_inv has_ws tls X n d s \<Longrightarrow> n \<le> m \<Longrightarrow> core_inv has_ws tls X m d s"
  by (auto simp: core_inv_def intro: gens_ok_mono)

lemma sock_inv_mono: "sock_inv has_ws tls n d s \<Longrightarrow> n \<le> m \<Longrightarrow> sock_inv has_ws tls m d s"
  by (auto simp: sock_inv_def intro: core_inv_mono)

subsection \<open>Operations of the base class\<close>

lemma put_in_fields [simp]:
  "generation (put_in ty m s) = generation s" "pending (put_in ty m s) = pending s"
  "started (put_in ty m s) = started s" "state (put_in ty m s) = state s"
  "writing (put_in ty m s) = writing s" "writeQueue (put_in ty m s) = writeQueue s"
  "gwsocket.more (put_in ty m s) = gwsocket.more s"
  "current_ops (put_in ty m s) = current_ops s"
  by (simp_all add: put_in_def)

lemma async_start_fields [simp]:
  "generation (async_start op s) = generation s" "messageQueue (async_start op s) = messageQueue s"
  "started (async_start op s) = started s @ [op]" "state (async_start op s) = state s"
  "pending (async_start op s) = pending s @ [(generation s, op)]"
  "writing (async_start op s) = writing s" "writeQueue (async_start op s) = writeQueue s"
  "gwsocket.more (async_start op s) = gwsocket.more s"
  by (simp_all add: async_start_def)

lemma async_start_messageToWrite:
  "(async_start op s)\<lparr>messageToWrite := m\<rparr> = async_start op (s\<lparr>messageToWrite := m\<rparr>)"
  by (cases s) (simp add: async_start_def)

lemma gens_ok_start [simp]: "gens_ok n (async_start op s) = gens_ok n s"
  by (auto simp: gens_ok_def)

lemma life_step_disconnected [simp]: "life_step l IN_DISCONNECTED = Some Down"
  by (cases l) auto

lemma life_step_error: "l \<noteq> Failed \<Longrightarrow> life_step l IN_ERROR = Some Failed"
  by (cases l) auto

context transport begin

lemma doClose_inv:
  assumes gens: "gens_ok n s" "n < 2 ^ 32 - 1"
    and ssl: "\<not> tls \<longrightarrow> (\<forall>op\<in>snd ` set (pending s). \<not> is_ssl_op op)"
    and life: "lifecycle Down (reports d s) = Some L"
    and opens: "length (filter ((=) IN_DISCONNECTED) (reports d s)) + 1 = n_opens s"
  shows "sock_inv has_ws tls (Suc n) d (doClose (v_closeSocket V) reason s)"
proof -
  define s1 where "s1 = s\<lparr>generation := generation s + 1\<rparr>"
  define s2 where "s2 = v_closeSocket V s1"
  note base = same_baseD [OF closeSocket_base [of s1]]
  have s2: "messageQueue s2 = messageQueue s" "pending s2 = pending s" "started s2 = started s"
    "generation s2 = generation s + 1"
    using base by (simp_all add: s1_def s2_def)
  have "gens_ok (Suc n) s1" and ops1: "current_ops s1 = []"
    using next_generation [OF gens] by (simp_all add: s1_def)
  then have gens2: "gens_ok (Suc n) s2"
    using s2 by (auto simp: gens_ok_def s1_def)
  have ops2: "current_ops s2 = []"
    using ops1 current_ops_cong [of s2 s1] s2 by (simp add: s1_def)
  define t where
    "t = put_in IN_DISCONNECTED reason (s2\<lparr>writeQueue := [], state := STATE_DISCONNECTED, writing := False\<rparr>)"
  have "doClose (v_closeSocket V) reason s = t"
    by (simp add: doClose_def clearQueue_def t_def s2_def s1_def Let_def)
  moreover have rep: "reports d t = reports d s @ [IN_DISCONNECTED]"
    using s2 by (simp add: t_def reports_def put_in_def)
  moreover have "gens_ok (Suc n) t"
    using gens2 by (simp add: t_def gens_ok_def)
  moreover have "current_ops t = []"
    using ops2 by (simp add: t_def)
  moreover have "n_opens t = n_opens s"
    using s2 by (simp add: t_def n_opens_def)
  ultimately show ?thesis
    using s2 life ssl opens
    by (simp add: sock_inv_def core_inv_def idle_queue_ok_def phase_ok_def n_of_def rep
        lifecycle_append n_disconnects_def t_def)
qed

lemma closing_facts:
  assumes "core_inv has_ws tls X n d s" "state s \<noteq> STATE_DISCONNECTED"
  shows "gens_ok n s" "\<not> tls \<longrightarrow> (\<forall>op\<in>snd ` set (pending s). \<not> is_ssl_op op)"
    and "\<exists>L. L \<noteq> Failed \<and> lifecycle Down (reports d s) = Some L"
    and "length (filter ((=) IN_DISCONNECTED) (reports d s)) + 1 = n_opens s"
  using assms by (auto simp: core_inv_def)

lemma drop_handler:
  assumes "core_inv has_ws tls X n d s" "CloseOp \<notin> set X"
    and "state s = STATE_DISCONNECTED \<or> state s = STATE_DISCONNECTING"
  shows "sock_inv has_ws tls n d s"
proof -
  have "n_of P [] s \<le> n_of P X s" for P
    by (simp add: n_of_def)
  then have le: "n_of P X s = 0 \<Longrightarrow> n_of P [] s = 0" "n_of P X s \<le> 1 \<Longrightarrow> n_of P [] s \<le> 1" for P
    by (metis le_zero_eq, metis order_trans)
  have k: "n_of ((=) CloseOp) [] s = n_of ((=) CloseOp) X s"
    using assms(2) by (auto simp: n_of_def filter_empty_conv)
  have "phase_ok [] s"
    using assms(1,3) le k unfolding core_inv_def phase_ok_def by (elim disjE) simp_all
  moreover have "idle_queue_ok [] s" using assms(3) by (auto simp: idle_queue_ok_def)
  moreover have "n_of is_connect_op X s = 0" "n_of is_connect_op [] s = 0"
    using assms(1,3) le(1) by (auto simp: core_inv_def phase_ok_def)
  ultimately show ?thesis
    using assms(1) unfolding sock_inv_def core_inv_def by auto
qed

lemma closeNow_inv:
  assumes inv: "core_inv has_ws tls X n d s" "CloseOp \<notin> set X" and n: "n < 2 ^ 32 - 1"
  shows "sock_inv has_ws tls (Suc n) d (snd (closeNow (v_closeSocket V) reason s))"
proof (cases "state s = STATE_DISCONNECTED \<or> state s = STATE_DISCONNECTING")
  case True
  with drop_handler [OF inv] sock_inv_mono show ?thesis
    by (auto simp: closeNow_def set_disconnecting_alone intro: sock_inv_mono)
next
  case False
  let ?t = "s\<lparr>state := STATE_DISCONNECTING\<rparr>"
  have reports_t: "reports d ?t = reports d s" "n_opens ?t = n_opens s" "gens_ok n ?t = gens_ok n s"
    by (simp_all add: n_opens_def gens_ok_def)
  obtain L where "lifecycle Down (reports d s) = Some L"
    using closing_facts(3) [OF inv(1)] False by blast
  then have "sock_inv has_ws tls (Suc n) d (doClose (v_closeSocket V) reason ?t)"
    using closing_facts [OF inv(1)] False n by (intro doClose_inv [of n _ d L]) (auto simp: reports_t)
  with False show ?thesis
    by (simp add: closeNow_def set_disconnecting_alone)
qed

lemma errorConnection_inv:
  assumes inv: "core_inv has_ws tls X n d s" "CloseOp \<notin> set X" and n: "n < 2 ^ 32 - 1"
  shows "sock_inv has_ws tls (Suc n) d (snd (errorConnection (v_closeSocket V) msg s))"
proof (cases "state s = STATE_DISCONNECTED \<or> state s = STATE_DISCONNECTING")
  case True
  with drop_handler [OF inv] show ?thesis
    by (auto simp: errorConnection_def set_disconnecting_alone intro: sock_inv_mono)
next
  case False
  let ?t = "put_in IN_ERROR msg (s\<lparr>state := STATE_DISCONNECTING\<rparr>)"
  have reports_t: "reports d ?t = reports d s @ [IN_ERROR]" "n_opens ?t = n_opens s"
    "gens_ok n ?t = gens_ok n s"
    by (simp_all add: n_opens_def gens_ok_def)
  obtain L where "L \<noteq> Failed" "lifecycle Down (reports d s) = Some L"
    using closing_facts(3) [OF inv(1)] False by blast
  then have "sock_inv has_ws tls (Suc n) d (doClose (v_closeSocket V) msg ?t)"
    using closing_facts [OF inv(1)] False n
    by (intro doClose_inv [of n _ d Failed])
       (auto simp: reports_t lifecycle_append life_step_error)
  with False show ?thesis
    by (simp add: errorConnection_def set_disconnecting_alone)
qed

text \<open>Starting a virtual operation adds it to the outstanding ones.\<close>

lemma core_inv_start:
  assumes same: "same_base s' (async_start op s)" and ws: "has_ws (gwsocket.more s')"
    and op: "\<not> is_resolve_op op" "\<not> tls \<longrightarrow> \<not> is_ssl_op op"
    and kind: "is_connect_op op = is_connect_op op'" "(ReadOp = op) = (ReadOp = op')"
      "is_write_op op = is_write_op op'" "(CloseOp = op) = (CloseOp = op')"
    and pre: "core_inv has_ws tls (op' # X) n d s"
  shows "core_inv has_ws tls X n d s'"
proof -
  note base = same_baseD [OF same, simplified]
  have cur: "current_ops s' = current_ops s @ [op]"
    using base current_ops_cong [of s' "async_start op s"] by simp
  have n: "n_of P X s' = n_of P (op' # X) s" if "P op = P op'" for P
    using that by (simp add: n_of_def cur)
  have "phase_ok X s'"
    using pre kind base by (simp add: core_inv_def phase_ok_def n)
  moreover have "lifecycle Down (reports d s') =
      Some (if state s' = STATE_DISCONNECTED \<or> n_of is_connect_op X s' > 0 then Down else Up)"
    using pre kind base reports_cong [of s' s d] by (simp add: core_inv_def n)
  moreover have "n_opens s' = n_opens s" "reports d s' = reports d s"
    using base op by (simp_all add: n_opens_def reports_def)
  moreover have "gens_ok n s'"
    using pre base by (auto simp: core_inv_def gens_ok_def)
  ultimately show ?thesis
    using pre ws op base by (simp add: core_inv_def n_disconnects_def)
qed

lemma core_inv_messageToWrite [simp]:
  "core_inv has_ws tls X n d (s\<lparr>messageToWrite := m\<rparr>) = core_inv has_ws tls X n d s"
  by (simp add: core_inv_def gens_ok_def phase_ok_def n_of_def reports_def n_opens_def n_disconnects_def)

lemma has_ws_if_reading:
  assumes "core_inv has_ws tls X n d s" "n_of ((=) ReadOp) X s = 1"
  shows "has_ws (gwsocket.more s)"
proof -
  have "ReadOp \<in> set (X @ current_ops s)"
    using assms(2) n_of_0 [of "(=) ReadOp" X s] by auto
  moreover have "\<forall>op\<in>set (X @ current_ops s). \<not> is_resolve_op op \<longrightarrow> has_ws (gwsocket.more s)"
    using assms(1) unfolding core_inv_def by blast
  ultimately show ?thesis by fastforce
qed

lemma checkWriting_inv:
  assumes inv: "core_inv has_ws tls [] n d s" and n: "n < 2 ^ 32 - 1"
    and safe: "n_of is_connect_op [] s = 0 \<or> state s \<noteq> STATE_DISCONNECT_REQUESTED \<or> writeQueue s = []"
  shows "\<exists>s'. checkWriting V spurious s = Some s' \<and> sock_inv has_ws tls (Suc n) d s'"
proof (cases "(state s = STATE_CONNECTED \<or> state s = STATE_DISCONNECT_REQUESTED)
              \<and> \<not> writing s \<and> writeQueue s \<noteq> []")
  case False
  then have "checkWriting V spurious s = Some s" "sock_inv has_ws tls n d s"
    using inv by (auto simp: checkWriting_def sock_inv_def idle_queue_ok_def split: list.split)
  then show ?thesis by (auto intro: sock_inv_mono)
next
  case True
  then obtain m rest where q: "writeQueue s = m # rest" by (cases "writeQueue s") auto
  have c: "n_of is_connect_op [] s = 0" "n_of ((=) ReadOp) [] s = 1" "n_of is_write_op [] s = 0"
    "n_of ((=) CloseOp) [] s = 0"
    using True inv safe by (auto simp: core_inv_def phase_ok_def)
  have ws: "has_ws (gwsocket.more s)"
    using has_ws_if_reading [OF inv c(2)] .
  define s1 where "s1 = s\<lparr>writing := True, writeQueue := rest\<rparr>"
  have s1: "core_inv has_ws tls [WriteOp a b] n d s1" for a b
    using True inv c ws q
    by (auto simp: core_inv_def phase_ok_def n_of_X s1_def gens_ok_def n_disconnects_def n_opens_def
        n_of_cong [of "s\<lparr>writing := True, writeQueue := rest\<rparr>" s] split: if_splits)
  show ?thesis
  proof (cases "out_type m")
    case OUT_MESSAGE
    obtain s' where s': "v_asyncWrite V (out_message m) (out_binary m) s1 = Some s'"
      using write_total [of s1] ws by (auto simp: s1_def)
    have "core_inv has_ws tls [] n d s'"
      by (rule core_inv_start [of s' "WriteOp (out_message m) (out_binary m)"
            "s1\<lparr>messageToWrite := messageToWrite s'\<rparr>" "WriteOp (out_message m) (out_binary m)"])
         (use write_base [OF s'] s1 in \<open>simp_all add: async_start_messageToWrite\<close>)
    moreover have "writing s'"
      using write_base [OF s'] by (auto dest: same_baseD(8) simp: s1_def)
    ultimately have "sock_inv has_ws tls (Suc n) d s'"
      by (auto simp: sock_inv_def idle_queue_ok_def intro: core_inv_mono)
    with True q s' OUT_MESSAGE show ?thesis
      by (simp add: checkWriting_def s1_def)
  next
    case OUT_DISCONNECT
    with inv q have req: "state s = STATE_DISCONNECT_REQUESTED"
      by (auto simp: core_inv_def n_disconnects_def split: if_splits)
    show ?thesis
    proof (cases spurious)
      case True
      have "checkWriting V spurious s = Some (snd (closeNow (v_closeSocket V) default_reason s1))"
        using req q OUT_DISCONNECT True \<open>_ \<and> \<not> writing s \<and> _\<close>
        by (simp add: checkWriting_def s1_def compare_exchange_weak_def)
      moreover have "sock_inv has_ws tls (Suc n) d
          (snd (closeNow (v_closeSocket V) default_reason s1))"
        by (rule closeNow_inv [OF s1 [of "[]" False] _ n]) simp
      ultimately show ?thesis by blast
    next
      case False
      define s2 where "s2 = s1\<lparr>state := STATE_DISCONNECTING\<rparr>"
      have "core_inv has_ws tls [CloseOp] n d s2"
        using req inv c ws q OUT_DISCONNECT
        by (auto simp: core_inv_def phase_ok_def n_of_X s1_def s2_def gens_ok_def n_disconnects_def
            n_opens_def n_of_cong [of "s\<lparr>writing := True, writeQueue := rest, state := STATE_DISCONNECTING\<rparr>" s])
      moreover obtain s' where s': "v_asyncCloseSocket V s2 = Some s'"
        using close_total [of s2] ws by (auto simp: s1_def s2_def)
      ultimately have "core_inv has_ws tls [] n d s'"
        using close_base [OF s'] by (intro core_inv_start [of s' CloseOp s2 CloseOp]) auto
      moreover have "state s' = STATE_DISCONNECTING"
        using close_base [OF s'] by (auto dest: same_baseD(5) simp: s2_def)
      ultimately have "sock_inv has_ws tls (Suc n) d s'"
        by (auto simp: sock_inv_def idle_queue_ok_def intro: core_inv_mono)
      moreover have "checkWriting V spurious s = Some s'"
        using s' req q OUT_DISCONNECT False \<open>_ \<and> \<not> writing s \<and> _\<close>
        by (simp add: checkWriting_def s1_def s2_def compare_exchange_weak_def)
      ultimately show ?thesis by blast
    qed
  qed
qed

subsection \<open>The handlers\<close>

abbreviation mid_inv :: "async_op \<Rightarrow> nat \<Rightarrow> GWSocketMessageIn list \<Rightarrow> 'a gwsocket_scheme \<Rightarrow> bool" where
  \<comment> \<open>while the handler of \<open>op\<close> runs\<close>
  "mid_inv op n d s \<equiv> core_inv has_ws tls [op] n d s \<and> idle_queue_ok [op] s"

lemma gw_write_inv:
  assumes inv: "sock_inv has_ws tls n d s" and n: "n < 2 ^ 32 - 1"
    and safe: "n_of is_connect_op [] s = 0 \<or> state s \<noteq> STATE_DISCONNECT_REQUESTED"
  shows "\<exists>s'. gw_write V spurious m b s = Some s' \<and> sock_inv has_ws tls (Suc n) d s'"
proof -
  let ?t = "s\<lparr>writeQueue := writeQueue s @ [\<lparr>out_type = OUT_MESSAGE, out_message = m, out_binary = b\<rparr>]\<rparr>"
  have nt: "n_of P X ?t = n_of P X s" for P X
    by (simp add: n_of_def)
  have "core_inv has_ws tls [] n d ?t"
    using inv by (simp add: sock_inv_def core_inv_def phase_ok_def gens_ok_def n_disconnects_def
        n_opens_def nt)
  then show ?thesis
    using checkWriting_inv [of n d ?t spurious] n safe by (auto simp: gw_write_def nt)
qed

lemma close_core:
  assumes inv: "sock_inv has_ws tls n d s" and True: "state s = STATE_CONNECTED \<or> state s = STATE_CONNECTING"
  shows "core_inv has_ws tls [] n d (s\<lparr>state := STATE_DISCONNECT_REQUESTED, writeQueue := writeQueue s @
               [\<lparr>out_type = OUT_DISCONNECT, out_message = [], out_binary = False\<rparr>]\<rparr>)" (is "core_inv _ _ _ _ _ ?t")
proof -
  have nt: "n_of P X ?t = n_of P X s" for P X
    by (simp add: n_of_def)
  have c: "core_inv has_ws tls [] n d s" using inv by (simp add: sock_inv_def)
  then have ph: "phase_ok [] ?t" using True by (auto simp: core_inv_def phase_ok_def nt)
  have disc: "n_disconnects ?t \<le> 1" using c True by (auto simp: core_inv_def n_disconnects_def)
  have con: "n_of is_connect_op [] s > 0 \<longleftrightarrow> state s = STATE_CONNECTING" using c True by (auto simp: core_inv_def phase_ok_def)
  have r: "reports d ?t = reports d s" "n_opens ?t = n_opens s" "current_ops ?t = current_ops s"
    "gens_ok n ?t = gens_ok n s" by (simp_all add: reports_def n_opens_def gens_ok_def)
  show ?thesis
    using c True unfolding core_inv_def r nt con by (intro conjI ph) (use disc in auto)
qed

lemma gw_close_inv:
  assumes inv: "sock_inv has_ws tls n d s" and n: "n < 2 ^ 32 - 1"
  shows "\<exists>ok s'. gw_close V spurious s = Some (ok, s') \<and> sock_inv has_ws tls (Suc n) d s'"
proof (cases "state s = STATE_CONNECTED \<or> state s = STATE_CONNECTING")
  case False
  then have "gw_close V spurious s = Some (False, s)"
    by (cases "state s") (auto simp: gw_close_def)
  with inv show ?thesis by (auto intro: sock_inv_mono)
next
  case True
  let ?t = "s\<lparr>state := STATE_DISCONNECT_REQUESTED, writeQueue := writeQueue s @
               [\<lparr>out_type = OUT_DISCONNECT, out_message = [], out_binary = False\<rparr>]\<rparr>"
  have nt: "n_of P X ?t = n_of P X s" for P X
    by (simp add: n_of_def)
  note core = close_core [OF inv True]
  show ?thesis
  proof (cases "state s = STATE_CONNECTING")
    case False
    then have "n_of is_connect_op [] ?t = 0"
      using inv True by (simp add: sock_inv_def core_inv_def phase_ok_def nt)
    then obtain s' where "checkWriting V spurious ?t = Some s'" "sock_inv has_ws tls (Suc n) d s'"
      using checkWriting_inv [OF core n, of spurious] by auto
    with True False show ?thesis
      by (auto simp: gw_close_def)
  next
    case connecting: True
    then have "n_of is_connect_op [] ?t = 1"
      using inv by (simp add: sock_inv_def core_inv_def phase_ok_def nt)
    then have "sock_inv has_ws tls (Suc n) d ?t"
      using core by (auto simp: sock_inv_def idle_queue_ok_def intro: core_inv_mono)
    with connecting show ?thesis by (auto simp: gw_close_def)
  qed
qed

lemma onWrite_inv:
  assumes inv: "mid_inv (WriteOp m b) n d s" and n: "n < 2 ^ 32 - 1"
  shows "\<exists>s'. onWrite V spurious ec s = Some s' \<and> sock_inv has_ws tls (Suc n) d s'"
proof (cases "ec_set ec")
  case True
  then show ?thesis
    using closeNow_inv [of "[WriteOp m b]" n d s] errorConnection_inv [of "[WriteOp m b]" n d s] inv n
    by (simp add: onWrite_def)
next
  case False
  let ?t = "s\<lparr>writing := False\<rparr>"
  have nt: "n_of P X ?t = n_of P X s" for P X
    by (simp add: n_of_def)
  have "core_inv has_ws tls [] n d ?t \<and> n_of is_connect_op [] ?t = 0"
    using inv by (cases "state s")
      (auto simp: core_inv_def phase_ok_def gens_ok_def n_disconnects_def n_opens_def nt n_of_X split: if_splits)
  then show ?thesis
    using False checkWriting_inv [of n d ?t spurious] n by (auto simp: onWrite_def)
qed

lemma onRead_inv:
  assumes inv: "mid_inv ReadOp n d s" and n: "n < 2 ^ 32 - 1"
  shows "\<exists>s'. onRead V ec s = Some s' \<and> sock_inv has_ws tls (Suc n) d s'"
proof (cases "ec_set ec")
  case True
  then show ?thesis
    using closeNow_inv [of "[ReadOp]" n d s] errorConnection_inv [of "[ReadOp]" n d s] inv n
    by (simp add: onRead_def Let_def)
next
  case False
  let ?t = "(put_in IN_MESSAGE (readBuffer s) s)\<lparr>readBuffer := []\<rparr>"
  have nt: "n_of P X ?t = n_of P X s" for P X
    by (simp add: n_of_def)
  have r: "n_of ((=) ReadOp) [ReadOp] s > 0"
    by (simp add: n_of_def)
  with inv have st: "state s \<noteq> STATE_DISCONNECTED" "n_of is_connect_op [ReadOp] s = 0"
    by (cases "state s"; auto simp: core_inv_def phase_ok_def)+
  have core: "core_inv has_ws tls [ReadOp] n d ?t"
    using inv st by (simp add: core_inv_def phase_ok_def gens_ok_def n_disconnects_def n_opens_def nt
        lifecycle_append)
  moreover have "has_ws (gwsocket.more ?t)"
    using inv by (simp add: core_inv_def)
  then obtain s' where s': "v_asyncRead V ?t = Some s'"
    using read_total [of ?t] by auto
  note base = read_base [OF s']
  have "core_inv has_ws tls [] n d s'"
    using core base by (intro core_inv_start [of s' ReadOp ?t ReadOp]) auto
  moreover have "idle_queue_ok [] s'"
    using inv base idle_queue_ok_same [of s' "async_start ReadOp ?t" "[]"]
    by (simp add: idle_queue_ok_def nt n_of_X)
  ultimately have "sock_inv has_ws tls (Suc n) d s'"
    by (auto simp: sock_inv_def intro: core_inv_mono)
  with False s' show ?thesis by (simp add: onRead_def Let_def)
qed

lemma handshakeCompleted_inv:
  assumes inv: "mid_inv op n d s" "is_connect_op op" and ws: "has_ws (gwsocket.more s)"
    and n: "n < 2 ^ 32 - 1"
  shows "\<exists>s'. handshakeCompleted V spurious ec s = Some s' \<and> sock_inv has_ws tls (Suc n) d s'"
proof -
  have op: "op \<noteq> ReadOp" "op \<noteq> CloseOp" "\<not> is_write_op op"
    using inv(2) by (cases op; simp)+
  have "n_of is_connect_op [op] s > 0"
    using inv(2) by (simp add: n_of_def)
  with inv(1) have st: "state s = STATE_CONNECTING \<or> state s = STATE_DISCONNECT_REQUESTED"
    and writing: "\<not> writing s"
    by (cases "state s"; auto simp: core_inv_def phase_ok_def)+
  have close: "sock_inv has_ws tls (Suc n) d (snd (closeNow (v_closeSocket V) r s))"
    "sock_inv has_ws tls (Suc n) d (snd (errorConnection (v_closeSocket V) r s))" for r
    using closeNow_inv [of "[op]" n d s] errorConnection_inv [of "[op]" n d s] inv n op by auto
  show ?thesis
  proof (cases "ec_set ec \<or> state s \<noteq> STATE_CONNECTING")
    case True
    have "s\<lparr>state := state s\<rparr> = s" by simp
    with True close show ?thesis
      by (auto simp: handshakeCompleted_def)
  next
    case False
    let ?t = "put_in IN_CONNECTED ''Connected'' (s\<lparr>state := STATE_CONNECTED\<rparr>)"
    have nt: "n_of P X ?t = n_of P X s" for P X
      by (simp add: n_of_def)
    have counts: "n_of is_connect_op [op] s = 1" "n_of ((=) ReadOp) [op] s = 0"
      "n_of is_write_op [op] s = 0" "n_of ((=) CloseOp) [op] s = 0"
      using inv(1) False by (simp_all add: core_inv_def phase_ok_def)
    then have core: "core_inv has_ws tls [ReadOp] n d ?t"
      using inv ws writing op False
      by (auto simp: core_inv_def phase_ok_def gens_ok_def n_disconnects_def n_opens_def nt n_of_X
          lifecycle_append split: if_splits)
    obtain s' where s': "v_asyncRead V ?t = Some s'"
      using read_total [of ?t] ws by auto
    note base = read_base [OF s']
    have core': "core_inv has_ws tls [] n d s'"
      using core base by (intro core_inv_start [of s' ReadOp ?t ReadOp]) auto
    moreover have "state s' = STATE_CONNECTED"
      using base by (auto dest: same_baseD(5))
    ultimately obtain s'' where "checkWriting V spurious s' = Some s''"
      "sock_inv has_ws tls (Suc n) d s''"
      using checkWriting_inv [OF core' n, of spurious] by auto
    with False s' show ?thesis by (auto simp: handshakeCompleted_def)
  qed
qed

lemma socketConnected_inv:
  assumes inv: "mid_inv ConnectOp n d s" and n: "n < 2 ^ 32 - 1"
  shows "\<exists>s'. socketConnected V ec s = Some s' \<and> sock_inv has_ws tls (Suc n) d s'"
proof (cases "ec_set ec")
  case True
  then show ?thesis
    using errorConnection_inv [of "[ConnectOp]" n d s] inv n by (simp add: socketConnected_def)
next
  case False
  let ?op = "if tls then SslHandshakeOp (hostWithPort s) (path s)
             else HandshakeOp (hostWithPort s) (path s)"
  have "has_ws (gwsocket.more s)"
    using inv by (simp add: core_inv_def)
  then obtain s' where s': "v_asyncHandshake V (hostWithPort s) (path s) s = Some s'"
    using handshake_total [of s] by auto
  note base = handshake_base [OF s']
  have core: "core_inv has_ws tls [] n d s'"
    using inv base by (intro core_inv_start [of s' ?op s ConnectOp]) auto
  moreover have "idle_queue_ok [] s'"
    using inv base idle_queue_ok_same [of s' "async_start ?op s" "[]"]
    by (simp add: idle_queue_ok_def n_of_X)
  ultimately have "sock_inv has_ws tls (Suc n) d s'"
    by (auto simp: sock_inv_def intro: core_inv_mono)
  with False s' show ?thesis by (simp add: socketConnected_def)
qed

lemma hostResolvedStep_inv:
  assumes inv: "mid_inv (ResolveOp h p) n d s" and n: "n < 2 ^ 32 - 1"
  shows "\<exists>s'. hostResolvedStep V params_ok ec s = Some s' \<and> sock_inv has_ws tls (Suc n) d s'"
proof (cases "ec_set ec")
  case True
  then show ?thesis
    using errorConnection_inv [of "[ResolveOp h p]" n d s] inv n by (simp add: hostResolvedStep_def)
next
  case False
  obtain s' where s': "v_asyncConnect V params_ok s = Some s'"
    using connect_total [of params_ok s] by auto
  have "n_of is_connect_op [ResolveOp h p] s > 0"
    by (simp add: n_of_def)
  with inv have one: "n_of is_connect_op [ResolveOp h p] s = 1" "n_of ((=) ReadOp) [ResolveOp h p] s = 0"
    "n_of is_write_op [ResolveOp h p] s = 0" "n_of ((=) CloseOp) [ResolveOp h p] s = 0"
    by (cases "state s"; simp add: core_inv_def phase_ok_def)+
  from connect_base [OF s'] have "sock_inv has_ws tls (Suc n) d s'"
  proof (elim disjE exE conjE)
    assume base: "has_ws (gwsocket.more s')" "same_base s' (async_start ConnectOp s)"
    have "core_inv has_ws tls [] n d s'"
      using inv base by (intro core_inv_start [of s' ConnectOp s "ResolveOp h p"]) auto
    moreover have "idle_queue_ok [] s'"
      using inv base idle_queue_ok_same [of s' "async_start ConnectOp s" "[]"]
      by (simp add: idle_queue_ok_def n_of_X)
    ultimately show ?thesis
      by (auto simp: sock_inv_def intro: core_inv_mono)
  next
    fix msg t
    assume t: "same_base t s" "s' = snd (errorConnection (v_closeSocket V) msg t)"
    have cur: "current_ops s = []"
    proof -
      have "\<not> is_connect_op op \<and> op \<noteq> ReadOp \<and> \<not> is_write_op op \<and> op \<noteq> CloseOp"
        if "op \<in> set (current_ops s)" for op
        using that one by (auto simp: n_of_X n_of_0)
      then have "\<not> op \<in> set (current_ops s)" for op
        by (cases op) force+
      then show ?thesis by (meson last_in_set)
    qed
    have "core_inv has_ws tls [ResolveOp h p] n d t"
      using inv same_baseD [OF t(1)] cur current_ops_cong [of t s]
      by (simp add: core_inv_def gens_ok_def phase_ok_def n_of_def reports_def n_opens_def
          n_disconnects_def)
    then show ?thesis
      using errorConnection_inv [of "[ResolveOp h p]" n d t msg] n t(2) by simp
  qed
  with False s' show ?thesis by (simp add: hostResolvedStep_def)
qed

lemma onDisconnected_inv:
  assumes inv: "mid_inv CloseOp n d s" and n: "n < 2 ^ 32 - 1"
  shows "sock_inv has_ws tls (Suc n) d (onDisconnected (v_closeSocket V) ec s)"
proof -
  have "n_of ((=) CloseOp) [CloseOp] s > 0"
    by (simp add: n_of_def)
  with inv have st: "state s \<noteq> STATE_DISCONNECTED"
    by (cases "state s") (auto simp: core_inv_def phase_ok_def)
  obtain L where "lifecycle Down (reports d s) = Some L"
    using closing_facts(3) [of "[CloseOp]" n d s] inv st by blast
  with closing_facts [of "[CloseOp]" n d s] inv st n show ?thesis
    unfolding onDisconnected_def by (intro doClose_inv [of n s d L]) auto
qed

lemma gw_open_inv:
  assumes inv: "sock_inv has_ws tls n d s" and n: "n < 2 ^ 32 - 1"
  shows "sock_inv has_ws tls (Suc n) d (gw_open clear s)"
proof (cases "state s = STATE_DISCONNECTED")
  case False
  with inv show ?thesis
    by (auto simp: gw_open_def intro: sock_inv_mono)
next
  case True
  define q where "q = (if clear then [] else writeQueue s)"
  define t where "t = s\<lparr>state := STATE_CONNECTING, writeQueue := q, generation := generation s + 1\<rparr>"
  let ?op = "ResolveOp (host s) (to_string (unat (port s)))"
  have eq: "gw_open clear s = async_start ?op t"
    using True by (simp add: gw_open_def t_def q_def clearQueue_def Let_def)
  have core: "core_inv has_ws tls [] n d s" using inv by (simp add: sock_inv_def)
  then have "gens_ok n s" by (simp add: core_inv_def)
  note g = next_generation [OF this n]
  have cur: "current_ops t = []"
    using g(2) current_ops_cong [of t "s\<lparr>generation := generation s + 1\<rparr>"] by (simp add: t_def)
  have gens: "gens_ok (Suc n) t"
    using g(1) by (auto simp: gens_ok_def t_def)
  have disc: "n_disconnects t = 0"
    using core True by (simp add: core_inv_def n_disconnects_def t_def q_def)
  show ?thesis
    unfolding eq sock_inv_def core_inv_def
  proof (intro conjI)
    let ?s = "async_start ?op t"
    have ops: "current_ops ?s = [?op]" using cur by simp
    have st: "state ?s = STATE_CONNECTING" "writing ?s = writing s" by (simp_all add: t_def async_start_def)
    show "gens_ok (Suc n) ?s" using gens by (simp add: gens_ok_def async_start_def)
    show "phase_ok [] ?s" using core True st ops by (simp add: core_inv_def phase_ok_def n_of_def)
    show "n_disconnects ?s \<le> (if state ?s = STATE_DISCONNECT_REQUESTED then 1 else 0)"
      using disc by (simp add: n_disconnects_def async_start_def)
    show "\<forall>op\<in>set ([] @ current_ops ?s). \<not> is_resolve_op op \<longrightarrow> has_ws (gwsocket.more ?s)" using ops by simp
    show "\<not> tls \<longrightarrow> (\<forall>op\<in>set [] \<union> snd ` set (pending ?s). \<not> is_ssl_op op)"
      using core by (auto simp: core_inv_def async_start_def t_def)
    have r: "reports d ?s = reports d s" by (simp add: reports_def async_start_def t_def)
    show "lifecycle Down (reports d ?s) = Some (if state ?s = STATE_DISCONNECTED \<or> n_of is_connect_op [] ?s > 0 then Down else Up)"
      unfolding r using core True st ops by (simp add: core_inv_def n_of_def)
    show "length (filter ((=) IN_DISCONNECTED) (reports d ?s)) + (if state ?s = STATE_DISCONNECTED then 0 else 1) = n_opens ?s"
      unfolding r using core True st by (simp add: core_inv_def n_opens_def async_start_def t_def)
    show "idle_queue_ok [] ?s" using st by (simp add: idle_queue_ok_def)
  qed
qed

end

subsection \<open>Steps and runs\<close>

text \<open>
  The one thing a client must not do: write after it has asked to close a connection that
  is still being established. \<open>checkWriting\<close> takes the state for an open connection then.
\<close>

definition client_ok :: "sock_event \<Rightarrow> 'a gwsocket_scheme \<Rightarrow> bool" where
  "client_ok e s =
     (case e of
        EvWrite _ _ _ \<Rightarrow> \<not> (state s = STATE_DISCONNECT_REQUESTED \<and> list_ex is_connect_op (current_ops s))
      | _ \<Rightarrow> True)"

inductive sock_reach ::
  "('a gwsocket_scheme, 'z) socket_class_scheme \<Rightarrow> 'a gwsocket_scheme \<Rightarrow> nat \<Rightarrow>
   'a gwsocket_scheme \<Rightarrow> GWSocketMessageIn list \<Rightarrow> bool"
  for K s0 where
    reach_init: "sock_reach K s0 0 s0 []"
  | reach_step: "sock_reach K s0 n s d \<Longrightarrow> client_ok e s \<Longrightarrow> sock_step K e s = Some (s', out) \<Longrightarrow>
                 sock_reach K s0 (Suc n) s' (d @ out)"

inductive_cases sock_reach_SucE: "sock_reach K s0 (Suc n) s d"
inductive_simps sock_reach_0: "sock_reach K s0 0 s d"

lemma removed_ops:
  assumes "i < length (pending s)" "pending s ! i = (g, op)"
  defines "t \<equiv> s\<lparr>pending := take i (pending s) @ drop (Suc i) (pending s)\<rparr>"
  shows "g = generation s \<Longrightarrow> n_of P [op] t = n_of P [] s"
    and "g = generation s \<Longrightarrow> set (op # current_ops t) = set (current_ops s)"
    and "g \<noteq> generation s \<Longrightarrow> current_ops t = current_ops s"
    and "set (pending s) = insert (g, op) (set (pending t))"
proof -
  have p: "pending s = take i (pending s) @ (g, op) # drop (Suc i) (pending s)"
    using assms by (metis id_take_nth_drop)
  have cs: "current_ops s = map snd (filter (\<lambda>(g, _). g = generation s)
      (take i (pending s) @ (g, op) # drop (Suc i) (pending s)))"
    using p by (simp add: current_ops_def)
  show "g = generation s \<Longrightarrow> n_of P [op] t = n_of P [] s"
    unfolding n_of_def cs by (simp add: t_def current_ops_def)
  show "g = generation s \<Longrightarrow> set (op # current_ops t) = set (current_ops s)"
    unfolding cs by (auto simp: t_def current_ops_def)
  show "g \<noteq> generation s \<Longrightarrow> current_ops t = current_ops s"
    unfolding cs by (simp add: t_def current_ops_def)
  have "set (pending s) = set (take i (pending s) @ (g, op) # drop (Suc i) (pending s))"
    using p by simp
  then show "set (pending s) = insert (g, op) (set (pending t))"
    by (auto simp: t_def)
qed

lemma sock_inv_removed:
  assumes inv: "sock_inv has_ws tls n d s" and i: "i < length (pending s)" "pending s ! i = (g, op)"
  defines "t \<equiv> s\<lparr>pending := take i (pending s) @ drop (Suc i) (pending s)\<rparr>"
  shows "g = generation s \<Longrightarrow> core_inv has_ws tls [op] n d t \<and> idle_queue_ok [op] t"
    and "g \<noteq> generation s \<Longrightarrow> sock_inv has_ws tls n d t"
proof -
  note rem = removed_ops [OF i, folded t_def]
  have fields: "state t = state s" "writing t = writing s" "writeQueue t = writeQueue s"
    "generation t = generation s" "reports d t = reports d s" "n_opens t = n_opens s"
    "n_disconnects t = n_disconnects s" "gwsocket.more t = gwsocket.more s"
    by (simp_all add: t_def reports_def n_opens_def n_disconnects_def)
  have gens: "gens_ok n t"
    using inv rem(4) fields by (auto simp: sock_inv_def core_inv_def gens_ok_def)
  show "core_inv has_ws tls [op] n d t \<and> idle_queue_ok [op] t" if "g = generation s"
  proof -
    have "phase_ok [op] t = phase_ok [] s" "idle_queue_ok [op] t = idle_queue_ok [] s"
      using that by (simp_all add: phase_ok_def idle_queue_ok_def rem fields)
    then show ?thesis
      using inv gens that rem(2) rem(4)
      by (auto simp: sock_inv_def core_inv_def fields rem(1))
  qed
  show "sock_inv has_ws tls n d t" if "g \<noteq> generation s"
  proof -
    have "n_of P [] t = n_of P [] s" for P
      using rem(3) that by (simp add: n_of_def)
    then show ?thesis
      using inv gens rem(3,4) that
      by (auto simp: sock_inv_def core_inv_def phase_ok_def idle_queue_ok_def fields)
  qed
qed

locale socket_rules = socket_class_contract V has_ws tls "handshakeCompleted V"
  for V :: "('a gwsocket_scheme, 'z) socket_class_scheme"
    and has_ws :: "'a \<Rightarrow> bool"
    and tls :: bool
begin

lemma run_handler_inv:
  assumes inv: "mid_inv op n d s" and n: "n < 2 ^ 32 - 1"
  shows "\<exists>s'. run_handler V spurious params_ok ec op s = Some s' \<and> sock_inv has_ws tls (Suc n) d s'"
proof (cases op)
  case (SslHandshakeOp h p)
  then have tls: tls and ws: "has_ws (gwsocket.more s)"
    using inv by (auto simp: core_inv_def)
  show ?thesis
  proof (cases "ec_set ec")
    case True
    have "c_sslHandshakeComplete V spurious ec h p s = handshakeCompleted V spurious ec s"
      by (rule tls_failed [OF tls True])
    then show ?thesis
      using handshakeCompleted_inv [OF inv _ ws n] SslHandshakeOp by (simp add: run_handler_def)
  next
    case False
    obtain s' where s': "c_sslHandshakeComplete V spurious ec h p s = Some s'"
      using tls_total [OF tls False ws] by blast
    note base = tls_done [OF tls False s']
    have "core_inv has_ws tls [] n d s'"
      using inv base SslHandshakeOp tls
      by (intro core_inv_start [of s' "HandshakeOp h p" s "SslHandshakeOp h p"]) auto
    moreover have "idle_queue_ok [] s'"
      using inv base SslHandshakeOp idle_queue_ok_same [of s' "async_start (HandshakeOp h p) s" "[]"]
      by (simp add: idle_queue_ok_def n_of_X)
    ultimately have "sock_inv has_ws tls (Suc n) d s'"
      by (auto simp: sock_inv_def intro: core_inv_mono)
    with s' SslHandshakeOp show ?thesis by (simp add: run_handler_def)
  qed
next
  case (HandshakeOp h p)
  then have "has_ws (gwsocket.more s)"
    using inv by (simp add: core_inv_def)
  with HandshakeOp show ?thesis
    using handshakeCompleted_inv [OF inv _ _ n] by (simp add: run_handler_def)
next
  case (ResolveOp h p)
  with inv n show ?thesis by (simp add: run_handler_def hostResolvedStep_inv)
next
  case ConnectOp
  with inv n show ?thesis by (simp add: run_handler_def socketConnected_inv)
next
  case ReadOp
  with inv n show ?thesis by (simp add: run_handler_def onRead_inv)
next
  case (WriteOp m b)
  with inv n show ?thesis by (simp add: run_handler_def onWrite_inv)
next
  case CloseOp
  with inv n show ?thesis by (simp add: run_handler_def onDisconnected_inv)
qed

lemma complete_inv:
  assumes inv: "sock_inv has_ws tls n d s" and n: "n < 2 ^ 32 - 1"
  shows "\<exists>s'. complete V i spurious params_ok ec s = Some s' \<and> sock_inv has_ws tls (Suc n) d s'"
proof (cases "i < length (pending s)")
  case False
  with inv show ?thesis by (auto simp: complete_def intro: sock_inv_mono)
next
  case True
  obtain g op where gop: "pending s ! i = (g, op)" by fastforce
  let ?t = "s\<lparr>pending := take i (pending s) @ drop (Suc i) (pending s)\<rparr>"
  note rem = sock_inv_removed [OF inv True gop]
  have eq: "complete V i spurious params_ok ec s =
      guardGeneration g (run_handler V spurious params_ok ec op) ?t"
    using True gop by (simp add: complete_def)
  show ?thesis
  proof (cases "g = generation s")
    case True
    have "\<exists>s'. run_handler V spurious params_ok ec op ?t = Some s' \<and> sock_inv has_ws tls (Suc n) d s'"
      by (rule run_handler_inv [OF rem(1) [OF True] n])
    with eq True show ?thesis by (simp add: guardGeneration_def)
  next
    case False
    have "sock_inv has_ws tls (Suc n) d ?t"
      using rem(2) [OF False] by (rule sock_inv_mono) simp
    with eq False show ?thesis by (auto simp: guardGeneration_def)
  qed
qed

lemma poll_inv:
  assumes "sock_inv has_ws tls n d s"
  shows "sock_inv has_ws tls n (d @ backingQueue (messageQueue s))
           (s\<lparr>messageQueue := snd (bq_clear (messageQueue s))\<rparr>)"
  using assms
  by (simp add: sock_inv_def core_inv_def phase_ok_def idle_queue_ok_def n_of_def gens_ok_def
      reports_def n_opens_def n_disconnects_def)

lemma update_inv:
  assumes "sock_inv has_ws tls n d s"
  shows "sock_inv has_ws tls n d (clearQueue s)"
    "sock_inv has_ws tls n d (setPerMessageDeflate v s)"
    "sock_inv has_ws tls n d (setDisableContextTakeover v s)"
    "sock_inv has_ws tls n d (s\<lparr>readBuffer := bytes\<rparr>)"
  using assms
  by (simp_all add: sock_inv_def core_inv_def phase_ok_def idle_queue_ok_def n_of_def gens_ok_def
      reports_def n_opens_def n_disconnects_def clearQueue_def setPerMessageDeflate_def
      setDisableContextTakeover_def)

lemma verify_inv:
  assumes inv: "sock_inv has_ws tls n d s" and n: "n < 2 ^ 32 - 1"
  shows "sock_inv has_ws tls (Suc n) d (snd (c_verifyCertificate V err s))"
proof -
  obtain ok s' where v: "c_verifyCertificate V err s = (ok, s')" by fastforce
  have "sock_inv has_ws tls (Suc n) d (snd (errorConnection (v_closeSocket V) msg s))" for msg
    using errorConnection_inv [of "[]" n d s msg] inv n by (simp add: sock_inv_def)
  with verify [OF v] inv show ?thesis
    by (auto simp: v intro: sock_inv_mono)
qed

lemma step_inv:
  assumes inv: "sock_inv has_ws tls n d s" and n: "n < 2 ^ 32 - 1" and ok: "client_ok e s"
  shows "\<exists>s' out. sock_step V e s = Some (s', out) \<and> sock_inv has_ws tls (Suc n) (d @ out) s'"
proof (cases e)
  case (EvOpen clear)
  then show ?thesis using gw_open_inv [OF inv n] by simp
next
  case (EvClose spurious)
  then show ?thesis using gw_close_inv [OF inv n, of spurious] by auto
next
  case EvCloseNow
  then show ?thesis
    using closeNow_inv [of "[]" n d s] inv n by (simp add: sock_inv_def)
next
  case (EvWrite spurious m b)
  then have "n_of is_connect_op [] s = 0 \<or> state s \<noteq> STATE_DISCONNECT_REQUESTED"
    using ok by (auto simp: client_ok_def n_of_0 list_ex_iff)
  then show ?thesis
    using gw_write_inv [OF inv n, of spurious m b] EvWrite by auto
next
  case EvClearQueue
  then show ?thesis using sock_inv_mono [OF update_inv(1) [OF inv]] by simp
next
  case (EvSetDeflate v)
  then show ?thesis using sock_inv_mono [OF update_inv(2) [OF inv]] by simp
next
  case (EvSetTakeover v)
  then show ?thesis using sock_inv_mono [OF update_inv(3) [OF inv]] by simp
next
  case EvPoll
  then show ?thesis using poll_inv [OF inv] by (auto simp: bq_clear_def intro: sock_inv_mono)
next
  case (EvComplete i spurious params_ok ec)
  then show ?thesis using complete_inv [OF inv n, of i spurious params_ok ec] by auto
next
  case (EvReceive bytes)
  then show ?thesis using sock_inv_mono [OF update_inv(4) [OF inv]] sock_inv_mono [OF inv] by simp
next
  case (EvPeerClosed reason)
  have "sock_inv has_ws tls n d (c_peerClosed V reason s)"
    using sock_inv_same [OF peerClosed_base peerClosed_ws] inv by simp
  with EvPeerClosed inv show ?thesis by (auto intro: sock_inv_mono)
next
  case (EvVerify err)
  then show ?thesis using verify_inv [OF inv n] inv by (auto intro: sock_inv_mono)
qed

lemma reach_inv:
  assumes "sock_reach V s0 n s d" "sock_inv has_ws tls 0 [] s0" "n < 2 ^ 32"
  shows "sock_inv has_ws tls n d s"
  using assms
proof (induction rule: sock_reach.induct)
  case reach_init
  then show ?case by simp
next
  case (reach_step n s d e s' out)
  then have "sock_inv has_ws tls n d s" "n < 2 ^ 32 - 1" by auto
  from step_inv [OF this reach_step.hyps(2)] reach_step.hyps(3) show ?case by auto
qed

end

text \<open>A socket starts in the invariant.\<close>

lemma new_sock_inv:
  assumes "gwsocket.truncate s = gwsocket.truncate (new_gwsocket h p pt)"
  shows "sock_inv has_ws tls 0 [] s"
proof -
  have "messageQueue s = empty_queue" "state s = STATE_DISCONNECTED" "writing s = False"
    "generation s = 0" "writeQueue s = []" "pending s = []" "started s = []"
    using assms by (simp_all add: new_gwsocket_def gwsocket.truncate_def)
  then show ?thesis
    by (simp add: sock_inv_def core_inv_def gens_ok_def phase_ok_def n_of_def current_ops_def
        reports_def n_opens_def n_disconnects_def idle_queue_ok_def empty_queue_def)
qed

text \<open>A run whose writes the client may make reaches its final state.\<close>

fun client_run ::
  "('a gwsocket_scheme, 'z) socket_class_scheme \<Rightarrow> sock_event list \<Rightarrow> 'a gwsocket_scheme \<Rightarrow> bool" where
  "client_run K [] s = True"
| "client_run K (e # es) s =
     (client_ok e s \<and>
      (case sock_step K e s of None \<Rightarrow> False | Some (s', _) \<Rightarrow> client_run K es s'))"

lemma sock_run_reach:
  assumes "sock_reach K s0 n s d" "client_run K es s" "sock_run K es s = Some (s', out)"
  shows "sock_reach K s0 (n + length es) s' (d @ out)"
  using assms
proof (induction es arbitrary: n s d out)
  case Nil
  then show ?case by simp
next
  case (Cons e es)
  from Cons.prems(2) obtain s1 o1 where s1: "sock_step K e s = Some (s1, o1)" "client_ok e s"
      "client_run K es s1"
    by (auto split: option.splits)
  with Cons.prems(3) obtain o2 where o2: "sock_run K es s1 = Some (s', o2)" "out = o1 @ o2"
    by (auto split: option.splits)
  have "sock_reach K s0 (Suc n) s1 (d @ o1)"
    using Cons.prems(1) s1 by (auto intro: sock_reach.reach_step)
  from Cons.IH [OF this s1(3) o2(1)] o2(2) show ?case by simp
qed

end
