(* ===== verification/WebSocket.thy ===== *)
theory WebSocket
  imports Socket_Inv
begin

text \<open>
  The two subclasses: \<open>WebSocket\<close> (WebSocket.h, WebSocket.cpp), a WebSocket stream over
  TCP, and \<open>SSLWebSocket\<close> (SSLWebSocket.h, SSLWebSocket.cpp), one over TLS. Each owns a
  heap-allocated Beast stream; \<open>None\<close> is the null pointer. The stream record keeps what the
  sources set on it and read from it.
\<close>

record ws_stream =
  client_enable :: bool
  client_no_context_takeover :: bool
  verify_peer :: bool
  tls_host :: "string option"
  decorated :: bool
  stream_binary :: bool
  lowest_open :: bool
  close_reason :: string

definition fresh_stream :: "'a gwsocket_scheme \<Rightarrow> ws_stream" where
  \<comment> \<open>a new stream with the permessage-deflate options of the socket\<close>
  "fresh_stream s =
     \<lparr>client_enable = perMessageDeflate s, client_no_context_takeover = disableContextTakeover s,
      verify_peer = False, tls_host = None, decorated = False, stream_binary = False,
      lowest_open = False, close_reason = []\<rparr>"

subsection \<open>The plain socket\<close>

record websocket = gwsocket +
  ws :: "ws_stream option"
  ws_messageToWrite :: string

definition new_websocket :: "string \<Rightarrow> 16 word \<Rightarrow> string \<Rightarrow> websocket" where
  "new_websocket h p pt =
     gwsocket.extend (new_gwsocket h p pt) \<lparr>ws = None, ws_messageToWrite = []\<rparr>"

definition ws_resetWS :: "websocket \<Rightarrow> websocket" where
  "ws_resetWS s = (let s = s\<lparr>ws := None\<rparr> in s\<lparr>ws := Some (fresh_stream s)\<rparr>)"

definition ws_getCloseReason :: "websocket \<Rightarrow> string" where
  "ws_getCloseReason s = (case ws s of None \<Rightarrow> [] | Some stream \<Rightarrow> close_reason stream)"

definition ws_asyncConnect :: "bool \<Rightarrow> websocket \<Rightarrow> websocket option" where
  "ws_asyncConnect params_ok s =
     (let s = ws_resetWS s in
      case ws s of None \<Rightarrow> None
      | Some stream \<Rightarrow>
          Some (async_start ConnectOp (s\<lparr>ws := Some (stream\<lparr>lowest_open := True\<rparr>)\<rparr>)))"

definition ws_asyncHandshake :: "string \<Rightarrow> string \<Rightarrow> websocket \<Rightarrow> websocket option" where
  "ws_asyncHandshake h p s =
     (case ws s of None \<Rightarrow> None
      | Some stream \<Rightarrow>
          Some (async_start (HandshakeOp h p) (s\<lparr>ws := Some (stream\<lparr>decorated := True\<rparr>)\<rparr>)))"

definition ws_asyncRead :: "websocket \<Rightarrow> websocket option" where
  "ws_asyncRead s = (case ws s of None \<Rightarrow> None | Some stream \<Rightarrow> Some (async_start ReadOp s))"

definition ws_asyncWrite :: "string \<Rightarrow> bool \<Rightarrow> websocket \<Rightarrow> websocket option" where
  "ws_asyncWrite message isBinary s =
     (let s = s\<lparr>ws_messageToWrite := message\<rparr> in
      case ws s of None \<Rightarrow> None
      | Some stream \<Rightarrow>
          Some (async_start (WriteOp (ws_messageToWrite s) isBinary)
                  (s\<lparr>ws := Some (stream\<lparr>stream_binary := isBinary\<rparr>)\<rparr>)))"

definition ws_closeSocket :: "websocket \<Rightarrow> websocket" where
  \<comment> \<open>that closing the lowest layer fails and throws is left out\<close>
  "ws_closeSocket s =
     (case ws s of None \<Rightarrow> s | Some stream \<Rightarrow> s\<lparr>ws := Some (stream\<lparr>lowest_open := False\<rparr>)\<rparr>)"

definition ws_asyncCloseSocket :: "websocket \<Rightarrow> websocket option" where
  "ws_asyncCloseSocket s = (case ws s of None \<Rightarrow> None | Some stream \<Rightarrow> Some (async_start CloseOp s))"

definition ws_peerClosed :: "string \<Rightarrow> websocket \<Rightarrow> websocket" where
  "ws_peerClosed reason s =
     (case ws s of None \<Rightarrow> s | Some stream \<Rightarrow> s\<lparr>ws := Some (stream\<lparr>close_reason := reason\<rparr>)\<rparr>)"

definition WebSocket_class :: "websocket socket_class" where
  "WebSocket_class =
     \<lparr>v_asyncHandshake = ws_asyncHandshake, v_asyncConnect = ws_asyncConnect,
      v_asyncRead = ws_asyncRead, v_asyncWrite = ws_asyncWrite,
      v_asyncCloseSocket = ws_asyncCloseSocket, v_closeSocket = ws_closeSocket,
      v_getCloseReason = ws_getCloseReason,
      c_sslHandshakeComplete = (\<lambda>spurious ec h p s. None),
      c_verifyCertificate = (\<lambda>err s. (True, s)),
      c_peerClosed = ws_peerClosed, c_connectFails = (\<lambda>s. None)\<rparr>"

subsection \<open>The TLS socket\<close>

record sslwebsocket = gwsocket +
  sws :: "ws_stream option"
  shouldVerifyCertificate :: bool

definition new_sslwebsocket :: "string \<Rightarrow> 16 word \<Rightarrow> string \<Rightarrow> sslwebsocket" where
  "new_sslwebsocket h p pt =
     gwsocket.extend (new_gwsocket h p pt) \<lparr>sws = None, shouldVerifyCertificate = True\<rparr>"

definition ssl_resetWS :: "sslwebsocket \<Rightarrow> sslwebsocket" where
  "ssl_resetWS s = (let s = s\<lparr>sws := None\<rparr> in s\<lparr>sws := Some (fresh_stream s)\<rparr>)"

definition ssl_getCloseReason :: "sslwebsocket \<Rightarrow> string" where
  "ssl_getCloseReason s = (case sws s of None \<Rightarrow> [] | Some stream \<Rightarrow> close_reason stream)"

definition ssl_closeSocket :: "sslwebsocket \<Rightarrow> sslwebsocket" where
  \<comment> \<open>that closing the lowest layer fails and throws is left out\<close>
  "ssl_closeSocket s =
     (case sws s of None \<Rightarrow> s | Some stream \<Rightarrow> s\<lparr>sws := Some (stream\<lparr>lowest_open := False\<rparr>)\<rparr>)"

text \<open>The switch of \<open>verifyCertificate\<close>: the text reported for each result but success.\<close>

fun verify_message :: "x509_error \<Rightarrow> string option" where
  "verify_message X509_V_ERR_UNABLE_TO_GET_ISSUER_CERT = Some ''Unable to get issuer certificate.''"
| "verify_message X509_V_ERR_CERT_NOT_YET_VALID = Some ''Provided certificate not valid yet.''"
| "verify_message X509_V_ERR_ERROR_IN_CERT_NOT_BEFORE_FIELD = Some ''Provided certificate not valid yet.''"
| "verify_message X509_V_ERR_CERT_REVOKED = Some ''Provided certificate expired or revoked.''"
| "verify_message X509_V_ERR_CERT_HAS_EXPIRED = Some ''Provided certificate expired or revoked.''"
| "verify_message X509_V_ERR_ERROR_IN_CERT_NOT_AFTER_FIELD = Some ''Provided certificate expired or revoked.''"
| "verify_message X509_V_ERR_INVALID_CA =
     Some ''Provided certificate had invalid details (Invalid CA, email, hostname, etc.)''"
| "verify_message X509_V_ERR_SUBJECT_ISSUER_MISMATCH =
     Some ''Provided certificate had invalid details (Invalid CA, email, hostname, etc.)''"
| "verify_message X509_V_ERR_AKID_SKID_MISMATCH =
     Some ''Provided certificate had invalid details (Invalid CA, email, hostname, etc.)''"
| "verify_message X509_V_ERR_AKID_ISSUER_SERIAL_MISMATCH =
     Some ''Provided certificate had invalid details (Invalid CA, email, hostname, etc.)''"
| "verify_message X509_V_ERR_HOSTNAME_MISMATCH =
     Some ''Provided certificate had invalid details (Invalid CA, email, hostname, etc.)''"
| "verify_message X509_V_ERR_EMAIL_MISMATCH =
     Some ''Provided certificate had invalid details (Invalid CA, email, hostname, etc.)''"
| "verify_message X509_V_ERR_IP_ADDRESS_MISMATCH =
     Some ''Provided certificate had invalid details (Invalid CA, email, hostname, etc.)''"
| "verify_message X509_V_ERR_CERT_UNTRUSTED = Some ''Provided certificate was self signed or untrusted.''"
| "verify_message X509_V_ERR_CERT_REJECTED = Some ''Provided certificate was self signed or untrusted.''"
| "verify_message X509_V_ERR_SELF_SIGNED_CERT_IN_CHAIN = Some ''Provided certificate was self signed or untrusted.''"
| "verify_message X509_V_ERR_UNABLE_TO_GET_CRL = Some ''Unable to load CRL.''"
| "verify_message X509_V_ERR_UNABLE_TO_GET_ISSUER_CERT_LOCALLY =
     Some ''Unable to find matching SSL root certificate locally.''"
| "verify_message X509_V_OK = None"
| "verify_message (X509_V_ERR_OTHER _) = Some ''certificate verify failed''"

definition verifyCertificate :: "x509_error \<Rightarrow> sslwebsocket \<Rightarrow> bool \<times> sslwebsocket" where
  "verifyCertificate err s =
     (case verify_message err of
        None \<Rightarrow> (True, s)
      | Some msg \<Rightarrow> (False, snd (errorConnection ssl_closeSocket msg s)))"

definition ssl_verify_callback :: "x509_error \<Rightarrow> sslwebsocket \<Rightarrow> bool \<times> sslwebsocket" where
  \<comment> \<open>the callback is installed only when the certificate is to be verified\<close>
  "ssl_verify_callback err s =
     (case sws s of
        None \<Rightarrow> (True, s)
      | Some stream \<Rightarrow> if verify_peer stream then verifyCertificate err s else (True, s))"

definition ssl_asyncConnect :: "bool \<Rightarrow> sslwebsocket \<Rightarrow> sslwebsocket option" where
  "ssl_asyncConnect params_ok s =
     (let s = ssl_resetWS s in
      case sws s of None \<Rightarrow> None
      | Some stream \<Rightarrow>
          let stream = stream\<lparr>verify_peer := shouldVerifyCertificate s\<rparr>;
              s = s\<lparr>sws := Some stream\<rparr> in
          if \<not> params_ok then
            Some (snd (errorConnection ssl_closeSocket ''Error setting SSL parameters'' s))
          else
            Some (async_start ConnectOp
                    (s\<lparr>sws := Some (stream\<lparr>tls_host := Some (host s), lowest_open := True\<rparr>)\<rparr>)))"

definition ssl_prepareConnect :: "sslwebsocket \<Rightarrow> sslwebsocket" where
  \<comment> \<open>what \<open>asyncConnect\<close> does before the two OpenSSL calls\<close>
  "ssl_prepareConnect s =
     (let s = ssl_resetWS s in
      s\<lparr>sws := map_option (\<lambda>stream. stream\<lparr>verify_peer := shouldVerifyCertificate s\<rparr>) (sws s)\<rparr>)"

definition ssl_asyncHandshake :: "string \<Rightarrow> string \<Rightarrow> sslwebsocket \<Rightarrow> sslwebsocket option" where
  "ssl_asyncHandshake h p s =
     (case sws s of None \<Rightarrow> None | Some stream \<Rightarrow> Some (async_start (SslHandshakeOp h p) s))"

definition ssl_asyncRead :: "sslwebsocket \<Rightarrow> sslwebsocket option" where
  "ssl_asyncRead s = (case sws s of None \<Rightarrow> None | Some stream \<Rightarrow> Some (async_start ReadOp s))"

definition ssl_asyncWrite :: "string \<Rightarrow> bool \<Rightarrow> sslwebsocket \<Rightarrow> sslwebsocket option" where
  "ssl_asyncWrite message isBinary s =
     (let s = s\<lparr>messageToWrite := message\<rparr> in
      case sws s of None \<Rightarrow> None
      | Some stream \<Rightarrow>
          Some (async_start (WriteOp (messageToWrite s) isBinary)
                  (s\<lparr>sws := Some (stream\<lparr>stream_binary := isBinary\<rparr>)\<rparr>)))"

definition ssl_asyncCloseSocket :: "sslwebsocket \<Rightarrow> sslwebsocket option" where
  "ssl_asyncCloseSocket s =
     (case sws s of None \<Rightarrow> None | Some stream \<Rightarrow> Some (async_start CloseOp s))"

definition ssl_peerClosed :: "string \<Rightarrow> sslwebsocket \<Rightarrow> sslwebsocket" where
  "ssl_peerClosed reason s =
     (case sws s of None \<Rightarrow> s | Some stream \<Rightarrow> s\<lparr>sws := Some (stream\<lparr>close_reason := reason\<rparr>)\<rparr>)"

definition SSLWebSocket_vtable :: "sslwebsocket vtable" where
  "SSLWebSocket_vtable =
     \<lparr>v_asyncHandshake = ssl_asyncHandshake, v_asyncConnect = ssl_asyncConnect,
      v_asyncRead = ssl_asyncRead, v_asyncWrite = ssl_asyncWrite,
      v_asyncCloseSocket = ssl_asyncCloseSocket, v_closeSocket = ssl_closeSocket,
      v_getCloseReason = ssl_getCloseReason\<rparr>"

definition sslHandshakeComplete ::
  "bool \<Rightarrow> error_code \<Rightarrow> string \<Rightarrow> string \<Rightarrow> sslwebsocket \<Rightarrow> sslwebsocket option" where
  "sslHandshakeComplete spurious ec h p s =
     (if \<not> ec_set ec then
        (case sws s of None \<Rightarrow> None
         | Some stream \<Rightarrow>
             Some (async_start (HandshakeOp h p) (s\<lparr>sws := Some (stream\<lparr>decorated := True\<rparr>)\<rparr>)))
      else handshakeCompleted SSLWebSocket_vtable spurious ec s)"

definition SSLWebSocket_class :: "sslwebsocket socket_class" where
  "SSLWebSocket_class =
     vtable.extend SSLWebSocket_vtable
       \<lparr>c_sslHandshakeComplete = sslHandshakeComplete, c_verifyCertificate = ssl_verify_callback,
        c_peerClosed = ssl_peerClosed, c_connectFails = (\<lambda>s. Some (ssl_prepareConnect s))\<rparr>"

subsection \<open>Both keep the contract\<close>

text \<open>Whether there is a stream, read off the part of the record that the subclass adds.\<close>

definition ws_present :: "\<lparr>ws :: ws_stream option, ws_messageToWrite :: string\<rparr> \<Rightarrow> bool" where
  "ws_present x = (ws (gwsocket.extend (new_gwsocket [] 0 []) x) \<noteq> None)"

definition sws_present :: "\<lparr>sws :: ws_stream option, shouldVerifyCertificate :: bool\<rparr> \<Rightarrow> bool" where
  "sws_present x = (sws (gwsocket.extend (new_gwsocket [] 0 []) x) \<noteq> None)"

lemma ws_present_more [simp]: "ws_present (gwsocket.more s) = (ws s \<noteq> None)"
  by (cases s) (simp add: ws_present_def gwsocket.extend_def)

lemma sws_present_more [simp]: "sws_present (gwsocket.more s) = (sws s \<noteq> None)"
  by (cases s) (simp add: sws_present_def gwsocket.extend_def)

lemmas plain_defs =
  ws_asyncHandshake_def ws_asyncConnect_def ws_asyncRead_def ws_asyncWrite_def
  ws_asyncCloseSocket_def ws_closeSocket_def ws_resetWS_def ws_peerClosed_def

lemmas tls_defs =
  ssl_asyncHandshake_def ssl_asyncConnect_def ssl_asyncRead_def ssl_asyncWrite_def
  ssl_asyncCloseSocket_def ssl_closeSocket_def ssl_resetWS_def ssl_peerClosed_def

lemma SSLWebSocket_class_vtable [simp]:
  "v_asyncHandshake SSLWebSocket_class = ssl_asyncHandshake"
  "v_asyncConnect SSLWebSocket_class = ssl_asyncConnect"
  "v_asyncRead SSLWebSocket_class = ssl_asyncRead"
  "v_asyncWrite SSLWebSocket_class = ssl_asyncWrite"
  "v_asyncCloseSocket SSLWebSocket_class = ssl_asyncCloseSocket"
  "v_closeSocket SSLWebSocket_class = ssl_closeSocket"
  "v_getCloseReason SSLWebSocket_class = ssl_getCloseReason"
  "c_sslHandshakeComplete SSLWebSocket_class = sslHandshakeComplete"
  "c_verifyCertificate SSLWebSocket_class = ssl_verify_callback"
  "c_peerClosed SSLWebSocket_class = ssl_peerClosed"
  "c_connectFails SSLWebSocket_class s = Some (ssl_prepareConnect s)"
  by (simp_all add: SSLWebSocket_class_def SSLWebSocket_vtable_def vtable.extend_def)

lemma WebSocket_class_vtable [simp]:
  "v_asyncHandshake WebSocket_class = ws_asyncHandshake"
  "v_asyncConnect WebSocket_class = ws_asyncConnect"
  "v_asyncRead WebSocket_class = ws_asyncRead"
  "v_asyncWrite WebSocket_class = ws_asyncWrite"
  "v_asyncCloseSocket WebSocket_class = ws_asyncCloseSocket"
  "v_closeSocket WebSocket_class = ws_closeSocket"
  "v_getCloseReason WebSocket_class = ws_getCloseReason"
  "c_sslHandshakeComplete WebSocket_class = (\<lambda>spurious ec h p s. None)"
  "c_verifyCertificate WebSocket_class = (\<lambda>err s. (True, s))"
  "c_peerClosed WebSocket_class = ws_peerClosed"
  "c_connectFails WebSocket_class s = None"
  by (simp_all add: WebSocket_class_def)

lemma verify_message_None: "verify_message err = None \<longleftrightarrow> err = X509_V_OK"
  by (cases err) simp_all

interpretation plain: socket_rules WebSocket_class ws_present False
  by unfold_locales
     (auto simp: plain_defs Let_def gwsocket.truncate_def async_start_def split: option.splits)

lemma handshakeCompleted_class:
  "handshakeCompleted SSLWebSocket_vtable spurious ec s =
   handshakeCompleted SSLWebSocket_class spurious ec s" if "ec_set ec"
  using that by (simp add: handshakeCompleted_def SSLWebSocket_vtable_def)

interpretation tls: socket_rules SSLWebSocket_class sws_present True
proof (unfold_locales, goal_cases)
  case (2 ok s s')
  show ?case
  proof (cases ok)
    case True
    with 2 show ?thesis
      by (auto simp: tls_defs Let_def gwsocket.truncate_def async_start_def)
  next
    case False
    have "same_base ((ssl_resetWS s)\<lparr>sws := x\<rparr>) s" for x
      by (simp add: tls_defs gwsocket.truncate_def)
    moreover have "sws (ssl_resetWS s) \<noteq> None"
      by (simp add: tls_defs)
    ultimately show ?thesis
      using 2 False by (fastforce simp: ssl_asyncConnect_def Let_def split: option.splits)
  qed
next
  case (17 err s accepted s')
  then show ?case
    by (auto simp: ssl_verify_callback_def verifyCertificate_def split: option.splits if_splits)
qed (auto simp: tls_defs sslHandshakeComplete_def handshakeCompleted_class Let_def
      gwsocket.truncate_def async_start_def split: option.splits)

end
