(* ===== verification/Channel.thy ===== *)
theory Channel
  imports WebSocket "HOL-Library.Sublist"
begin

text \<open>
  The outgoing side of a socket as a channel. The abstract channel has the messages handed
  to the network so far and the messages waiting; a step takes some messages from the
  front of the waiting ones and hands them over, or drops all that wait. The lemmas
  show that every step of a socket is such a step of its channel, so nothing is reordered,
  repeated or invented.
\<close>

subsection \<open>The abstract channel\<close>

record channel =
  sent :: "(string \<times> bool) list"
  waiting :: "(string \<times> bool) list"

inductive channel_step :: "(string \<times> bool) list \<Rightarrow> channel \<Rightarrow> channel \<Rightarrow> bool" where
  \<comment> \<open>the first argument: what is written in this step\<close>
  transmit: "c' = \<lparr>sent = sent c @ take k (waiting c @ new), waiting = drop k (waiting c @ new)\<rparr> \<Longrightarrow>
             channel_step new c c'"
| discard: "c' = \<lparr>sent = sent c @ take k (waiting c @ new), waiting = []\<rparr> \<Longrightarrow>
            channel_step new c c'"

lemma channel_step_subseq:
  assumes "channel_step new c c'" "subseq (sent c @ waiting c) w"
  shows "subseq (sent c' @ waiting c') (w @ new)"
  using assms(1)
proof cases
  case (transmit k)
  then have "sent c' @ waiting c' = (sent c @ waiting c) @ new"
    by (simp del: take_append drop_append)
  then show ?thesis
    using list_emb_append_mono [OF assms(2), of new new] by simp
next
  case (discard k)
  have "subseq (sent c @ take k (waiting c @ new)) ((sent c @ waiting c) @ new)"
    using list_emb_append_mono [OF subseq_order.refl prefix_imp_subseq [OF take_is_prefix],
        of "sent c" k "waiting c @ new"] by simp
  also have "subseq \<dots> (w @ new)"
    using assms(2) by (rule list_emb_append_mono) simp
  finally show ?thesis using discard by simp
qed

subsection \<open>The channel of a socket\<close>

fun written_by :: "async_op \<Rightarrow> (string \<times> bool) list" where
  "written_by (WriteOp m b) = [(m, b)]"
| "written_by _ = []"

definition queued :: "GWSocketMessageOut list \<Rightarrow> (string \<times> bool) list" where
  "queued q = map (\<lambda>m. (out_message m, out_binary m)) (filter (\<lambda>m. out_type m = OUT_MESSAGE) q)"

definition channel_of :: "'a gwsocket_scheme \<Rightarrow> channel" where
  "channel_of s = \<lparr>sent = concat (map written_by (started s)), waiting = queued (writeQueue s)\<rparr>"

fun written_in :: "sock_event \<Rightarrow> (string \<times> bool) list" where
  "written_in (EvWrite _ m b) = [(m, b)]"
| "written_in _ = []"

lemma channel_of_cong:
  "started s = started t \<Longrightarrow> writeQueue s = writeQueue t \<Longrightarrow> channel_of s = channel_of t"
  by (simp add: channel_of_def)

lemma channel_of_same: "same_base s t \<Longrightarrow> channel_of s = channel_of t"
  by (rule channel_of_cong) (erule same_baseD)+

lemma channel_of_start: "written_by op = [] \<Longrightarrow> channel_of (async_start op s) = channel_of s"
  by (simp add: channel_of_def async_start_def)

lemma channel_of_update [simp]:
  "channel_of (s\<lparr>messageQueue := q\<rparr>) = channel_of s" "channel_of (s\<lparr>state := st\<rparr>) = channel_of s"
  "channel_of (s\<lparr>writing := b\<rparr>) = channel_of s" "channel_of (s\<lparr>messageToWrite := m\<rparr>) = channel_of s"
  "channel_of (s\<lparr>readBuffer := m\<rparr>) = channel_of s" "channel_of (s\<lparr>generation := g\<rparr>) = channel_of s"
  "channel_of (s\<lparr>pending := p\<rparr>) = channel_of s" "channel_of (put_in ty m s) = channel_of s"
  "channel_of (s\<lparr>perMessageDeflate := b\<rparr>) = channel_of s"
  "channel_of (s\<lparr>disableContextTakeover := b\<rparr>) = channel_of s"
  by (simp_all add: channel_of_def put_in_def)

lemma channel_of_clear: "channel_of (s\<lparr>writeQueue := []\<rparr>) = (channel_of s)\<lparr>waiting := []\<rparr>"
  by (simp add: channel_of_def queued_def)

lemma channel_eqI: "sent c = xs \<Longrightarrow> waiting c = ys \<Longrightarrow> c = \<lparr>sent = xs, waiting = ys\<rparr>"
  by (cases c) simp

lemma keep: "channel_step [] c c"
  by (rule transmit [where k = 0], rule channel_eqI) simp_all

lemma drop_all: "channel_step [] c (c\<lparr>waiting := []\<rparr>)"
  by (rule discard [where k = 0], rule channel_eqI) simp_all

context transport begin

lemma doClose_channel:
  "channel_of (doClose (v_closeSocket V) r s) = (channel_of s)\<lparr>waiting := []\<rparr>"
  using channel_of_same [OF closeSocket_base [of "s\<lparr>generation := generation s + 1\<rparr>"]]
  by (simp add: doClose_def clearQueue_def channel_of_clear Let_def)

lemma closing_channel:
  "channel_step [] (channel_of s) (channel_of (snd (closeNow (v_closeSocket V) r s)))"
  "channel_step [] (channel_of s) (channel_of (snd (errorConnection (v_closeSocket V) r s)))"
  by (simp_all add: closeNow_def errorConnection_def set_disconnecting_alone doClose_channel keep drop_all)

lemma checkWriting_channel:
  assumes "checkWriting V spurious s = Some s'"
  shows "channel_step [] (channel_of s) (channel_of s')"
proof (cases "(state s = STATE_CONNECTED \<or> state s = STATE_DISCONNECT_REQUESTED)
              \<and> \<not> writing s \<and> writeQueue s \<noteq> []")
  case False
  with assms show ?thesis
    by (auto simp: checkWriting_def keep split: if_splits list.splits)
next
  case True
  then obtain m rest where q: "writeQueue s = m # rest" by (cases "writeQueue s") auto
  let ?t = "s\<lparr>writing := True, writeQueue := rest\<rparr>"
  show ?thesis
  proof (cases "out_type m")
    case OUT_MESSAGE
    then have "v_asyncWrite V (out_message m) (out_binary m) ?t = Some s'"
      using assms True q by (simp add: checkWriting_def)
    from channel_of_same [OF conjunct2 [OF write_base [OF this]]]
    have "channel_of s' = \<lparr>sent = sent (channel_of s) @ take 1 (waiting (channel_of s)),
        waiting = drop 1 (waiting (channel_of s))\<rparr>"
      using OUT_MESSAGE q by (simp add: channel_of_def async_start_def queued_def)
    then show ?thesis by (intro transmit [of _ _ 1]) simp
  next
    case OUT_DISCONNECT
    have ct: "channel_of ?t = channel_of s"
      using OUT_DISCONNECT q by (simp add: channel_of_def queued_def)
    show ?thesis
    proof (cases "spurious \<or> state s \<noteq> STATE_DISCONNECT_REQUESTED")
      case True
      then have "s' = snd (closeNow (v_closeSocket V) default_reason ?t)"
        using assms q OUT_DISCONNECT \<open>_ \<and> \<not> writing s \<and> _\<close>
        by (auto simp: checkWriting_def compare_exchange_weak_def)
      then show ?thesis using closing_channel(1) [of ?t default_reason] ct by simp
    next
      case False
      then have "v_asyncCloseSocket V (?t\<lparr>state := STATE_DISCONNECTING\<rparr>) = Some s'"
        using assms q OUT_DISCONNECT \<open>_ \<and> \<not> writing s \<and> _\<close>
        by (auto simp: checkWriting_def compare_exchange_weak_def)
      from channel_of_same [OF conjunct2 [OF close_base [OF this]]] ct show ?thesis
        by (simp add: channel_of_start keep)
    qed
  qed
qed

lemma gw_write_channel:
  assumes "gw_write V spurious m b s = Some s'"
  shows "channel_step [(m, b)] (channel_of s) (channel_of s')"
proof -
  let ?t = "s\<lparr>writeQueue := writeQueue s @ [\<lparr>out_type = OUT_MESSAGE, out_message = m, out_binary = b\<rparr>]\<rparr>"
  have "channel_step [] (channel_of ?t) (channel_of s')"
    using assms by (intro checkWriting_channel [of spurious]) (simp add: gw_write_def)
  moreover have "channel_of ?t = (channel_of s)\<lparr>waiting := waiting (channel_of s) @ [(m, b)]\<rparr>"
    by (simp add: channel_of_def queued_def)
  ultimately show ?thesis
    by (auto elim!: channel_step.cases intro: channel_step.intros)
qed

lemma gw_close_channel:
  assumes "gw_close V spurious s = Some (ok, s')"
  shows "channel_step [] (channel_of s) (channel_of s')"
proof -
  let ?t = "s\<lparr>state := STATE_DISCONNECT_REQUESTED, writeQueue := writeQueue s @
               [\<lparr>out_type = OUT_DISCONNECT, out_message = [], out_binary = False\<rparr>]\<rparr>"
  have ct: "channel_of ?t = channel_of s"
    by (simp add: channel_of_def queued_def)
  from assms consider "s' = s" | "s' = ?t" | "checkWriting V spurious ?t = Some s'"
    by (auto simp: gw_close_def Let_def split: if_splits)
  then show ?thesis
    using ct checkWriting_channel [of spurious ?t s'] by cases (auto simp: keep)
qed

lemma handler_channel:
  "onRead V ec s = Some s' \<Longrightarrow> channel_step [] (channel_of s) (channel_of s')"
  "onWrite V spurious ec s = Some s' \<Longrightarrow> channel_step [] (channel_of s) (channel_of s')"
  "hostResolvedStep V params_ok ec s = Some s' \<Longrightarrow> channel_step [] (channel_of s) (channel_of s')"
  "socketConnected V ec s = Some s' \<Longrightarrow> channel_step [] (channel_of s) (channel_of s')"
  "handshakeCompleted V spurious ec s = Some s' \<Longrightarrow> channel_step [] (channel_of s) (channel_of s')"
  "channel_step [] (channel_of s) (channel_of (onDisconnected (v_closeSocket V) ec s))"
proof -
  assume "onRead V ec s = Some s'"
  then show "channel_step [] (channel_of s) (channel_of s')"
    by (auto simp: onRead_def Let_def closing_channel channel_of_start keep split: if_splits
        dest!: read_base channel_of_same)
next
  assume "onWrite V spurious ec s = Some s'"
  then show "channel_step [] (channel_of s) (channel_of s')"
    by (auto simp: onWrite_def closing_channel split: if_splits dest!: checkWriting_channel)
next
  assume a: "hostResolvedStep V params_ok ec s = Some s'"
  show "channel_step [] (channel_of s) (channel_of s')"
  proof (cases "ec_set ec")
    case True
    with a show ?thesis by (auto simp: hostResolvedStep_def closing_channel)
  next
    case False
    with a have "v_asyncConnect V params_ok s = Some s'"
      by (simp add: hostResolvedStep_def)
    from connect_base [OF this] show ?thesis
    proof (elim disjE exE conjE)
      assume "same_base s' (async_start ConnectOp s)"
      then show ?thesis by (auto dest!: channel_of_same simp: channel_of_start keep)
    next
      fix msg t
      assume "same_base t s" "s' = snd (errorConnection (v_closeSocket V) msg t)"
      then show ?thesis
        using closing_channel(2) [of t msg] by (auto dest!: channel_of_same)
    qed
  qed
next
  assume "socketConnected V ec s = Some s'"
  then show "channel_step [] (channel_of s) (channel_of s')"
    by (auto simp: socketConnected_def closing_channel channel_of_start keep split: if_splits
        dest!: handshake_base channel_of_same)
next
  assume a: "handshakeCompleted V spurious ec s = Some s'"
  show "channel_step [] (channel_of s) (channel_of s')"
  proof (cases "ec_set ec \<or> state s \<noteq> STATE_CONNECTING")
    case True
    have "s\<lparr>state := state s\<rparr> = s" by simp
    with a True have "s' = snd (closeNow (v_closeSocket V) default_reason s)
        \<or> s' = snd (errorConnection (v_closeSocket V) (''Connection failed: '' @ ec_message ec) s)"
      by (simp add: handshakeCompleted_def split: if_splits)
    then show ?thesis by (auto simp: closing_channel)
  next
    case False
    let ?t = "put_in IN_CONNECTED ''Connected'' (s\<lparr>state := STATE_CONNECTED\<rparr>)"
    from a False obtain s1 where s1: "v_asyncRead V ?t = Some s1" "checkWriting V spurious s1 = Some s'"
      by (auto simp: handshakeCompleted_def)
    have "channel_of s1 = channel_of s"
      using channel_of_same [OF conjunct2 [OF read_base [OF s1(1)]]] by (simp add: channel_of_start)
    with checkWriting_channel [OF s1(2)] show ?thesis by simp
  qed
next
  show "channel_step [] (channel_of s) (channel_of (onDisconnected (v_closeSocket V) ec s))"
    by (simp add: onDisconnected_def doClose_channel drop_all)
qed

end

lemma channel_of_update_base [simp]:
  "channel_of (clearQueue s) = (channel_of s)\<lparr>waiting := []\<rparr>"
  "channel_of (setPerMessageDeflate v s) = channel_of s"
  "channel_of (setDisableContextTakeover v s) = channel_of s"
  by (simp_all add: clearQueue_def channel_of_clear setPerMessageDeflate_def setDisableContextTakeover_def)

lemma gw_open_channel: "channel_step [] (channel_of s) (channel_of (gw_open clear s))"
  by (auto simp: gw_open_def channel_of_start keep drop_all Let_def split: prod.splits)

context socket_rules begin

lemma run_handler_channel:
  assumes "run_handler V spurious params_ok ec op s = Some s'"
  shows "channel_step [] (channel_of s) (channel_of s')"
proof (cases op)
  case (SslHandshakeOp h p)
  with assms have c: "c_sslHandshakeComplete V spurious ec h p s = Some s'"
    by (simp add: run_handler_def)
  with no_tls have tls by fastforce
  show ?thesis
  proof (cases "ec_set ec")
    case True
    with tls_failed [OF \<open>tls\<close>] c show ?thesis by (auto intro: handler_channel)
  next
    case False
    from channel_of_same [OF conjunct2 [OF tls_done [OF \<open>tls\<close> False c]]] show ?thesis
      by (simp add: channel_of_start keep)
  qed
qed (use assms in \<open>auto simp: run_handler_def intro: handler_channel\<close>)

lemma complete_channel:
  assumes "complete V i spurious params_ok ec s = Some s'"
  shows "channel_step [] (channel_of s) (channel_of s')"
proof (cases "i < length (pending s)")
  case True
  obtain g op where gop: "pending s ! i = (g, op)" by fastforce
  let ?t = "s\<lparr>pending := take i (pending s) @ drop (Suc i) (pending s)\<rparr>"
  have "s' = ?t \<or> run_handler V spurious params_ok ec op ?t = Some s'"
    using assms True gop by (auto simp: complete_def guardGeneration_def split: if_splits)
  then show ?thesis
    using run_handler_channel [of spurious params_ok ec op ?t s'] by (auto simp: keep)
qed (use assms in \<open>simp add: complete_def keep\<close>)

lemma step_channel:
  assumes "sock_step V e s = Some (s', out)"
  shows "channel_step (written_in e) (channel_of s) (channel_of s')"
proof (cases e)
  case (EvVerify err)
  obtain ok t where v: "c_verifyCertificate V err s = (ok, t)" by fastforce
  have "channel_step [] (channel_of s) (channel_of t)"
    using verify [OF v] closing_channel(2) by (auto simp: keep)
  with assms EvVerify v show ?thesis by (auto simp: keep split: if_splits)
next
  case (EvPeerClosed reason)
  with assms channel_of_same [OF peerClosed_base [of reason s]] show ?thesis
    by (auto simp: keep split: if_splits)
qed (use assms in \<open>auto simp: keep drop_all gw_open_channel closing_channel bq_clear_def
       intro: gw_close_channel gw_write_channel complete_channel split: if_splits\<close>)

lemma run_channel:
  assumes "sock_run V es s = Some (s', out)" "subseq (sent (channel_of s) @ waiting (channel_of s)) w"
  shows "subseq (sent (channel_of s') @ waiting (channel_of s')) (w @ concat (map written_in es))"
  using assms
proof (induction es arbitrary: s w out)
  case Nil
  then show ?case by simp
next
  case (Cons e es)
  from Cons.prems(1) obtain s1 o1 o2 where s1: "sock_step V e s = Some (s1, o1)"
      "sock_run V es s1 = Some (s', o2)"
    by (auto split: option.splits)
  have "subseq (sent (channel_of s1) @ waiting (channel_of s1)) (w @ written_in e)"
    by (rule channel_step_subseq [OF step_channel [OF s1(1)] Cons.prems(2)])
  from Cons.IH [OF s1(2) this] show ?case by simp
qed

end

end
