(* ===== verification/Sockets.thy ===== *)
theory Sockets
  imports Channel
begin

text \<open>
  A socket as the module holds it: a pointer to the base class whose object is of one of
  the two subclasses. Calls on it dispatch on the subclass. The facts proved for every
  keeper of the contract are collected here for both.
\<close>

datatype socket_obj = Plain websocket | Tls sslwebsocket

fun base_of :: "socket_obj \<Rightarrow> gwsocket" where
  "base_of (Plain s) = gwsocket.truncate s"
| "base_of (Tls s) = gwsocket.truncate s"

definition make_socket :: "bool \<Rightarrow> bool \<Rightarrow> string \<Rightarrow> 16 word \<Rightarrow> string \<Rightarrow> socket_obj" where
  \<comment> \<open>the end of \<open>createWebSocketFromURL\<close>\<close>
  "make_socket useSSL verifyCertificate' h p pt =
     (if useSSL then Tls ((new_sslwebsocket h p pt)\<lparr>shouldVerifyCertificate := verifyCertificate'\<rparr>)
      else Plain (new_websocket h p pt))"

fun obj_step :: "sock_event \<Rightarrow> socket_obj \<Rightarrow> (socket_obj \<times> GWSocketMessageIn list) option" where
  "obj_step e (Plain s) = map_option (\<lambda>(s, out). (Plain s, out)) (sock_step WebSocket_class e s)"
| "obj_step e (Tls s) = map_option (\<lambda>(s, out). (Tls s, out)) (sock_step SSLWebSocket_class e s)"

fun obj_run :: "sock_event list \<Rightarrow> socket_obj \<Rightarrow> (socket_obj \<times> GWSocketMessageIn list) option" where
  "obj_run [] x = Some (x, [])"
| "obj_run (e # es) x =
     (case obj_step e x of
        None \<Rightarrow> None
      | Some (x, out) \<Rightarrow>
          (case obj_run es x of None \<Rightarrow> None | Some (x, out') \<Rightarrow> Some (x, out @ out')))"

fun obj_run_ok :: "sock_event list \<Rightarrow> socket_obj \<Rightarrow> bool" where
  \<comment> \<open>every write of the run is one the client may make\<close>
  "obj_run_ok [] x = True"
| "obj_run_ok (e # es) x =
     (client_ok e (base_of x) \<and> (case obj_step e x of None \<Rightarrow> True | Some (x', _) \<Rightarrow> obj_run_ok es x'))"

text \<open>
  The sockets a module can hold after \<open>n\<close> steps, with the events polled on the way.
\<close>

inductive obj_reach :: "nat \<Rightarrow> socket_obj \<Rightarrow> GWSocketMessageIn list \<Rightarrow> bool" where
  obj_init: "obj_reach 0 (make_socket tls v h p pt) []"
| obj_next: "obj_reach n x d \<Longrightarrow> client_ok e (base_of x) \<Longrightarrow> obj_step e x = Some (x', out) \<Longrightarrow>
             obj_reach (Suc n) x' (d @ out)"

inductive_cases obj_reach_SucE: "obj_reach (Suc n) x d"
inductive_simps obj_reach_0: "obj_reach 0 x d"

lemma obj_run_reach:
  assumes "obj_reach n x d" "obj_run_ok es x" "obj_run es x = Some (x', out)"
  shows "obj_reach (n + length es) x' (d @ out)"
  using assms
proof (induction es arbitrary: n x d out)
  case Nil
  then show ?case by simp
next
  case (Cons e es)
  from Cons.prems(3) obtain x1 o1 o2 where s: "obj_step e x = Some (x1, o1)"
      "obj_run es x1 = Some (x', o2)" "out = o1 @ o2"
    by (auto split: option.splits)
  have "obj_reach (Suc n) x1 (d @ o1)"
    using Cons.prems(1,2) s(1) by (auto intro: obj_reach.obj_next)
  from Cons.IH [OF this _ s(2)] Cons.prems(2) s(1,3) show ?case by simp
qed

fun obj_inv :: "nat \<Rightarrow> GWSocketMessageIn list \<Rightarrow> socket_obj \<Rightarrow> bool" where
  "obj_inv n d (Plain s) = sock_inv ws_present False n d s"
| "obj_inv n d (Tls s) = sock_inv sws_present True n d s"

lemma make_socket_inv: "obj_inv 0 [] (make_socket tls v h p pt)"
  by (auto simp: make_socket_def new_websocket_def new_sslwebsocket_def gwsocket.truncate_def
      gwsocket.extend_def intro: new_sock_inv)

lemma client_ok_truncate: "client_ok e (gwsocket.truncate s) = client_ok e s"
  by (simp add: client_ok_def current_ops_def gwsocket.truncate_def split: sock_event.split)

lemma obj_step_inv:
  assumes "obj_inv n d x" "n < 2 ^ 32 - 1" "client_ok e (base_of x)"
  shows "\<exists>x' out. obj_step e x = Some (x', out) \<and> obj_inv (Suc n) (d @ out) x'"
proof (cases x)
  case (Plain s)
  with assms plain.step_inv [of n d s e] show ?thesis by (auto simp: client_ok_truncate)
next
  case (Tls s)
  with assms tls.step_inv [of n d s e] show ?thesis by (auto simp: client_ok_truncate)
qed

lemma obj_reach_inv:
  assumes "obj_reach n x d" "n < 2 ^ 32"
  shows "obj_inv n d x"
  using assms
proof (induction rule: obj_reach.induct)
  case obj_init
  then show ?case by (simp add: make_socket_inv)
next
  case (obj_next n x d e x' out)
  then have "obj_inv n d x" "n < 2 ^ 32 - 1" by auto
  from obj_step_inv [OF this obj_next.hyps(2)] obj_next.hyps(3) show ?case by auto
qed

text \<open>What the invariant says of the base class.\<close>

lemma base_inv_truncate:
  "sock_inv has_ws tls n d s \<Longrightarrow> sock_inv (\<lambda>_. True) True n d (gwsocket.truncate s)"
  by (simp add: sock_inv_def core_inv_def gens_ok_def phase_ok_def n_of_def current_ops_def
      reports_def n_opens_def n_disconnects_def idle_queue_ok_def gwsocket.truncate_def)

lemma base_inv: "obj_inv n d x \<Longrightarrow> sock_inv (\<lambda>_. True) True n d (base_of x)"
  by (cases x) (auto intro: base_inv_truncate)

lemma reach_base_inv: "obj_reach n x d \<Longrightarrow> n < 2 ^ 32 \<Longrightarrow> sock_inv (\<lambda>_. True) True n d (base_of x)"
  by (intro base_inv obj_reach_inv)

lemma base_phase:
  assumes "sock_inv has_ws tls n d s"
  shows "phase (state s) (writing s) (n_of is_connect_op [] s) (n_of ((=) ReadOp) [] s)
           (n_of is_write_op [] s) (n_of ((=) CloseOp) [] s)"
  using assms by (simp add: sock_inv_def core_inv_def phase_ok_def)

lemma n_of_pos: "n_of P [] s > 0 \<longleftrightarrow> (\<exists>op\<in>set (current_ops s). P op)"
  by (auto simp: n_of_def filter_empty_conv)

lemma current_ops_empty:
  assumes "n_of is_connect_op [] s = 0" "n_of ((=) ReadOp) [] s = 0"
    "n_of is_write_op [] s = 0" "n_of ((=) CloseOp) [] s = 0"
  shows "current_ops s = []"
proof -
  have "\<not> op \<in> set (current_ops s)" for op
    using assms by (cases op) (force simp: n_of_0)+
  then show ?thesis by (meson last_in_set)
qed

subsection \<open>The channel of a socket object\<close>

lemma obj_run_channel:
  assumes "obj_run es x = Some (x', out)"
    "subseq (sent (channel_of (base_of x)) @ waiting (channel_of (base_of x))) w"
  shows "subseq (sent (channel_of (base_of x')) @ waiting (channel_of (base_of x')))
           (w @ concat (map written_in es))"
  using assms
proof (induction es arbitrary: x w out)
  case Nil
  then show ?case by simp
next
  case (Cons e es)
  have ct: "channel_of (gwsocket.truncate s) = channel_of s" for s :: "'a gwsocket_scheme"
    by (simp add: channel_of_def gwsocket.truncate_def)
  from Cons.prems(1) obtain x1 o1 o2 where s: "obj_step e x = Some (x1, o1)"
      "obj_run es x1 = Some (x', o2)"
    by (auto split: option.splits)
  have "channel_step (written_in e) (channel_of (base_of x)) (channel_of (base_of x1))"
    using s(1) by (cases x) (auto simp: ct intro: plain.step_channel tls.step_channel)
  from channel_step_subseq [OF this Cons.prems(2)] have
    "subseq (sent (channel_of (base_of x1)) @ waiting (channel_of (base_of x1))) (w @ written_in e)" .
  from Cons.IH [OF s(2) this] show ?case by simp
qed

end
