(* ===== verification/Socket_Runs.thy ===== *)
theory Socket_Runs
  imports Sockets
begin

text \<open>
  Runs of a socket: how the numbers of outstanding operations follow from the phase, what
  a completion does to the pending operations, how a closing socket drains its queue, and
  the concrete runs that the witnesses use.
\<close>

subsection \<open>Scripts\<close>

text \<open>Runs for the witnesses: connecting, with every operation completing at once.\<close>

definition done_ok :: error_code where
  "done_ok = \<lparr>ec_value = Success, ec_message = []\<rparr>"

definition aborted :: error_code where
  "aborted = \<lparr>ec_value = OperationAborted, ec_message = ''Operation canceled''\<rparr>"

definition connect_script :: "nat \<Rightarrow> sock_event list" where
  \<comment> \<open>\<open>i\<close> stale operations are still pending\<close>
  "connect_script i =
     [EvOpen True, EvComplete i False True done_ok, EvComplete i False True done_ok,
      EvComplete i False True done_ok]"

lemmas run_defs =
  make_socket_def new_websocket_def new_sslwebsocket_def new_gwsocket_def gwsocket.extend_def
  gw_open_def clearQueue_def async_start_def complete_def guardGeneration_def run_handler_def
  hostResolvedStep_def ec_set_def plain_defs tls_defs fresh_stream_def socketConnected_def
  handshakeCompleted_def checkWriting_def sslHandshakeComplete_def put_in_def put_def
  empty_queue_def hostWithPort_def gw_write_def gw_close_def closeNow_def doClose_def
  errorConnection_def set_disconnecting_alone onRead_def onWrite_def onDisconnected_def
  isConnectionClosedError_def bq_clear_def compare_exchange_weak_def current_ops_def client_ok_def
  setPerMessageDeflate_def setDisableContextTakeover_def default_reason_def gwsocket.truncate_def
  done_ok_def aborted_def connect_script_def

lemma run_reach:
  assumes "obj_run es (make_socket tls v h p pt) = Some (x, out)" "obj_run_ok es (make_socket tls v h p pt)"
  shows "obj_reach (length es) x out"
  using obj_run_reach [OF obj_reach.obj_init assms(2,1)] by simp

lemma connected_example:
  obtains x where "obj_reach 4 x []" "state (base_of x) = STATE_CONNECTED" "writing (base_of x) = False"
    "pending (base_of x) = [(1, ReadOp)]" "generation (base_of x) = 1" 
proof -
  obtain x where x: "obj_run (connect_script 0) (make_socket False True [] 80 []) = Some (x, [])"
      "state (base_of x) = STATE_CONNECTED" "writing (base_of x) = False"
      "pending (base_of x) = [(1, ReadOp)]" "generation (base_of x) = 1" 
    by (simp add: run_defs Let_def)
  moreover have "obj_run_ok (connect_script 0) (make_socket False True [] 80 [])"
    by (simp add: run_defs Let_def)
  ultimately have "obj_reach 4 x []"
    using run_reach [of "connect_script 0" False True "[]" 80 "[]" x "[]"]
    by (simp add: connect_script_def eval_nat_numeral)
  with x that show ?thesis by blast
qed

subsection \<open>Counting operations\<close>

lemma phase_bounds:
  "phase st wr c r w k \<Longrightarrow> r \<le> 1 \<and> w + k \<le> 1 \<and> (c > 0 \<longrightarrow> c + r + w + k = 1)"
  by (cases st) (auto split: if_splits)

lemma phase_idle: "phase st wr c r w k \<Longrightarrow> st = STATE_DISCONNECTED \<longleftrightarrow> c + r + w + k = 0"
  by (cases st) (auto split: if_splits)

lemma ops_by_kind:
  "length ops = length (filter is_connect_op ops) + length (filter ((=) ReadOp) ops)
     + length (filter is_write_op ops) + length (filter ((=) CloseOp) ops)"
proof (induction ops)
  case (Cons op ops)
  then show ?case by (cases op) auto
qed simp

lemma filter_pos: "length (filter P xs) > 0 \<longleftrightarrow> list_ex P xs"
  by (auto simp: list_ex_iff filter_empty_conv)

subsection \<open>Runs and steps\<close>

lemma obj_run_append:
  "obj_run (es @ fs) x =
     (case obj_run es x of None \<Rightarrow> None
      | Some (y, out) \<Rightarrow> map_option (\<lambda>(z, out'). (z, out @ out')) (obj_run fs y))"
proof (induction es arbitrary: x)
  case Nil
  show ?case by (cases "obj_run fs x") auto
qed (auto split: option.splits)

lemma obj_step_reach:
  assumes "obj_reach n x d" "n < 2 ^ 32 - 1" "client_ok e (base_of x)"
  obtains y out where "obj_step e x = Some (y, out)" "obj_reach (Suc n) y (d @ out)"
proof -
  from obj_step_inv [OF obj_reach_inv [OF assms(1)] assms(2,3)] assms(2)
  obtain y out where "obj_step e x = Some (y, out)" by auto
  with that obj_reach.obj_next [OF assms(1,3)] show ?thesis by blast
qed

lemma client_ok_complete [simp]: "client_ok (EvComplete i spurious params_ok ec) s"
  by (simp add: client_ok_def)

subsection \<open>Failing completions\<close>

context transport begin

lemma closing_pending [simp]:
  "pending (doClose (v_closeSocket V) r s) = pending s"
  "pending (snd (closeNow (v_closeSocket V) r s)) = pending s"
  "pending (snd (errorConnection (v_closeSocket V) r s)) = pending s"
proof -
  have dc: "pending (doClose (v_closeSocket V) r t) = pending t" for t
    using same_baseD(15) [OF closeSocket_base [of "t\<lparr>generation := generation t + 1\<rparr>"]]
    by (simp add: doClose_def clearQueue_def Let_def)
  then show "pending (doClose (v_closeSocket V) r s) = pending s"
    "pending (snd (closeNow (v_closeSocket V) r s)) = pending s"
    "pending (snd (errorConnection (v_closeSocket V) r s)) = pending s"
    by (simp_all add: closeNow_def errorConnection_def set_disconnecting_alone)
qed

end

context socket_rules begin

lemma failed_handler_pending:
  assumes "ec_set ec" "run_handler V spurious params_ok ec op s = Some s'"
  shows "pending s' = pending s"
proof (cases op)
  case (SslHandshakeOp h p)
  with assms(2) no_tls have tls by (fastforce simp: run_handler_def)
  with SslHandshakeOp assms tls_failed [of ec spurious h p s] show ?thesis
    by (auto simp: run_handler_def handshakeCompleted_def)
qed (use assms in \<open>auto simp: run_handler_def onRead_def onWrite_def onDisconnected_def
      handshakeCompleted_def socketConnected_def hostResolvedStep_def Let_def split: if_splits\<close>)

lemma failed_complete_pending:
  assumes "ec_set ec" "complete V i spurious params_ok ec s = Some s'" "i < length (pending s)"
  shows "pending s' = take i (pending s) @ drop (Suc i) (pending s)"
proof -
  obtain g op where "pending s ! i = (g, op)" by fastforce
  with assms failed_handler_pending [OF assms(1)] show ?thesis
    by (auto simp: complete_def guardGeneration_def Let_def split: if_splits)
qed

lemma stale_complete:
  assumes "current_ops s = []" "i < length (pending s)"
  shows "complete V i spurious params_ok ec s =
    Some (s\<lparr>pending := take i (pending s) @ drop (Suc i) (pending s)\<rparr>)"
proof -
  obtain g op where gop: "pending s ! i = (g, op)" by fastforce
  then have "(g, op) \<in> set (pending s)" using assms(2) nth_mem by metis
  with assms(1) have "g \<noteq> generation s" by (auto simp: current_ops_def filter_empty_conv)
  with gop assms(2) show ?thesis by (simp add: complete_def guardGeneration_def)
qed

end

lemma truncate_update_pending:
  "gwsocket.truncate (s\<lparr>pending := p\<rparr>) = (gwsocket.truncate s)\<lparr>pending := p\<rparr>"
  by (simp add: gwsocket.truncate_def)

lemma truncate_fields [simp]:
  "messageQueue (gwsocket.truncate s) = messageQueue s" "state (gwsocket.truncate s) = state s"
  "writing (gwsocket.truncate s) = writing s" "generation (gwsocket.truncate s) = generation s"
  "readBuffer (gwsocket.truncate s) = readBuffer s" "writeQueue (gwsocket.truncate s) = writeQueue s"
  "pending (gwsocket.truncate s) = pending s" "started (gwsocket.truncate s) = started s"
  "current_ops (gwsocket.truncate s) = current_ops s"
  by (simp_all add: gwsocket.truncate_def current_ops_def)

lemma reach_idle:
  assumes "obj_reach n x d" "n < 2 ^ 32"
  shows "state (base_of x) = STATE_DISCONNECTED \<longleftrightarrow> current_ops (base_of x) = []"
  using phase_idle [OF base_phase [OF reach_base_inv [OF assms]]]
  unfolding n_of_nil ops_by_kind [symmetric] by simp

lemma failed_step:
  assumes "obj_reach n x d" "n < 2 ^ 32 - 1" "ec_set ec" "i < length (pending (base_of x))"
  obtains y where "obj_step (EvComplete i spurious params_ok ec) x = Some (y, [])"
    "obj_reach (Suc n) y d" "Suc (length (pending (base_of y))) = length (pending (base_of x))"
proof -
  from obj_step_reach [OF assms(1,2) client_ok_complete]
  obtain y out where y: "obj_step (EvComplete i spurious params_ok ec) x = Some (y, out)"
    "obj_reach (Suc n) y (d @ out)" by blast
  from y(1) have "out = [] \<and> pending (base_of y) = take i (pending (base_of x)) @ drop (Suc i) (pending (base_of x))"
    using assms(4)
    by (cases x) (auto dest: plain.failed_complete_pending [OF assms(3)] tls.failed_complete_pending [OF assms(3)])
  with y that assms(4) show ?thesis by auto
qed

fun all_fail :: "sock_event list \<Rightarrow> nat \<Rightarrow> bool" where
  \<comment> \<open>the \<open>k\<close> operations that are outstanding complete with errors, in some order\<close>
  "all_fail [] k \<longleftrightarrow> k = 0"
| "all_fail (EvComplete i spurious params_ok ec # es) k \<longleftrightarrow> i < k \<and> ec_set ec \<and> all_fail es (k - 1)"
| "all_fail (_ # es) k \<longleftrightarrow> False"

lemma all_fail_Cons:
  "all_fail (e # es) k \<longleftrightarrow> (\<exists>i spurious params_ok ec. e = EvComplete i spurious params_ok ec
     \<and> i < k \<and> ec_set ec \<and> all_fail es (k - 1))"
  by (cases e) auto

lemma failed_run:
  assumes "obj_reach n x d" "n + length (pending (base_of x)) < 2 ^ 32" "all_fail es (length (pending (base_of x)))"
  shows "\<exists>y. obj_run es x = Some (y, []) \<and> obj_reach (n + length (pending (base_of x))) y d \<and> pending (base_of y) = []"
  using assms
proof (induction es arbitrary: n x)
  case (Cons e es)
  from Cons.prems(3) obtain i spurious params_ok ec where e: "e = EvComplete i spurious params_ok ec"
      "i < length (pending (base_of x))" "ec_set ec" "all_fail es (length (pending (base_of x)) - 1)"
    unfolding all_fail_Cons by blast
  have "n < 2 ^ 32 - 1" using Cons.prems(2) e(2) by linarith
  from failed_step [OF Cons.prems(1) this e(3,2)] obtain y where
    y: "obj_step e x = Some (y, [])" "obj_reach (Suc n) y d"
      "Suc (length (pending (base_of y))) = length (pending (base_of x))" unfolding e(1) by blast
  have len: "length (pending (base_of x)) - 1 = length (pending (base_of y))" using y(3) by simp
  have n: "Suc n + length (pending (base_of y)) = n + length (pending (base_of x))" using y(3) by simp
  then have "Suc n + length (pending (base_of y)) < 2 ^ 32" using Cons.prems(2) by simp
  from Cons.IH [OF y(2) this e(4) [unfolded len]] obtain z where
    "obj_run es y = Some (z, [])" "obj_reach (n + length (pending (base_of x))) z d" "pending (base_of z) = []"
    unfolding n by blast
  then show ?case using y(1) by auto
qed simp

lemma channel_of_truncate: "channel_of (gwsocket.truncate s) = channel_of s"
  by (simp add: channel_of_def gwsocket.truncate_def)

subsection \<open>Writing one message after the other\<close>

text \<open>What a completed write leaves, by what is next in the queue.\<close>

definition next_write :: "GWSocketMessageOut \<Rightarrow> GWSocketMessageOut list \<Rightarrow> 'a gwsocket_scheme \<Rightarrow>
    'a gwsocket_scheme \<Rightarrow> bool" where
  "next_write q rest s s' \<longleftrightarrow>
     writeQueue s' = rest \<and> generation s' = generation s \<and>
     (case out_type q of
        OUT_MESSAGE \<Rightarrow> state s' = state s \<and> writing s' \<and>
          started s' = started s @ [WriteOp (out_message q) (out_binary q)] \<and>
          (generation s', WriteOp (out_message q) (out_binary q)) \<in> set (pending s')
      | OUT_DISCONNECT \<Rightarrow> state s' = STATE_DISCONNECTING \<and> started s' = started s @ [CloseOp])"

context transport begin

lemma checkWriting_idle:
  "(state s \<noteq> STATE_CONNECTED \<and> state s \<noteq> STATE_DISCONNECT_REQUESTED) \<or> writing s \<or> writeQueue s = [] \<Longrightarrow>
   checkWriting V spurious s = Some s"
  by (auto simp: checkWriting_def split: list.split)

lemma checkWriting_message:
  assumes "state s = STATE_CONNECTED \<or> state s = STATE_DISCONNECT_REQUESTED" "\<not> writing s"
    "writeQueue s = m # rest" "out_type m = OUT_MESSAGE" "checkWriting V spurious s = Some s'"
  shows "same_base s' ((async_start (WriteOp (out_message m) (out_binary m))
           (s\<lparr>writing := True, writeQueue := rest\<rparr>))\<lparr>messageToWrite := messageToWrite s'\<rparr>)"
  using assms write_base [of "out_message m" "out_binary m" "s\<lparr>writing := True, writeQueue := rest\<rparr>" s']
  by (simp add: checkWriting_def)

lemma checkWriting_disconnect:
  assumes "state s = STATE_DISCONNECT_REQUESTED" "\<not> writing s"
    "writeQueue s = m # rest" "out_type m = OUT_DISCONNECT" "checkWriting V False s = Some s'"
  shows "same_base s'
    (async_start CloseOp (s\<lparr>writing := True, writeQueue := rest, state := STATE_DISCONNECTING\<rparr>))"
  using assms close_base [of "s\<lparr>writing := True, writeQueue := rest, state := STATE_DISCONNECTING\<rparr>" s']
  by (simp add: checkWriting_def compare_exchange_weak_def)

end

context socket_rules begin

lemma complete_current:
  assumes "i < length (pending s)" "pending s ! i = (generation s, op)"
  shows "complete V i spurious params_ok ec s =
    run_handler V spurious params_ok ec op (s\<lparr>pending := take i (pending s) @ drop (Suc i) (pending s)\<rparr>)"
  using assms by (simp add: complete_def guardGeneration_def)

lemma write_done:
  assumes "i < length (pending s)" "pending s ! i = (generation s, WriteOp m b)" "\<not> ec_set ec"
  shows "complete V i spurious params_ok ec s =
    checkWriting V spurious
      (s\<lparr>pending := take i (pending s) @ drop (Suc i) (pending s), writing := False\<rparr>)"
  using assms by (simp add: complete_current run_handler_def onWrite_def)

lemma checkWriting_next:
  assumes "state s = STATE_DISCONNECT_REQUESTED" "\<not> writing s" "writeQueue s = q # rest"
    "checkWriting V False s = Some s'"
  shows "next_write q rest s s'"
proof (cases "out_type q")
  case OUT_MESSAGE
  with same_baseD [OF checkWriting_message [OF disjI2 [OF assms(1)] assms(2,3) _ assms(4)]] show ?thesis
    by (simp add: next_write_def)
next
  case OUT_DISCONNECT
  with same_baseD [OF checkWriting_disconnect [OF assms(1-3) _ assms(4)]] show ?thesis
    by (simp add: next_write_def)
qed

lemma write_done_next:
  assumes "i < length (pending s)" "pending s ! i = (generation s, WriteOp m b)"
    "state s = STATE_DISCONNECT_REQUESTED" "writeQueue s = q # rest"
    "complete V i False True done_ok s = Some s'"
  shows "next_write q rest s s'"
proof -
  let ?t = "s\<lparr>pending := take i (pending s) @ drop (Suc i) (pending s), writing := False\<rparr>"
  have "checkWriting V False ?t = Some s'"
    using assms(5) write_done [OF assms(1,2), of done_ok False True] by (simp add: done_ok_def ec_set_def)
  then have "next_write q rest ?t s'"
    using assms(3,4) by (intro checkWriting_next) simp_all
  then show ?thesis by (auto simp: next_write_def split: GWSMessageOutType.splits)
qed

end

lemma next_write_truncate [simp]:
  "next_write q rest (gwsocket.truncate s) (gwsocket.truncate s') = next_write q rest s s'"
  by (simp add: next_write_def cong: GWSMessageOutType.case_cong)

abbreviation write_completed :: "nat \<Rightarrow> sock_event" where
  "write_completed i \<equiv> EvComplete i False True done_ok"

lemma obj_write_done:
  assumes "obj_reach n x d" "n < 2 ^ 32 - 1" "state (base_of x) = STATE_DISCONNECT_REQUESTED"
    "(generation (base_of x), WriteOp m b) \<in> set (pending (base_of x))" "writeQueue (base_of x) = q # rest"
  obtains i y where "obj_step (write_completed i) x = Some (y, [])" "obj_reach (Suc n) y d"
    "next_write q rest (base_of x) (base_of y)"
proof -
  from assms(4) obtain i where i: "i < length (pending (base_of x))"
      "pending (base_of x) ! i = (generation (base_of x), WriteOp m b)"
    by (auto simp: in_set_conv_nth)
  from obj_step_reach [OF assms(1,2) client_ok_complete]
  obtain y out where y: "obj_step (write_completed i) x = Some (y, out)" "obj_reach (Suc n) y (d @ out)"
    by blast
  from y(1) i assms(3,5) have "out = [] \<and> next_write q rest (base_of x) (base_of y)"
    by (cases x) (auto intro: plain.write_done_next tls.write_done_next)
  with y that show ?thesis by simp
qed

lemma obj_drain:
  assumes "obj_reach n x d" "n + length ms + 1 < 2 ^ 32"
    "state (base_of x) = STATE_DISCONNECT_REQUESTED"
    "(generation (base_of x), WriteOp m b) \<in> set (pending (base_of x))"
    "writeQueue (base_of x) = ms @ [c]" "out_type c = OUT_DISCONNECT"
    "\<forall>q\<in>set ms. out_type q = OUT_MESSAGE"
  shows "\<exists>is y. obj_run (map write_completed is) x = Some (y, []) \<and> state (base_of y) = STATE_DISCONNECTING
     \<and> writeQueue (base_of y) = []
     \<and> started (base_of y) = started (base_of x) @ map (\<lambda>q. WriteOp (out_message q) (out_binary q)) ms @ [CloseOp]"
  using assms
proof (induction ms arbitrary: n x m b)
  case Nil
  then have "n < 2 ^ 32 - 1" "writeQueue (base_of x) = c # []" by simp_all
  from obj_write_done [OF Nil.prems(1) this(1) Nil.prems(3,4) this(2)]
  obtain i y where "obj_step (write_completed i) x = Some (y, [])"
      "next_write c [] (base_of x) (base_of y)" by blast
  with Nil.prems(6) show ?case
    by (intro exI [of _ "[i]"] exI [of _ y]) (simp add: next_write_def)
next
  case (Cons q ms)
  then have "n < 2 ^ 32 - 1" "writeQueue (base_of x) = q # (ms @ [c])" by simp_all
  from obj_write_done [OF Cons.prems(1) this(1) Cons.prems(3,4) this(2)]
  obtain i y where y: "obj_step (write_completed i) x = Some (y, [])" "obj_reach (Suc n) y d"
      "next_write q (ms @ [c]) (base_of x) (base_of y)" by blast
  with Cons.prems(3,6,7) obtain "is" z where "obj_run (map write_completed is) y = Some (z, [])"
      "state (base_of z) = STATE_DISCONNECTING" "writeQueue (base_of z) = []"
      "started (base_of z) = started (base_of y) @ map (\<lambda>q. WriteOp (out_message q) (out_binary q)) ms @ [CloseOp]"
    using Cons.IH [OF y(2), of "out_message q" "out_binary q"] Cons.prems(2) by (auto simp: next_write_def)
  with y show ?case
    using Cons.prems(3,7) by (intro exI [of _ "i # is"] exI [of _ z]) (auto simp: next_write_def)
qed

context socket_rules begin

lemma close_connected:
  assumes "state s = STATE_CONNECTED"
  shows "gw_close V spurious s = map_option (\<lambda>s. (True, s)) (checkWriting V spurious
    (s\<lparr>state := STATE_DISCONNECT_REQUESTED, writeQueue := writeQueue s @
       [\<lparr>out_type = OUT_DISCONNECT, out_message = [], out_binary = False\<rparr>]\<rparr>))"
  using assms by (simp add: gw_close_def Let_def)

lemma close_connected_step:
  assumes "state s = STATE_CONNECTED" "writing s \<or> writeQueue s = []"
    "gw_close V False s = Some (ok, s')"
  shows "generation s' = generation s \<and>
    (if writing s then state s' = STATE_DISCONNECT_REQUESTED \<and> started s' = started s
         \<and> pending s' = pending s \<and> (\<exists>c. out_type c = OUT_DISCONNECT \<and> writeQueue s' = writeQueue s @ [c])
     else state s' = STATE_DISCONNECTING \<and> started s' = started s @ [CloseOp] \<and> writeQueue s' = [])"
proof (cases "writing s")
  case True
  with assms(3) show ?thesis by (auto simp: close_connected [OF assms(1)] checkWriting_idle)
next
  case False
  let ?c = "\<lparr>out_type = OUT_DISCONNECT, out_message = [], out_binary = False\<rparr>"
  from False assms(2,3) have "checkWriting V False
      (s\<lparr>state := STATE_DISCONNECT_REQUESTED, writeQueue := [?c]\<rparr>) = Some s'"
    by (simp add: close_connected [OF assms(1)])
  from checkWriting_next [OF _ _ _ this, of ?c "[]"] False show ?thesis
    by (simp add: next_write_def)
qed

end

lemma reach_no_disconnects:
  assumes "obj_reach n x d" "n < 2 ^ 32" "state (base_of x) \<noteq> STATE_DISCONNECT_REQUESTED"
  shows "\<forall>q\<in>set (writeQueue (base_of x)). out_type q = OUT_MESSAGE"
proof
  fix q assume "q \<in> set (writeQueue (base_of x))"
  moreover have "n_disconnects (base_of x) = 0"
    using reach_base_inv [OF assms(1,2)] assms(3) by (simp add: sock_inv_def core_inv_def)
  ultimately show "out_type q = OUT_MESSAGE"
    by (cases "out_type q") (auto simp: n_disconnects_def filter_empty_conv)
qed

lemma reach_writing:
  assumes "obj_reach n x d" "n < 2 ^ 32" "state (base_of x) = STATE_CONNECTED"
  shows "writing (base_of x) \<Longrightarrow> \<exists>m b. (generation (base_of x), WriteOp m b) \<in> set (pending (base_of x))"
    and "\<not> writing (base_of x) \<Longrightarrow> writeQueue (base_of x) = []"
proof -
  note inv = reach_base_inv [OF assms(1,2)]
  show "writeQueue (base_of x) = []" if "\<not> writing (base_of x)"
    using inv assms(3) that base_phase [OF inv] by (auto simp: sock_inv_def idle_queue_ok_def)
  assume "writing (base_of x)"
  then have "n_of is_write_op [] (base_of x) > 0"
    using base_phase [OF inv] assms(3) by simp
  then obtain op where op: "op \<in> set (current_ops (base_of x))" "is_write_op op"
    by (auto simp: n_of_pos)
  moreover from op(2) obtain m b where "op = WriteOp m b" by (cases op) auto
  ultimately have "(generation (base_of x), WriteOp m b) \<in> set (pending (base_of x))"
    by (auto simp: current_ops_def)
  then show "\<exists>m b. (generation (base_of x), WriteOp m b) \<in> set (pending (base_of x))"
    by blast
qed

lemma obj_close_step:
  assumes "obj_reach n x d" "n < 2 ^ 32 - 1" "state (base_of x) = STATE_CONNECTED"
  obtains y where "obj_step (EvClose False) x = Some (y, [])" "obj_reach (Suc n) y d"
    "generation (base_of y) = generation (base_of x)"
    "if writing (base_of x) then state (base_of y) = STATE_DISCONNECT_REQUESTED
         \<and> started (base_of y) = started (base_of x) \<and> pending (base_of y) = pending (base_of x)
         \<and> (\<exists>c. out_type c = OUT_DISCONNECT \<and> writeQueue (base_of y) = writeQueue (base_of x) @ [c])
     else state (base_of y) = STATE_DISCONNECTING \<and> started (base_of y) = started (base_of x) @ [CloseOp]
         \<and> writeQueue (base_of y) = []"
proof -
  have n: "n < 2 ^ 32" using assms(2) by simp
  from obj_step_reach [OF assms(1,2), of "EvClose False"] obtain y out where
    y: "obj_step (EvClose False) x = Some (y, out)" "obj_reach (Suc n) y (d @ out)"
    by (auto simp: client_ok_def)
  have "writing (base_of x) \<or> writeQueue (base_of x) = []"
    using reach_writing(2) [OF assms(1) n assms(3)] by blast
  with y(1) assms(3) have "out = [] \<and> generation (base_of y) = generation (base_of x) \<and>
    (if writing (base_of x) then state (base_of y) = STATE_DISCONNECT_REQUESTED
         \<and> started (base_of y) = started (base_of x) \<and> pending (base_of y) = pending (base_of x)
         \<and> (\<exists>c. out_type c = OUT_DISCONNECT \<and> writeQueue (base_of y) = writeQueue (base_of x) @ [c])
     else state (base_of y) = STATE_DISCONNECTING \<and> started (base_of y) = started (base_of x) @ [CloseOp]
         \<and> writeQueue (base_of y) = [])"
    by (cases x) (auto dest: plain.close_connected_step tls.close_connected_step)
  with y that show ?thesis by simp
qed

subsection \<open>Results of closing\<close>

context transport begin

lemma closing_result:
  fixes s :: "'a gwsocket_scheme" and r :: string
  assumes "state s \<noteq> STATE_DISCONNECTED" "state s \<noteq> STATE_DISCONNECTING"
  defines "t \<equiv> snd (closeNow (v_closeSocket V) r s)"
  shows "state t = STATE_DISCONNECTED" "writeQueue t = []" "started t = started s"
    "messageQueue t = put \<lparr>in_type = IN_DISCONNECTED, in_message = r\<rparr> (messageQueue s)"
  using assms(1,2) same_baseD [OF closeSocket_base [of "s\<lparr>state := STATE_DISCONNECTING, generation := generation s + 1\<rparr>"]]
  by (simp_all add: t_def closeNow_def set_disconnecting_alone doClose_def clearQueue_def put_in_def Let_def)

lemma error_result:
  fixes s :: "'a gwsocket_scheme" and r :: string
  assumes "state s \<noteq> STATE_DISCONNECTED" "state s \<noteq> STATE_DISCONNECTING"
  defines "t \<equiv> snd (errorConnection (v_closeSocket V) r s)"
  shows "state t = STATE_DISCONNECTED" "writeQueue t = []" "started t = started s"
    "generation t = generation s + 1"
    "messageQueue t = put \<lparr>in_type = IN_DISCONNECTED, in_message = r\<rparr>
        (put \<lparr>in_type = IN_ERROR, in_message = r\<rparr> (messageQueue s))"
  using assms(1,2) same_baseD [OF closeSocket_base [of "(put_in IN_ERROR r (s\<lparr>state := STATE_DISCONNECTING\<rparr>))
      \<lparr>generation := generation s + 1\<rparr>"]]
  by (simp_all add: t_def errorConnection_def set_disconnecting_alone doClose_def clearQueue_def put_in_def Let_def)

end

context socket_rules begin

lemma handshake_after_close:
  assumes "i < length (pending s)" "pending s ! i = (generation s, HandshakeOp h p)" "\<not> ec_set ec"
    "state s = STATE_DISCONNECT_REQUESTED"
  shows "complete V i spurious params_ok ec s = Some (snd (closeNow (v_closeSocket V) default_reason
           (s\<lparr>pending := take i (pending s) @ drop (Suc i) (pending s),
               state := STATE_DISCONNECT_REQUESTED\<rparr>)))"
  using assms
  by (simp add: complete_current run_handler_def handshakeCompleted_def compare_exchange_strong_def)

end

subsection \<open>Reading\<close>

context socket_rules begin

lemma read_done:
  assumes "i < length (pending s)" "pending s ! i = (generation s, ReadOp)" "\<not> ec_set ec"
    "complete V i spurious params_ok ec s = Some s'"
  shows "messageQueue s' = put \<lparr>in_type = IN_MESSAGE, in_message = readBuffer s\<rparr> (messageQueue s)"
    "readBuffer s' = []" "ReadOp \<in> set (current_ops s')" "state s' = state s"
proof -
  let ?t = "(put_in IN_MESSAGE (readBuffer s) (s\<lparr>pending := take i (pending s) @ drop (Suc i) (pending s)\<rparr>))
      \<lparr>readBuffer := []\<rparr>"
  have "v_asyncRead V ?t = Some s'"
    using assms by (simp add: complete_current run_handler_def onRead_def Let_def put_in_def)
  note base = same_baseD [OF conjunct2 [OF read_base [OF this]]]
  from base show "messageQueue s' = put \<lparr>in_type = IN_MESSAGE, in_message = readBuffer s\<rparr> (messageQueue s)"
    "readBuffer s' = []" "state s' = state s"
    by (simp_all add: put_in_def async_start_def)
  from base have "current_ops s' = current_ops (async_start ReadOp ?t)"
    by (intro current_ops_cong) simp_all
  then show "ReadOp \<in> set (current_ops s')" by simp
qed

end

lemma truncate_update_readBuffer:
  "gwsocket.truncate (s\<lparr>readBuffer := m\<rparr>) = (gwsocket.truncate s)\<lparr>readBuffer := m\<rparr>"
  by (simp add: gwsocket.truncate_def)

lemma receive_run:
  assumes "ReadOp \<in> set (current_ops (base_of x))"
  shows "\<exists>y. obj_run (map EvReceive bs) x = Some (y, []) \<and>
    base_of y = (base_of x)\<lparr>readBuffer := readBuffer (base_of x) @ concat bs\<rparr>"
  using assms
proof (induction bs arbitrary: x)
  case Nil
  then show ?case by simp
next
  case (Cons b bs)
  obtain y where y: "obj_step (EvReceive b) x = Some (y, [])"
      "base_of y = (base_of x)\<lparr>readBuffer := readBuffer (base_of x) @ b\<rparr>"
    using Cons.prems by (cases x) (simp_all add: truncate_update_readBuffer)
  with Cons.prems have "ReadOp \<in> set (current_ops (base_of y))" by simp
  from Cons.IH [OF this] y show ?case by auto
qed

lemma receive_run_ok: "obj_run_ok (map EvReceive bs) x"
  by (induction bs arbitrary: x) (auto simp: client_ok_def split: option.splits)

lemma obj_read_done:
  assumes "i < length (pending (base_of y))" "pending (base_of y) ! i = (generation (base_of y), ReadOp)"
    "\<not> ec_set ec" "obj_step (EvComplete i spurious params_ok ec) y = Some (z, out)"
  shows "out = [] \<and> messageQueue (base_of z) = put \<lparr>in_type = IN_MESSAGE, in_message = readBuffer (base_of y)\<rparr>
        (messageQueue (base_of y)) \<and> readBuffer (base_of z) = [] \<and> ReadOp \<in> set (current_ops (base_of z))"
proof (cases y)
  case (Plain s)
  with assms(4) obtain t where t: "complete WebSocket_class i spurious params_ok ec s = Some t"
      "z = Plain t" "out = []" by auto
  from plain.read_done [OF _ _ assms(3) t(1)] Plain assms(1,2) t(2,3) show ?thesis by simp
next
  case (Tls s)
  with assms(4) obtain t where t: "complete SSLWebSocket_class i spurious params_ok ec s = Some t"
      "z = Tls t" "out = []" by auto
  from tls.read_done [OF _ _ assms(3) t(1)] Tls assms(1,2) t(2,3) show ?thesis by simp
qed

subsection \<open>Generations\<close>

lemma open_close_step:
  assumes "state (base_of x) = STATE_DISCONNECTED"
  shows "\<exists>y. obj_run [EvOpen clear, EvCloseNow] x = Some (y, []) \<and> state (base_of y) = STATE_DISCONNECTED
    \<and> generation (base_of y) = generation (base_of x) + 2"
proof (cases x)
  case (Plain s)
  with assms show ?thesis
    by (cases "ws s") (simp_all add: run_defs Let_def)
next
  case (Tls s)
  with assms show ?thesis
    by (cases "sws s") (simp_all add: run_defs Let_def)
qed

lemma open_close_rounds:
  assumes "state (base_of x) = STATE_DISCONNECTED"
  shows "\<exists>y. obj_run (concat (replicate k [EvOpen clear, EvCloseNow])) x = Some (y, [])
    \<and> state (base_of y) = STATE_DISCONNECTED \<and> generation (base_of y) = generation (base_of x) + of_nat (2 * k)"
  using assms
proof (induction k arbitrary: x)
  case 0
  then show ?case by simp
next
  case (Suc k)
  from open_close_step [OF Suc.prems, of clear] obtain y where
    y: "obj_run [EvOpen clear, EvCloseNow] x = Some (y, [])" "state (base_of y) = STATE_DISCONNECTED"
      "generation (base_of y) = generation (base_of x) + 2" by blast
  from Suc.IH [OF y(2)] obtain z where z: "obj_run (concat (replicate k [EvOpen clear, EvCloseNow])) y = Some (z, [])"
      "state (base_of z) = STATE_DISCONNECTED" "generation (base_of z) = generation (base_of y) + of_nat (2 * k)"
    by blast
  have "obj_run ([EvOpen clear, EvCloseNow] @ concat (replicate k [EvOpen clear, EvCloseNow])) x = Some (z, [])"
    unfolding obj_run_append y(1) using z(1) by simp
  with y(3) z(2,3) show ?case by (intro exI [of _ z]) simp
qed

subsection \<open>Example sockets\<close>

lemma writing_example:
  obtains x where "obj_reach 6 x []" "state (base_of x) = STATE_CONNECTED" "generation (base_of x) = 1"
    "pending (base_of x) = [(1, ReadOp), (1, WriteOp ''one'' False)]"
    "writeQueue (base_of x) = [\<lparr>out_type = OUT_MESSAGE, out_message = ''two'', out_binary = True\<rparr>]"
proof -
  let ?es = "connect_script 0 @ [EvWrite False ''one'' False, EvWrite False ''two'' True]"
  obtain x where x: "obj_run ?es (make_socket False True [] 80 []) = Some (x, [])"
      "state (base_of x) = STATE_CONNECTED" "generation (base_of x) = 1"
      "pending (base_of x) = [(1, ReadOp), (1, WriteOp ''one'' False)]"
      "writeQueue (base_of x) = [\<lparr>out_type = OUT_MESSAGE, out_message = ''two'', out_binary = True\<rparr>]"
    by (simp add: run_defs Let_def)
  have "obj_run_ok ?es (make_socket False True [] 80 [])"
    by (simp add: run_defs Let_def)
  from run_reach [OF x(1) this] have "obj_reach 6 x []"
    by (simp add: connect_script_def eval_nat_numeral)
  with x that show ?thesis by blast
qed

lemma closed_early_example:
  obtains x where "obj_reach 2 x []" "state (base_of x) = STATE_DISCONNECTED"
    "pending (base_of x) = [(1, ResolveOp [] ''80'')]" "generation (base_of x) = 2"
proof -
  obtain x where x: "obj_run [EvOpen True, EvCloseNow] (make_socket False True [] 80 []) = Some (x, [])"
      "state (base_of x) = STATE_DISCONNECTED" "generation (base_of x) = 2"
      "pending (base_of x) = [(1, ResolveOp [] ''80'')]"
    by (simp add: run_defs Let_def to_string.simps)
  have "obj_run_ok [EvOpen True, EvCloseNow] (make_socket False True [] 80 [])"
    by (simp add: run_defs Let_def)
  from run_reach [OF x(1) this] have "obj_reach 2 x []" by (simp add: eval_nat_numeral)
  with x that show ?thesis by blast
qed

lemma tls_example:
  obtains s stream where "obj_reach 3 (Tls s) []" "pending s = [(1, SslHandshakeOp ''h:443'' ''/'')]"
    "generation s = 1" "sws s = Some stream" "verify_peer stream"
proof -
  let ?es = "[EvOpen True, EvComplete 0 False True done_ok, EvComplete 0 False True done_ok]"
  obtain s stream where s: "obj_run ?es (make_socket True True ''h'' 443 ''/'') = Some (Tls s, [])"
      "pending s = [(1, SslHandshakeOp ''h:443'' ''/'')]" "generation s = 1" "sws s = Some stream"
      "verify_peer stream"
    by (simp add: run_defs Let_def to_string.simps)
  have "obj_run_ok ?es (make_socket True True ''h'' 443 ''/'')"
    by (simp add: run_defs Let_def)
  from run_reach [OF s(1) this] have "obj_reach 3 (Tls s) []" by (simp add: eval_nat_numeral)
  with s that show ?thesis by blast
qed

end
