(* ===== verification/Socket_Props.thy ===== *)
theory Socket_Props
  imports Socket_Runs
begin

text \<open>
  The properties of a socket, over the sockets that a module can hold after any sequence
  of calls, completions and network events.
\<close>

text \<open>
  C2. No step that a client may make and no completion in any order ever dereferences the
  null stream pointer: from every socket reached, each such step has a result.
\<close>

theorem no_null_stream:
  assumes "obj_reach n x d" "n < 2 ^ 32 - 1" "client_ok e (base_of x)"
  shows "obj_step e x \<noteq> None"
  using obj_step_inv [OF obj_reach_inv [OF assms(1)] assms(2,3)] assms(2) by auto

theorem no_null_stream_witness:
  "\<exists>x. obj_reach 4 x [] \<and> state (base_of x) = STATE_CONNECTED
       \<and> obj_step (EvWrite False ''hi'' False) x \<noteq> None"
proof -
  obtain x where x: "obj_reach 4 x []" "state (base_of x) = STATE_CONNECTED"
    by (rule connected_example)
  have "obj_step (EvWrite False ''hi'' False) x \<noteq> None"
    by (rule no_null_stream [OF x(1)]) (simp_all add: client_ok_def x(2))
  with x show ?thesis by blast
qed




text \<open>
  C18. The events a client sees follow the life of a connection: connected once, then
  messages, at most one error directly before the disconnect, and the disconnect last; the
  current state of the socket is the one the events end in.
\<close>

theorem report_lifecycle:
  assumes "obj_reach n x d" "n < 2 ^ 32"
  shows "lifecycle Down (reports d (base_of x)) =
    Some (if state (base_of x) = STATE_DISCONNECTED \<or> list_ex is_connect_op (current_ops (base_of x))
          then Down else Up)"
  using reach_base_inv [OF assms] by (simp add: sock_inv_def core_inv_def n_of_pos list_ex_iff)

theorem disconnect_reported_once:
  assumes "obj_reach n x d" "n < 2 ^ 32"
  shows "length (filter ((=) IN_DISCONNECTED) (reports d (base_of x)))
         + (if state (base_of x) = STATE_DISCONNECTED then 0 else 1) = n_opens (base_of x)"
  using reach_base_inv [OF assms] by (simp add: sock_inv_def core_inv_def)

text \<open>
  C31. A connection never has two reads outstanding, two writes, or a write beside a
  close; while it is being established there is exactly one operation. This is for sockets
  reached in fewer than 2^32 steps of which none is a write between close() and the end of
  establishing a connection.
\<close>

theorem outstanding_operations:
  assumes "obj_reach n x d" "n < 2 ^ 32"
  shows "length (filter ((=) ReadOp) (current_ops (base_of x))) \<le> 1
    \<and> length (filter is_write_op (current_ops (base_of x)))
       + length (filter ((=) CloseOp) (current_ops (base_of x))) \<le> 1
    \<and> (list_ex is_connect_op (current_ops (base_of x)) \<longrightarrow> length (current_ops (base_of x)) = 1)"
  using phase_bounds [OF base_phase [OF reach_base_inv [OF assms]]]
  unfolding n_of_nil filter_pos ops_by_kind [of "current_ops (base_of x)"] .

text \<open>
  C21. For every socket reached in fewer than 2^32 steps of which none is a write between
  close() and the end of establishing a connection: it is disconnected exactly when no
  operation of its current connection is outstanding, so that no other state is ever left
  without a handler that will end it.
\<close>

theorem connection_never_idle:
  assumes "obj_reach n x d" "n < 2 ^ 32"
  shows "state (base_of x) = STATE_DISCONNECTED \<longleftrightarrow> current_ops (base_of x) = []"
  by (rule reach_idle [OF assms])

theorem no_message_stuck:
  assumes "obj_reach n x d" "n < 2 ^ 32" "state (base_of x) = STATE_CONNECTED"
    "writeQueue (base_of x) \<noteq> []"
  shows "\<exists>m b. WriteOp m b \<in> set (current_ops (base_of x))"
proof -
  from reach_writing [OF assms(1-3)] assms(4) obtain m b where
    "(generation (base_of x), WriteOp m b) \<in> set (pending (base_of x))" by blast
  then have "WriteOp m b \<in> set (current_ops (base_of x))" by (force simp: current_ops_def)
  then show ?thesis by blast
qed

text \<open>
  C5. Whatever a socket is doing, once all its outstanding operations complete with
  errors, in any order and with any errors, it is disconnected and nothing is outstanding
  (for sockets reached in fewer than 2^32 steps, these included).
\<close>

theorem failures_end_disconnected:
  assumes "obj_reach n x d" "n + length (pending (base_of x)) < 2 ^ 32" "all_fail es (length (pending (base_of x)))"
  shows "\<exists>y. obj_run es x = Some (y, []) \<and> state (base_of y) = STATE_DISCONNECTED \<and> pending (base_of y) = []"
proof -
  from failed_run [OF assms] obtain y where y: "obj_run es x = Some (y, [])"
      "obj_reach (n + length (pending (base_of x))) y d" "pending (base_of y) = []"
    by blast
  then have "current_ops (base_of y) = []" by (simp add: current_ops_def)
  with reach_idle [OF y(2) assms(2)] y show ?thesis by blast
qed

theorem late_completions_inert:
  assumes "obj_reach n x d" "n < 2 ^ 32" "state (base_of x) = STATE_DISCONNECTED"
    "i < length (pending (base_of x))"
  shows "\<exists>y. obj_step (EvComplete i spurious params_ok ec) x = Some (y, []) \<and>
    base_of y = (base_of x)\<lparr>pending := take i (pending (base_of x)) @ drop (Suc i) (pending (base_of x))\<rparr>"
proof -
  have "current_ops (base_of x) = []" using reach_idle [OF assms(1,2)] assms(3) by simp
  with assms(4) show ?thesis
    by (cases x) (auto simp: truncate_update_pending plain.stale_complete tls.stale_complete)
qed

text \<open>
  C6. In every run of a socket the messages handed to the network and then those still
  queued are a subsequence of the messages written: nothing is reordered, repeated or
  invented.
\<close>

theorem messages_in_order:
  assumes "obj_run es (make_socket tls v h p pt) = Some (x, out)"
  shows "subseq (concat (map written_by (started (base_of x))) @ queued (writeQueue (base_of x)))
           (concat (map written_in es))"
proof -
  have "subseq (sent (channel_of (base_of (make_socket tls v h p pt)))
      @ waiting (channel_of (base_of (make_socket tls v h p pt)))) []"
    by (simp add: channel_of_def queued_def make_socket_def new_websocket_def new_sslwebsocket_def
        new_gwsocket_def gwsocket.extend_def gwsocket.truncate_def)
  from obj_run_channel [OF assms this] show ?thesis by (simp add: channel_of_def)
qed

theorem step_refines_channel:
  assumes "obj_step e x = Some (y, out)"
  shows "channel_step (written_in e) (channel_of (base_of x)) (channel_of (base_of y))"
  using assms
  by (cases x) (auto simp: channel_of_truncate intro: plain.step_channel tls.step_channel)

text \<open>
  C7. close() on an established connection sends every queued message in order and then
  the close frame: some sequence of successful write completions leads to the state that
  waits for the peer.
\<close>

theorem graceful_close:
  assumes "obj_reach n x d" "n + length (writeQueue (base_of x)) + 2 < 2 ^ 32"
    "state (base_of x) = STATE_CONNECTED"
  shows "\<exists>is y. obj_run (EvClose False # map (\<lambda>i. EvComplete i False True done_ok) is) x = Some (y, [])
     \<and> state (base_of y) = STATE_DISCONNECTING \<and> writeQueue (base_of y) = []
     \<and> started (base_of y) = started (base_of x)
         @ map (\<lambda>q. WriteOp (out_message q) (out_binary q)) (writeQueue (base_of x)) @ [CloseOp]"
proof -
  have n: "n < 2 ^ 32 - 1" "n < 2 ^ 32" using assms(2) by simp_all
  from obj_close_step [OF assms(1) n(1) assms(3)] obtain y where
    y: "obj_step (EvClose False) x = Some (y, [])" "obj_reach (Suc n) y d"
      "generation (base_of y) = generation (base_of x)"
    and step: "if writing (base_of x) then state (base_of y) = STATE_DISCONNECT_REQUESTED
         \<and> started (base_of y) = started (base_of x) \<and> pending (base_of y) = pending (base_of x)
         \<and> (\<exists>c. out_type c = OUT_DISCONNECT \<and> writeQueue (base_of y) = writeQueue (base_of x) @ [c])
       else state (base_of y) = STATE_DISCONNECTING \<and> started (base_of y) = started (base_of x) @ [CloseOp]
         \<and> writeQueue (base_of y) = []" .
  show ?thesis
  proof (cases "writing (base_of x)")
    case True
    with step obtain c where c: "out_type c = OUT_DISCONNECT"
        "writeQueue (base_of y) = writeQueue (base_of x) @ [c]" by auto
    from reach_writing(1) [OF assms(1) n(2) assms(3) True] step y(3) True obtain m b where
      "(generation (base_of y), WriteOp m b) \<in> set (pending (base_of y))" by auto
    from obj_drain [OF y(2) _ _ this c(2,1)] step True assms(2)
      reach_no_disconnects [OF assms(1) n(2)] assms(3)
    obtain "is" z where "obj_run (map write_completed is) y = Some (z, [])"
      "state (base_of z) = STATE_DISCONNECTING" "writeQueue (base_of z) = []"
      "started (base_of z) = started (base_of x)
         @ map (\<lambda>q. WriteOp (out_message q) (out_binary q)) (writeQueue (base_of x)) @ [CloseOp]"
      by auto
    with y(1) show ?thesis by (intro exI [of _ "is"] exI [of _ z]) simp
  next
    case False
    with step reach_writing(2) [OF assms(1) n(2) assms(3)] y(1) show ?thesis
      by (intro exI [of _ "[]"] exI [of _ y]) simp
  qed
qed

theorem cleared_close_request_lost:
  assumes "state (base_of x) = STATE_DISCONNECT_REQUESTED" "i < length (pending (base_of x))"
    "pending (base_of x) ! i = (generation (base_of x), WriteOp m b)" "\<not> ec_set ec"
  shows "\<exists>y. obj_run [EvClearQueue, EvComplete i spurious params_ok ec] x = Some (y, [])
     \<and> state (base_of y) = STATE_DISCONNECT_REQUESTED \<and> writeQueue (base_of y) = []
     \<and> \<not> writing (base_of y) \<and> started (base_of y) = started (base_of x)
     \<and> obj_step (EvClose spurious) y = Some (y, [])"
proof (cases x)
  case (Plain s)
  with assms show ?thesis
    by (simp add: clearQueue_def plain.write_done plain.checkWriting_idle gw_close_def)
next
  case (Tls s)
  with assms show ?thesis
    by (simp add: clearQueue_def tls.write_done tls.checkWriting_idle gw_close_def)
qed

theorem close_while_connecting_drops:
  assumes "state (base_of x) = STATE_CONNECTING" "i < length (pending (base_of x))"
    "pending (base_of x) ! i = (generation (base_of x), HandshakeOp h p)" "\<not> ec_set ec"
  shows "\<exists>y. obj_run [EvClose spurious, EvComplete i spurious' params_ok ec] x = Some (y, [])
     \<and> state (base_of y) = STATE_DISCONNECTED \<and> writeQueue (base_of y) = []
     \<and> started (base_of y) = started (base_of x)"
proof (cases x)
  case (Plain s)
  with assms show ?thesis
    by (simp add: gw_close_def Let_def plain.handshake_after_close plain.closing_result [simplified])
next
  case (Tls s)
  with assms show ?thesis
    by (simp add: gw_close_def Let_def tls.handshake_after_close tls.closing_result [simplified])
qed

theorem message_reassembled:
  assumes "obj_reach n x d" "n + length bs + 1 < 2 ^ 32" "i < length (pending (base_of x))"
    "pending (base_of x) ! i = (generation (base_of x), ReadOp)" "\<not> ec_set ec"
  shows "\<exists>y. obj_run (map EvReceive bs @ [EvComplete i spurious params_ok ec]) x = Some (y, [])
     \<and> messageQueue (base_of y) = put \<lparr>in_type = IN_MESSAGE, in_message = readBuffer (base_of x) @ concat bs\<rparr>
           (messageQueue (base_of x))
     \<and> readBuffer (base_of y) = [] \<and> ReadOp \<in> set (current_ops (base_of y))"
proof -
  have "(generation (base_of x), ReadOp) \<in> set (pending (base_of x))"
    using assms(3,4) nth_mem by metis
  then have "ReadOp \<in> set (current_ops (base_of x))"
    by (force simp: current_ops_def)
  from receive_run [OF this, of bs] obtain y where
    y: "obj_run (map EvReceive bs) x = Some (y, [])"
      "base_of y = (base_of x)\<lparr>readBuffer := readBuffer (base_of x) @ concat bs\<rparr>" by blast
  have "obj_reach (n + length bs) y d"
    using obj_run_reach [OF assms(1) receive_run_ok y(1)] by simp
  moreover have "n + length bs < 2 ^ 32 - 1" using assms(2) by simp
  ultimately obtain z out where z: "obj_step (EvComplete i spurious params_ok ec) y = Some (z, out)"
    by (rule obj_step_reach [OF _ _ client_ok_complete])
  have "out = [] \<and>
      messageQueue (base_of z) = put \<lparr>in_type = IN_MESSAGE, in_message = readBuffer (base_of y)\<rparr>
        (messageQueue (base_of y)) \<and> readBuffer (base_of z) = [] \<and> ReadOp \<in> set (current_ops (base_of z))"
    using obj_read_done [OF _ _ assms(5) z] assms(3,4) y(2) by simp
  with y z show ?thesis by (simp add: obj_run_append)
qed

theorem stale_bytes_in_next_connection:
  "\<exists>x. obj_run (connect_script 0 @ [EvReceive part, EvCloseNow]
         @ connect_script 1 @ [EvReceive message, EvComplete 1 False True done_ok, EvPoll])
       (make_socket False v h p pt)
     = Some (x, [\<lparr>in_type = IN_CONNECTED, in_message = ''Connected''\<rparr>,
                 \<lparr>in_type = IN_DISCONNECTED, in_message = default_reason\<rparr>,
                 \<lparr>in_type = IN_CONNECTED, in_message = ''Connected''\<rparr>,
                 \<lparr>in_type = IN_MESSAGE, in_message = part @ message\<rparr>])"
  by (simp add: run_defs Let_def)

text \<open>
  C35. When the stream verifies its peer, a certificate that OpenSSL does not accept is
  refused: the callback reports the error and then the disconnection, and the socket is
  disconnected with a new generation.
\<close>

theorem certificate_failure_closes:
  assumes "obj_reach n (Tls s) d" "n < 2 ^ 32" "(generation s, SslHandshakeOp h p) \<in> set (pending s)"
    "sws s = Some stream" "verify_peer stream" "verify_message err = Some msg"
  shows "fst (ssl_verify_callback err s) = False
    \<and> (\<exists>t. obj_step (EvVerify err) (Tls s) = Some (Tls t, [])
       \<and> state t = STATE_DISCONNECTED \<and> generation t = generation s + 1
       \<and> backingQueue (messageQueue t) = backingQueue (messageQueue s) @
           [\<lparr>in_type = IN_ERROR, in_message = msg\<rparr>, \<lparr>in_type = IN_DISCONNECTED, in_message = msg\<rparr>])"
proof -
  have "SslHandshakeOp h p \<in> set (current_ops (base_of (Tls s)))"
    using assms(3) by (force simp: current_ops_def)
  then have "n_of is_connect_op [] (base_of (Tls s)) > 0"
    by (auto simp: n_of_pos intro!: bexI [of _ "SslHandshakeOp h p"])
  then have "state s \<noteq> STATE_DISCONNECTED" "state s \<noteq> STATE_DISCONNECTING"
    using base_phase [OF reach_base_inv [OF assms(1,2)]] by auto
  from tls.error_result [OF this, of msg] have
    "state (snd (verifyCertificate err s)) = STATE_DISCONNECTED"
    "generation (snd (verifyCertificate err s)) = generation s + 1"
    "backingQueue (messageQueue (snd (verifyCertificate err s))) = backingQueue (messageQueue s) @
       [\<lparr>in_type = IN_ERROR, in_message = msg\<rparr>, \<lparr>in_type = IN_DISCONNECTED, in_message = msg\<rparr>]"
    using assms(6) by (simp_all add: verifyCertificate_def)
  moreover have "\<exists>op\<in>set (map snd (pending s)). (case op of SslHandshakeOp _ _ \<Rightarrow> True | _ \<Rightarrow> False)"
    using assms(3) by force
  ultimately show ?thesis
    using assms(4-6) by (simp add: ssl_verify_callback_def verifyCertificate_def)
qed

theorem generation_reused:
  assumes "state (base_of x) = STATE_DISCONNECTED"
  shows "\<exists>y. obj_run (concat (replicate k [EvOpen clear, EvCloseNow])) x = Some (y, [])
    \<and> (generation (base_of y) = generation (base_of x) \<longleftrightarrow> 2 ^ 31 dvd k)"
proof -
  have "(of_nat (2 * k) :: 32 word) = 0 \<longleftrightarrow> 2 ^ 31 dvd k"
  proof -
    have "(of_nat (2 * k) :: 32 word) = 0 \<longleftrightarrow> 2 ^ 32 dvd 2 * k"
      by (simp only: word_of_nat_eq_0_iff) simp
    also have "(2 :: nat) ^ 32 = 2 * 2 ^ 31" by simp
    finally show ?thesis by (simp only: nat_mult_dvd_cancel_disj) simp
  qed
  then have "g + of_nat (2 * k) = g \<longleftrightarrow> 2 ^ 31 dvd k" for g :: "32 word"
    by (metis add_cancel_left_right)
  with open_close_rounds [OF assms, of k clear] show ?thesis by metis
qed

theorem report_lifecycle_witness:
  "\<exists>x. obj_reach 4 x [] \<and> lifecycle Down (reports [] (base_of x)) = Some Up"
proof -
  obtain x where x: "obj_reach 4 x []" "state (base_of x) = STATE_CONNECTED"
      "pending (base_of x) = [(1, ReadOp)]" "generation (base_of x) = 1"
    by (rule connected_example)
  with report_lifecycle [OF x(1)] show ?thesis by (auto simp: current_ops_def)
qed

theorem disconnect_reported_once_witness:
  "\<exists>x. obj_reach 2 x [] \<and>
     length (filter ((=) IN_DISCONNECTED) (reports [] (base_of x))) = n_opens (base_of x)"
proof -
  obtain x where x: "obj_reach 2 x []" "state (base_of x) = STATE_DISCONNECTED"
    by (rule closed_early_example)
  with disconnect_reported_once [OF x(1)] show ?thesis by auto
qed

theorem outstanding_operations_witness:
  "\<exists>x. obj_reach 6 x [] \<and> current_ops (base_of x) = [ReadOp, WriteOp ''one'' False]
     \<and> length (filter is_write_op (current_ops (base_of x)))
       + length (filter ((=) CloseOp) (current_ops (base_of x))) \<le> 1"
proof -
  obtain x where x: "obj_reach 6 x []" "generation (base_of x) = 1"
      "pending (base_of x) = [(1, ReadOp), (1, WriteOp ''one'' False)]"
    by (rule writing_example)
  with outstanding_operations [OF x(1)] show ?thesis
    by (intro exI [of _ x]) (simp add: current_ops_def)
qed

theorem connection_never_idle_witness:
  "\<exists>x. obj_reach 4 x [] \<and> state (base_of x) \<noteq> STATE_DISCONNECTED \<and> current_ops (base_of x) \<noteq> []"
proof -
  obtain x where x: "obj_reach 4 x []" "state (base_of x) = STATE_CONNECTED"
    by (rule connected_example)
  with connection_never_idle [OF x(1)] show ?thesis by auto
qed

theorem no_message_stuck_witness:
  "\<exists>x. obj_reach 6 x [] \<and> writeQueue (base_of x) \<noteq> []
     \<and> (\<exists>m b. WriteOp m b \<in> set (current_ops (base_of x)))"
proof -
  obtain x where x: "obj_reach 6 x []" "state (base_of x) = STATE_CONNECTED"
      "writeQueue (base_of x) = [\<lparr>out_type = OUT_MESSAGE, out_message = ''two'', out_binary = True\<rparr>]"
    by (rule writing_example)
  from no_message_stuck [OF x(1) _ x(2)] x(3) have "\<exists>m b. WriteOp m b \<in> set (current_ops (base_of x))"
    by simp
  with x(1,3) show ?thesis by (intro exI [of _ x]) simp
qed

theorem failures_end_disconnected_witness:
  "\<exists>x y. obj_reach 4 x [] \<and> state (base_of x) = STATE_CONNECTED
     \<and> obj_run [EvComplete 0 False True aborted] x = Some (y, []) \<and> state (base_of y) = STATE_DISCONNECTED"
proof -
  obtain x where x: "obj_reach 4 x []" "state (base_of x) = STATE_CONNECTED"
      "pending (base_of x) = [(1, ReadOp)]"
    by (rule connected_example)
  from failures_end_disconnected [OF x(1), of "[EvComplete 0 False True aborted]"] x(3)
  obtain y where "obj_run [EvComplete 0 False True aborted] x = Some (y, [])"
      "state (base_of y) = STATE_DISCONNECTED"
    by (auto simp: aborted_def ec_set_def simp del: obj_run.simps)
  with x show ?thesis by blast
qed

theorem late_completions_inert_witness:
  "\<exists>x y. obj_reach 2 x [] \<and> obj_step (EvComplete 0 False True done_ok) x = Some (y, [])
     \<and> state (base_of y) = STATE_DISCONNECTED \<and> pending (base_of y) = []"
proof -
  obtain x where x: "obj_reach 2 x []" "state (base_of x) = STATE_DISCONNECTED"
      "pending (base_of x) = [(1, ResolveOp [] ''80'')]"
    by (rule closed_early_example)
  with late_completions_inert [OF x(1) _ x(2), of 0 False True done_ok] show ?thesis by auto
qed

theorem graceful_close_witness:
  "\<exists>x is y. obj_reach 6 x []
     \<and> obj_run (EvClose False # map (\<lambda>i. EvComplete i False True done_ok) is) x = Some (y, [])
     \<and> state (base_of y) = STATE_DISCONNECTING
     \<and> started (base_of y) = started (base_of x) @ [WriteOp ''two'' True, CloseOp]"
proof -
  obtain x where x: "obj_reach 6 x []" "state (base_of x) = STATE_CONNECTED"
      "writeQueue (base_of x) = [\<lparr>out_type = OUT_MESSAGE, out_message = ''two'', out_binary = True\<rparr>]"
    by (rule writing_example)
  with graceful_close [OF x(1) _ x(2)] show ?thesis by fastforce
qed

theorem cleared_close_request_lost_witness:
  "\<exists>x y. obj_run (connect_script 0 @ [EvWrite False ''one'' False, EvClose False])
            (make_socket False True [] 80 []) = Some (x, [])
     \<and> obj_run [EvClearQueue, EvComplete 1 False True done_ok] x = Some (y, [])
     \<and> state (base_of y) = STATE_DISCONNECT_REQUESTED \<and> current_ops (base_of y) = [ReadOp]"
proof -
  obtain x where x: "obj_run (connect_script 0 @ [EvWrite False ''one'' False, EvClose False])
      (make_socket False True [] 80 []) = Some (x, [])"
      "state (base_of x) = STATE_DISCONNECT_REQUESTED" "generation (base_of x) = 1"
      "pending (base_of x) = [(1, ReadOp), (1, WriteOp ''one'' False)]"
    by (simp add: run_defs Let_def)
  obtain y where y: "obj_run [EvClearQueue, EvComplete 1 False True done_ok] x = Some (y, [])"
      "state (base_of y) = STATE_DISCONNECT_REQUESTED"
    using cleared_close_request_lost [OF x(2), of 1 "''one''" False done_ok False True] x(3,4)
    by (auto simp: done_ok_def ec_set_def simp del: obj_run.simps)
  moreover have "current_ops (base_of y) = [ReadOp]"
    using x(1) y(1) by (auto simp: run_defs Let_def)
  ultimately show ?thesis using x(1) by blast
qed

theorem close_while_connecting_drops_witness:
  "\<exists>x y. obj_run [EvOpen True, EvWrite False ''one'' False, EvComplete 0 False True done_ok,
             EvComplete 0 False True done_ok] (make_socket False True [] 80 []) = Some (x, [])
     \<and> writeQueue (base_of x) \<noteq> []
     \<and> obj_run [EvClose False, EvComplete 0 False True done_ok] x = Some (y, [])
     \<and> state (base_of y) = STATE_DISCONNECTED \<and> started (base_of y) = started (base_of x)"
proof -
  obtain x where x: "obj_run [EvOpen True, EvWrite False ''one'' False, EvComplete 0 False True done_ok,
             EvComplete 0 False True done_ok] (make_socket False True [] 80 []) = Some (x, [])"
      "state (base_of x) = STATE_CONNECTING" "generation (base_of x) = 1" "writeQueue (base_of x) \<noteq> []"
      "pending (base_of x) = [(1, HandshakeOp [] [])]"
    by (simp add: run_defs Let_def)
  with close_while_connecting_drops [OF x(2), of 0 "[]" "[]" done_ok False False True] show ?thesis
    by (auto simp: done_ok_def ec_set_def simp del: obj_run.simps)
qed

theorem messages_in_order_witness:
  "\<exists>x. obj_run (connect_script 0 @ [EvWrite False ''one'' False, EvWrite False ''two'' True])
           (make_socket False True [] 80 []) = Some (x, [])
     \<and> subseq (concat (map written_by (started (base_of x))) @ queued (writeQueue (base_of x)))
         [(''one'', False), (''two'', True)]"
proof -
  obtain x where x: "obj_run (connect_script 0 @ [EvWrite False ''one'' False, EvWrite False ''two'' True])
      (make_socket False True [] 80 []) = Some (x, [])"
    by (simp add: run_defs Let_def)
  with messages_in_order [OF x] show ?thesis by (simp add: connect_script_def)
qed

theorem step_refines_channel_witness:
  "\<exists>x y. obj_step (EvWrite False ''one'' False) x = Some (y, [])
     \<and> channel_step [(''one'', False)] (channel_of (base_of x)) (channel_of (base_of y))"
proof -
  obtain y where y: "obj_step (EvWrite False ''one'' False) (make_socket False True [] 80 []) = Some (y, [])"
    by (simp add: run_defs Let_def)
  from step_refines_channel [OF y] y show ?thesis by auto
qed

theorem message_reassembled_witness:
  "\<exists>x y. obj_reach 4 x [] \<and> obj_run [EvReceive ''he'', EvReceive ''llo'', EvComplete 0 False True done_ok] x = Some (y, [])
     \<and> last (backingQueue (messageQueue (base_of y))) = \<lparr>in_type = IN_MESSAGE, in_message = readBuffer (base_of x) @ ''hello''\<rparr>"
proof -
  obtain x where x: "obj_reach 4 x []" "pending (base_of x) = [(1, ReadOp)]" "generation (base_of x) = 1"
    by (rule connected_example)
  with message_reassembled [OF x(1), of "[''he'', ''llo'']" 0 done_ok False True] show ?thesis
    by (auto simp: done_ok_def ec_set_def simp del: obj_run.simps)
qed

theorem certificate_failure_closes_witness:
  "\<exists>s t. obj_reach 3 (Tls s) [] \<and> obj_step (EvVerify X509_V_ERR_CERT_HAS_EXPIRED) (Tls s) = Some (Tls t, [])
     \<and> state t = STATE_DISCONNECTED"
proof -
  obtain s stream where s: "obj_reach 3 (Tls s) []" "pending s = [(1, SslHandshakeOp ''h:443'' ''/'')]"
    "generation s = 1" "sws s = Some stream" "verify_peer stream"
    by (rule tls_example)
  with certificate_failure_closes [OF s(1) _ _ s(4,5), of "''h:443''" "''/''" X509_V_ERR_CERT_HAS_EXPIRED]
  show ?thesis by auto
qed

theorem generation_reused_witness:
  "\<exists>y. obj_run [EvOpen True, EvCloseNow] (make_socket True True ''h'' 443 ''/'') = Some (y, [])
     \<and> generation (base_of y) \<noteq> generation (base_of (make_socket True True ''h'' 443 ''/''))"
proof -
  have "state (base_of (make_socket True True ''h'' 443 ''/'')) = STATE_DISCONNECTED"
    by (simp add: run_defs)
  from generation_reused [OF this, of 1 True] show ?thesis
    by (simp del: obj_run.simps)
qed

end
