(* ===== verification/Url_Chars.thy ===== *)
theory Url_Chars
  imports Prelude
begin

unbundle bit_operations_syntax

text \<open>
  The character classes and the scanners of Url.cpp. A range of characters between two
  pointers is a string; a scanner that moves a pointer returns what is left of it. A
  \<open>char\<close> is signed in the sources; each comparison here is between bounds below 128, so a
  character from 128 on fails it whichever way it is read. The places where the sign
  matters say so.
\<close>

abbreviation code :: "char \<Rightarrow> nat" where
  "code c \<equiv> of_char c"

subsection \<open>Classes\<close>

definition tbl_ascii :: "8 word list" where
  "tbl_ascii =
     [0,0,0,0, 0,0,0,0,
      0,0,0,0, 0,0,0,0,
      0,0,0,0, 0,0,0,0,
      0,0,0,0, 0,0,0,0,
      0x00,0x01,0x00,0x00, 0x01,0x20,0x01,0x01,
      0x01,0x01,0x01,0x01, 0x01,0x01,0x01,0x08,
      0x01,0x01,0x01,0x01, 0x01,0x01,0x01,0x01,
      0x01,0x01,0x04,0x01, 0x00,0x01,0x00,0x10,
      0x02,0x01,0x01,0x01, 0x01,0x01,0x01,0x01,
      0x01,0x01,0x01,0x01, 0x01,0x01,0x01,0x01,
      0x01,0x01,0x01,0x01, 0x01,0x01,0x01,0x01,
      0x01,0x01,0x01,0x00, 0x00,0x00,0x00,0x01,
      0x00,0x01,0x01,0x01, 0x01,0x01,0x01,0x01,
      0x01,0x01,0x01,0x01, 0x01,0x01,0x01,0x01,
      0x01,0x01,0x01,0x01, 0x01,0x01,0x01,0x01,
      0x01,0x01,0x01,0x00, 0x00,0x00,0x01,0x00]"

definition tbl :: "8 word list" where
  "tbl = tbl_ascii @ replicate 128 0"

definition is_char :: "char \<Rightarrow> 8 word \<Rightarrow> bool" where
  "is_char c msk = ((tbl ! code c) AND msk \<noteq> 0)"

fun is_chars :: "string \<Rightarrow> 8 word \<Rightarrow> bool" where
  "is_chars [] msk = True"
| "is_chars (c # s) msk = (is_char c msk \<and> is_chars s msk)"

definition is_alpha :: "char \<Rightarrow> bool" where
  "is_alpha c = ((code CHR ''A'' \<le> code c \<and> code c \<le> code CHR ''Z'')
               \<or> (code CHR ''a'' \<le> code c \<and> code c \<le> code CHR ''z''))"

definition is_num :: "char \<Rightarrow> bool" where
  "is_num c = (code CHR ''0'' \<le> code c \<and> code c \<le> code CHR ''9'')"

definition is_alnum :: "char \<Rightarrow> bool" where
  "is_alnum c = (is_alpha c \<or> is_num c)"

definition is_hexdigit :: "char \<Rightarrow> bool" where
  "is_hexdigit c = (is_num c \<or> (code CHR ''A'' \<le> code c \<and> code c \<le> code CHR ''F'')
                 \<or> (code CHR ''a'' \<le> code c \<and> code c \<le> code CHR ''f''))"

definition get_hex_digit :: "char \<Rightarrow> int" where
  "get_hex_digit c =
     (if code CHR ''0'' \<le> code c \<and> code c \<le> code CHR ''9'' then of_char c - 48
      else if code CHR ''A'' \<le> code c \<and> code c \<le> code CHR ''F'' then of_char c - 65 + 10
      else if code CHR ''a'' \<le> code c \<and> code c \<le> code CHR ''f'' then of_char c - 97 + 10
      else -1)"

subsection \<open>Scanners\<close>

fun uint_loop :: "32 word \<Rightarrow> string \<Rightarrow> 32 word \<times> string" where
  "uint_loop val [] = (val, [])"
| "uint_loop val (c # t) =
     (if is_num c then uint_loop (val * 10 + of_nat (code c - 48)) t else (val, c # t))"

definition is_uint :: "string \<Rightarrow> 32 word \<Rightarrow> string option" where
  \<comment> \<open>the rest of the input, if a number up to \<open>max\<close> was read\<close>
  "is_uint s max' =
     (case s of
        [] \<Rightarrow> None
      | c # t \<Rightarrow>
          if \<not> is_num c then None
          else
            let val = of_nat (code c - 48);
                (val, t) = (if val \<noteq> 0 then uint_loop val t else (val, t)) in
            if val > max' then None else Some t)"

definition is_pchars :: "string \<Rightarrow> bool" where
  "is_pchars s = is_chars s 0x07"

definition lower :: "char \<Rightarrow> char" where
  "lower c = (if code CHR ''A'' \<le> code c \<and> code c \<le> code CHR ''Z'' then char_of (code c OR 0x20) else c)"

definition to_lower :: "string \<Rightarrow> string" where
  "to_lower s = map lower s"

definition find_first_of :: "string \<Rightarrow> string \<Rightarrow> string \<times> string" where
  \<comment> \<open>what is before the position found, and what begins there\<close>
  "find_first_of q s = (takeWhile (\<lambda>c. c \<notin> set q) s, dropWhile (\<lambda>c. c \<notin> set q) s)"

definition find_char :: "char \<Rightarrow> string \<Rightarrow> string \<times> string" where
  "find_char q s = (takeWhile (\<lambda>c. c \<noteq> q) s, dropWhile (\<lambda>c. c \<noteq> q) s)"

definition is_scheme :: "string \<Rightarrow> bool" where
  "is_scheme s =
     (case s of
        [] \<Rightarrow> False
      | c # t \<Rightarrow> is_alpha c \<and>
          list_all (\<lambda>c. is_alnum c \<or> c = CHR ''+'' \<or> c = CHR ''-'' \<or> c = CHR ''.'') t)"

definition normalize_scheme :: "string \<Rightarrow> string" where
  "normalize_scheme s = to_lower s"

definition is_reg_name :: "string \<Rightarrow> bool" where
  "is_reg_name s = is_chars s 0x01"

definition normalize_reg_name :: "string \<Rightarrow> string" where
  "normalize_reg_name s = to_lower s"

definition is_port :: "string \<Rightarrow> bool" where
  "is_port s = (is_uint s 65535 = Some [])"

lemmas scanner_defs [op_defs] =
  is_alpha_def is_num_def is_alnum_def is_hexdigit_def get_hex_digit_def is_scheme_def
  is_reg_name_def is_port_def is_uint_def find_first_of_def find_char_def

subsection \<open>What is in which class\<close>

lemma tbl_ascii_length: "length tbl_ascii = 128"
  by (simp add: tbl_ascii_def)

lemma tbl_length [simp]: "length tbl = 256"
  by (simp add: tbl_def tbl_ascii_length)

lemma is_chars_iff: "is_chars s msk \<longleftrightarrow> (\<forall>c\<in>set s. is_char c msk)"
  by (induction s) auto

lemma is_chars_append [simp]: "is_chars (s @ t) msk \<longleftrightarrow> is_chars s msk \<and> is_chars t msk"
  by (auto simp: is_chars_iff)

lemma code_less: "code c < 256"
  by simp

definition char_class :: "nat \<Rightarrow> 8 word" where
  \<comment> \<open>the table by ranges\<close>
  "char_class n =
     (if n = 37 then 0x20 else if n = 47 then 0x08 else if n = 58 then 0x04
      else if n = 63 then 0x10 else if n = 64 then 0x02
      else if n = 33 \<or> n = 36 \<or> (38 \<le> n \<and> n \<le> 46) \<or> (48 \<le> n \<and> n \<le> 57) \<or> n = 59 \<or> n = 61
        \<or> (65 \<le> n \<and> n \<le> 90) \<or> n = 95 \<or> (97 \<le> n \<and> n \<le> 122) \<or> n = 126 then 0x01
      else 0)"

lemma char_class_alnum:
  assumes "48 \<le> n \<and> n \<le> 57 \<or> 65 \<le> n \<and> n \<le> 90 \<or> 97 \<le> n \<and> n \<le> 122"
  shows "char_class n = 1"
proof -
  have "n \<noteq> 37" "n \<noteq> 47" "n \<noteq> 58" "n \<noteq> 63" "n \<noteq> 64" using assms by auto
  with assms show ?thesis by (elim disjE) (simp_all add: char_class_def)
qed

lemma tbl_ascii_class: "tbl_ascii = map char_class [0..<128]"
  by code_simp

lemma tbl_nth: "tbl ! code c = (if code c < 128 then char_class (code c) else 0)"
proof -
  have "replicate 128 (0 :: 8 word) ! (code c - 128) = 0" if "code c \<ge> 128"
    using that code_less [of c] by (intro nth_replicate) linarith
  then show ?thesis
    by (auto simp: tbl_def nth_append tbl_ascii_length tbl_ascii_class)
qed

lemma is_char_class: "is_char c m \<longleftrightarrow> code c < 128 \<and> char_class (code c) AND m \<noteq> 0"
  by (simp add: is_char_def tbl_nth)

lemma is_char_ascii: "is_char c m \<Longrightarrow> code c < 128"
  by (simp add: is_char_class)

lemma char_eq_code: "c = d \<longleftrightarrow> code c = code d"
  by simp

lemma or_20: "65 \<le> n \<Longrightarrow> n \<le> 90 \<Longrightarrow> n OR (0x20 :: nat) = n + 32"
proof -
  assume "65 \<le> n" "n \<le> 90"
  then have "n \<in> set [65..<91]" unfolding set_upt by simp
  moreover have "\<forall>n\<in>set [65..<91]. n OR (0x20 :: nat) = n + 32" by (simp add: upt_rec)
  ultimately show ?thesis by blast
qed

lemma code_lower: "code (lower c) = (if 65 \<le> code c \<and> code c \<le> 90 then code c + 32 else code c)"
  by (simp add: lower_def or_20)

lemma lower_lower [simp]: "lower (lower c) = lower c"
  by (simp only: char_eq_code code_lower) simp

lemma to_lower_idem [simp]: "to_lower (to_lower s) = to_lower s"
  by (simp add: to_lower_def)

subsection \<open>Cutting at a delimiter\<close>

lemma find_first_of_append:
  assumes "set x \<inter> set q = {}" "y = [] \<or> hd y \<in> set q"
  shows "find_first_of q (x @ y) = (x, y)"
proof -
  have "\<forall>c\<in>set x. c \<notin> set q" using assms(1) by blast
  with assms(2) show ?thesis
    by (cases y) (simp_all add: find_first_of_def)
qed

lemma find_char_append:
  assumes "q \<notin> set x" "y = [] \<or> hd y = q"
  shows "find_char q (x @ y) = (x, y)"
proof -
  have "\<forall>c\<in>set x. c \<noteq> q" using assms(1) by blast
  with assms(2) show ?thesis
    by (cases y) (simp_all add: find_char_def)
qed

lemma find_first_of_none: "set x \<inter> set q = {} \<Longrightarrow> find_first_of q x = (x, [])"
  using find_first_of_append [of x q "[]"] by simp

lemma find_char_none: "q \<notin> set x \<Longrightarrow> find_char q x = (x, [])"
  using find_char_append [of q x "[]"] by simp

subsection \<open>Numbers\<close>

lemma is_num_digit: "is_num c = is_digit c"
  by (simp add: is_num_def is_digit_def)

lemma uint_loop_word:
  "uint_loop (of_nat n) t =
     (of_nat (foldl (\<lambda>v c. v * 10 + (of_char c - 48)) n (takeWhile is_digit t)), dropWhile is_digit t)"
proof (induction t arbitrary: n)
  case (Cons c t)
  have step: "of_nat n * 10 + of_nat (code c - 48) = (of_nat (n * 10 + (code c - 48)) :: 32 word)"
    by (simp only: of_nat_add of_nat_mult of_nat_numeral)
  show ?case
  proof (cases "is_digit c")
    case True
    then show ?thesis
      by (simp only: uint_loop.simps is_num_digit if_True takeWhile.simps dropWhile.simps foldl.simps
          step Cons.IH)
  next
    case False
    then show ?thesis
      by (simp only: uint_loop.simps is_num_digit if_False takeWhile.simps dropWhile.simps foldl.simps)
  qed
qed simp

lemma dec_value_Cons: "dec_value (c # s) = foldl (\<lambda>v c. v * 10 + (of_char c - 48)) (code c - 48) s"
  by (simp add: dec_value_def)

lemma small_word_nonzero: "n \<noteq> 0 \<Longrightarrow> n < 10 \<Longrightarrow> (of_nat n :: 32 word) \<noteq> 0"
  by (auto simp: word_of_nat_eq_0_iff dest: dvd_imp_le)

lemma is_uint_leading:
  assumes "is_digit c" "c \<noteq> CHR ''0''"
  shows "is_uint (c # t) m =
    (if (of_nat (dec_value (c # takeWhile is_digit t)) :: 32 word) > m then None
     else Some (dropWhile is_digit t))"
proof -
  have "code c - 48 \<noteq> 0" "code c - 48 < 10"
    using assms char_eq_code [of c "CHR ''0''"] unfolding is_digit_def by simp_all linarith+
  then have "(of_nat (code c - 48) :: 32 word) \<noteq> 0"
    by (rule small_word_nonzero)
  with assms(1) show ?thesis
    by (simp add: is_uint_def is_num_digit uint_loop_word dec_value_Cons del: of_nat_diff)
qed

lemma is_uint_zero: "is_uint (CHR ''0'' # t) m = Some t"
  by (simp add: is_uint_def is_num_def)

text \<open>A number is read in full exactly if it is canonical and its value mod \<open>2 ^ 32\<close> is small.\<close>

lemma is_uint_all:
  "is_uint s m = Some [] \<longleftrightarrow> canonical_dec s \<and> (of_nat (dec_value s) :: 32 word) \<le> m"
proof (cases s)
  case Nil
  then show ?thesis by (simp add: is_uint_def canonical_dec_def)
next
  case (Cons c t)
  consider "\<not> is_digit c" | "c = CHR ''0''" | "is_digit c" "c \<noteq> CHR ''0''" by blast
  then show ?thesis
  proof cases
    case 1
    with Cons show ?thesis by (simp add: is_uint_def is_num_digit canonical_dec_def)
  next
    case 2
    with Cons show ?thesis
      by (auto simp: is_uint_zero canonical_dec_def dec_value_def is_digit_def)
  next
    case 3
    show ?thesis
    proof (cases "list_all is_digit t")
      case True
      then have digits: "takeWhile is_digit t = t" "dropWhile is_digit t = []"
        by (simp_all add: takeWhile_eq_all_conv list_all_iff)
      from Cons 3 True show ?thesis
        by (auto simp: is_uint_leading canonical_dec_def digits not_le)
    next
      case False
      then have "dropWhile is_digit t \<noteq> []" by (simp add: list_all_iff)
      with Cons 3 False show ?thesis
        by (simp add: is_uint_leading canonical_dec_def)
    qed
  qed
qed

lemma is_port_iff: "is_port s \<longleftrightarrow> (\<exists>n. s = to_string n \<and> n mod 2 ^ 32 \<le> 65535)"
proof -
  have "(of_nat n :: 32 word) \<le> 65535 \<longleftrightarrow> n mod 2 ^ 32 \<le> 65535" for n
    unfolding word_le_nat_alt unat_of_nat by simp
  then show ?thesis
    unfolding is_port_def is_uint_all canonical_iff by (metis dec_value_to_string)
qed

end
