(* ===== verification/Url_Codec.thy ===== *)
theory Url_Codec
  imports Url_Chars
begin

text \<open>
  Percent encoding in Url.cpp: the decoders \<open>decode\<close> and \<open>decode_plus\<close> and the stream
  manipulators \<open>encode\<close>, \<open>encode_query_key\<close> and \<open>encode_query_val\<close>. The interface that
  the URL parser and printer rely on, that decoding undoes encoding and that an encoded
  text is made of certain characters only, is the locale \<open>codec\<close>.
\<close>

subsection \<open>Outcomes\<close>

text \<open>
  What a call of the URL class does: return, throw, or run into undefined behaviour.
\<close>

datatype url_exn = parse_error string | build_error string | out_of_range string

datatype 'a exec = Ret 'a | Throw url_exn | UB

fun exec_bind :: "'a exec \<Rightarrow> ('a \<Rightarrow> 'b exec) \<Rightarrow> 'b exec" where
  "exec_bind (Ret x) f = f x"
| "exec_bind (Throw e) f = Throw e"
| "exec_bind UB f = UB"

lemma exec_bind_Ret_iff [simp]: "exec_bind m f = Ret y \<longleftrightarrow> (\<exists>x. m = Ret x \<and> f x = Ret y)"
  by (cases m) auto

lemma exec_bind_UB_iff [simp]: "exec_bind m f = UB \<longleftrightarrow> m = UB \<or> (\<exists>x. m = Ret x \<and> f x = UB)"
  by (cases m) auto

lemma exec_bind_assoc: "exec_bind (exec_bind m f) g = exec_bind m (\<lambda>x. exec_bind (f x) g)"
  by (cases m) simp_all

subsection \<open>Decoding\<close>

definition hex_pair :: "string \<Rightarrow> (char \<times> string) exec" where
  \<comment> \<open>the two digits after a percent sign; the result is \<open>(a << 4) | b\<close> as a char\<close>
  "hex_pair s =
     (case s of
        c1 # c2 # t \<Rightarrow>
          (if get_hex_digit c1 < 0 \<or> get_hex_digit c2 < 0
           then Throw (parse_error ''Invalid percent encoding'')
           else Ret (char_of (push_bit 4 (nat (get_hex_digit c1)) OR nat (get_hex_digit c2)), t))
      | _ \<Rightarrow> Throw (parse_error ''Invalid percent encoding''))"

lemma hex_pair_length: "hex_pair s = Ret (c, t) \<Longrightarrow> length t < length s"
  by (auto simp: hex_pair_def split: list.splits if_splits)

function decode :: "string \<Rightarrow> string exec" where
  "decode [] = Ret []"
| "decode (c # s) =
     (if c = CHR ''%'' then
        (case hex_pair s of
           Ret (c, t) \<Rightarrow> exec_bind (decode t) (\<lambda>o'. Ret (c # o'))
         | Throw e \<Rightarrow> Throw e | UB \<Rightarrow> UB)
      else exec_bind (decode s) (\<lambda>o'. Ret (c # o')))"
  by pat_completeness auto
termination
  by (relation "measure length") (auto dest: hex_pair_length)

function decode_plus :: "string \<Rightarrow> string exec" where
  "decode_plus [] = Ret []"
| "decode_plus (c # s) =
     (if c = CHR ''+'' then exec_bind (decode_plus s) (\<lambda>o'. Ret (CHR '' '' # o'))
      else if c = CHR ''%'' then
        (case hex_pair s of
           Ret (c, t) \<Rightarrow> exec_bind (decode_plus t) (\<lambda>o'. Ret (c # o'))
         | Throw e \<Rightarrow> Throw e | UB \<Rightarrow> UB)
      else exec_bind (decode_plus s) (\<lambda>o'. Ret (c # o')))"
  by pat_completeness auto
termination
  by (relation "measure length") (auto dest: hex_pair_length)

subsection \<open>Encoding\<close>

definition hex_digits :: string where
  "hex_digits = ''0123456789ABCDEF''"

definition percent :: "char \<Rightarrow> string exec" where
  \<comment> \<open>\<open>c >> 4\<close> of a negative \<open>char\<close> is negative: the index is outside the literal\<close>
  "percent c =
     (if sint (of_nat (code c) :: 8 word) < 0 then UB
      else Ret [CHR ''%'', hex_digits ! drop_bit 4 (code c), hex_digits ! (code c AND 0xF)])"

fun put_all :: "(char \<Rightarrow> string exec) \<Rightarrow> string \<Rightarrow> string exec" where
  \<comment> \<open>the loop over the characters of a string that writes each to the stream\<close>
  "put_all f [] = Ret []"
| "put_all f (c # s) = exec_bind (f c) (\<lambda>t. exec_bind (put_all f s) (\<lambda>u. Ret (t @ u)))"

definition encode_char :: "8 word \<Rightarrow> char \<Rightarrow> string exec" where
  "encode_char m c = (if is_char c m then Ret [c] else percent c)"

definition encode_key_char :: "8 word \<Rightarrow> char \<Rightarrow> string exec" where
  "encode_key_char m c =
     (if c = CHR '' '' then Ret ''+''
      else if c = CHR ''+'' then Ret ''%2B''
      else if c = CHR ''='' then Ret ''%3D''
      else if c = CHR ''&'' then Ret ''%26''
      else if c = CHR '';'' then Ret ''%3B''
      else if is_char c m then Ret [c]
      else percent c)"

definition encode_val_char :: "8 word \<Rightarrow> char \<Rightarrow> string exec" where
  "encode_val_char m c =
     (if c = CHR '' '' then Ret ''+''
      else if c = CHR ''+'' then Ret ''%2B''
      else if c = CHR ''&'' then Ret ''%26''
      else if c = CHR '';'' then Ret ''%3B''
      else if is_char c m then Ret [c]
      else percent c)"

definition encode :: "string \<Rightarrow> 8 word \<Rightarrow> string exec" where
  "encode s m = put_all (encode_char m) s"

definition encode_query_key :: "string \<Rightarrow> 8 word \<Rightarrow> string exec" where
  "encode_query_key s m = put_all (encode_key_char m) s"

definition encode_query_val :: "string \<Rightarrow> 8 word \<Rightarrow> string exec" where
  "encode_query_val s m = put_all (encode_val_char m) s"

subsection \<open>The interface\<close>

text \<open>
  An encoder writes each character as a piece of text, and a decoder that meets the piece
  reads the character back. \<open>safe\<close> bounds the characters an encoder may write.
\<close>

locale codec =
  fixes enc :: "char \<Rightarrow> string exec"
    and dec :: "string \<Rightarrow> string exec"
    and safe :: "char \<Rightarrow> bool"
  assumes dec_nil: "dec [] = Ret []"
    and dec_piece: "enc c = Ret t \<Longrightarrow> dec (t @ s) = exec_bind (dec s) (\<lambda>u. Ret (c # u))"
    and enc_defined: "code c < 128 \<Longrightarrow> \<exists>t. enc c = Ret t"
    and enc_safe: "enc c = Ret t \<Longrightarrow> \<forall>x\<in>set t. safe x"
begin

lemma round_trip: "put_all enc s = Ret t \<Longrightarrow> dec t = Ret s"
  by (induction s arbitrary: t) (auto simp: dec_nil dec_piece)

lemma defined: "\<forall>c\<in>set s. code c < 128 \<Longrightarrow> \<exists>t. put_all enc s = Ret t"
  by (induction s) (auto dest: enc_defined)

lemma written_safe: "put_all enc s = Ret t \<Longrightarrow> \<forall>x\<in>set t. safe x"
proof (induction s arbitrary: t)
  case (Cons c s)
  then obtain u v where "enc c = Ret u" "put_all enc s = Ret v" "t = u @ v" by auto
  with Cons.IH enc_safe show ?case by auto
qed simp

end

subsection \<open>The two directions of a hexadecimal pair\<close>

lemma less_16: "n < 16 \<Longrightarrow> n \<in> set [0..<16]"
  by simp

lemma hex_digit_back: "n < 16 \<Longrightarrow> get_hex_digit (hex_digits ! n) = int n"
proof -
  have "\<forall>n\<in>set [0..<16]. get_hex_digit (hex_digits ! n) = int n"
    by (simp add: upt_rec hex_digits_def get_hex_digit_def)
  then show "n < 16 \<Longrightarrow> ?thesis" using less_16 by blast
qed

lemma hex_digit_safe: "n < 16 \<Longrightarrow> is_digit (hex_digits ! n) \<or> (65 \<le> code (hex_digits ! n) \<and> code (hex_digits ! n) \<le> 70)"
proof -
  have "\<forall>n\<in>set [0..<16]. is_digit (hex_digits ! n) \<or> (65 \<le> code (hex_digits ! n) \<and> code (hex_digits ! n) \<le> 70)"
    by (simp add: upt_rec hex_digits_def is_digit_def)
  then show "n < 16 \<Longrightarrow> ?thesis" using less_16 by blast
qed

lemma and_15: "n AND 0xF = take_bit 4 (n :: nat)"
  by (simp add: take_bit_eq_mask mask_eq_exp_minus_1)

lemma nibbles: "push_bit 4 (drop_bit 4 n) OR (n AND 0xF) = (n :: nat)"
  unfolding and_15 by (intro bit_eqI) (auto simp: bit_simps)

lemma nibble_bounds: "code c < 128 \<Longrightarrow> drop_bit 4 (code c) < 8" "code c AND 0xF < 16"
  unfolding and_15 by (simp_all add: drop_bit_eq_div take_bit_eq_mod)

lemma negative_char: "sint (of_nat (code c) :: 8 word) < 0 \<longleftrightarrow> code c \<ge> 128"
proof -
  have "uint (of_nat (code c) :: 8 word) = int (code c)"
    by (simp add: uint_nat unat_of_nat take_bit_nat_eq_self)
  then have "sint (of_nat (code c) :: 8 word) < 0 \<longleftrightarrow> odd (int (code c) div 2 ^ 7)"
    by (simp add: sint_uint bit_iff_odd)
  also have "int (code c) div 2 ^ 7 = int (code c div 128)"
    by (simp add: zdiv_int)
  also have "odd (int (code c div 128)) \<longleftrightarrow> odd (code c div 128)"
    by (rule arg_cong [of _ _ Not], rule even_of_nat)
  also have "\<dots> \<longleftrightarrow> code c \<ge> 128"
  proof (cases "code c \<ge> 128")
    case True
    then have "code c div 128 = 1" using code_less [of c] by (intro div_nat_eqI) simp_all
    with True show ?thesis by simp
  qed simp
  finally show ?thesis .
qed

lemma percent_pair:
  assumes "code c < 128"
  shows "percent c = Ret [CHR ''%'', hex_digits ! drop_bit 4 (code c), hex_digits ! (code c AND 0xF)]"
    and "hex_pair (hex_digits ! drop_bit 4 (code c) # hex_digits ! (code c AND 0xF) # s) = Ret (c, s)"
proof -
  show "percent c = Ret [CHR ''%'', hex_digits ! drop_bit 4 (code c), hex_digits ! (code c AND 0xF)]"
    using assms by (simp add: percent_def negative_char)
  have "drop_bit 4 (code c) < 16" "code c AND 0xF < 16"
    using nibble_bounds [of c] assms by simp_all
  then show "hex_pair (hex_digits ! drop_bit 4 (code c) # hex_digits ! (code c AND 0xF) # s) = Ret (c, s)"
    by (simp add: hex_pair_def hex_digit_back nibbles)
qed

lemma percent_UB: "percent c = UB \<longleftrightarrow> code c \<ge> 128"
  by (simp add: percent_def negative_char)

subsection \<open>The three encoders\<close>

lemma get_hex_digit_percent [simp]: "get_hex_digit CHR ''%'' = - 1"
  by (simp add: get_hex_digit_def)

lemma hex_digit_class: "is_hexdigit c \<Longrightarrow> is_char c 0x25 \<and> is_char c 0x2F \<and> is_char c 0x3F"
proof -
  assume "is_hexdigit c"
  then have "48 \<le> code c \<and> code c \<le> 57 \<or> 65 \<le> code c \<and> code c \<le> 90 \<or> 97 \<le> code c \<and> code c \<le> 122"
    by (auto simp: is_hexdigit_def is_num_def)
  then have "char_class (code c) = 1" "code c < 128"
    by (auto simp: char_class_alnum)
  then show ?thesis by (simp add: is_char_class)
qed

lemma hex_digits_hexdigit: "n < 16 \<Longrightarrow> is_hexdigit (hex_digits ! n)"
  using hex_digit_safe [of n] by (auto simp: is_hexdigit_def is_num_digit)

lemma hex_digits_no_delimiter:
  "is_hexdigit c \<Longrightarrow> c \<notin> set ''=;&+%''"
  by (auto simp: is_hexdigit_def is_num_def)

lemma percent_safe:
  assumes "percent c = Ret t"
  shows "\<forall>x\<in>set t. is_hexdigit x \<or> x = CHR ''%''"
proof -
  have "code c < 128" using assms percent_UB [of c] by (cases "code c < 128") simp_all
  then have "t = [CHR ''%'', hex_digits ! drop_bit 4 (code c), hex_digits ! (code c AND 0xF)]"
      "drop_bit 4 (code c) < 16" "code c AND 0xF < 16"
    using assms percent_pair(1) [of c] nibble_bounds [of c] by simp_all
  then show ?thesis using hex_digits_hexdigit by auto
qed

lemma mask_class:
  "is_char c 0x05 \<Longrightarrow> is_char c 0x25" "is_char c 0x0F \<Longrightarrow> is_char c 0x2F"
  "is_char c 0x1F \<Longrightarrow> is_char c 0x3F"
  by (auto simp: is_char_class char_class_def split: if_splits)

lemma percent_not_char: "\<not> is_char CHR ''%'' 0x05" "\<not> is_char CHR ''%'' 0x0F" "\<not> is_char CHR ''%'' 0x1F"
  by (simp_all add: is_char_class char_class_def)

lemma percent_class: "is_char CHR ''%'' 0x25" "is_char CHR ''%'' 0x2F" "is_char CHR ''%'' 0x3F"
  by (simp_all add: is_char_class char_class_def)

lemma decode_percent:
  assumes "percent c = Ret t"
  shows "decode (t @ s) = exec_bind (decode s) (\<lambda>u. Ret (c # u))"
    and "decode_plus (t @ s) = exec_bind (decode_plus s) (\<lambda>u. Ret (c # u))"
proof -
  have "code c < 128" using assms percent_UB [of c] by (cases "code c < 128") simp_all
  with assms percent_pair [of c] show "decode (t @ s) = exec_bind (decode s) (\<lambda>u. Ret (c # u))"
    "decode_plus (t @ s) = exec_bind (decode_plus s) (\<lambda>u. Ret (c # u))"
    by auto
qed

lemma decode_hex:
  "decode_plus (CHR ''%'' # a # b # s) =
     (if get_hex_digit a < 0 \<or> get_hex_digit b < 0 then Throw (parse_error ''Invalid percent encoding'')
      else exec_bind (decode_plus s)
        (\<lambda>u. Ret (char_of (push_bit 4 (nat (get_hex_digit a)) OR nat (get_hex_digit b)) # u)))"
  by (simp add: hex_pair_def)

abbreviation hex_text :: "char \<Rightarrow> bool" where
  "hex_text x \<equiv> is_hexdigit x \<or> x = CHR ''%''"

lemma encode_piece:
  assumes "encode_char m c = Ret t" "\<not> is_char CHR ''%'' m"
  shows "decode (t @ s) = exec_bind (decode s) (\<lambda>u. Ret (c # u))"
  using assms by (auto simp: encode_char_def decode_percent split: if_splits)

lemma encode_safe:
  assumes "encode_char m c = Ret t"
  shows "\<forall>x\<in>set t. is_char x m \<or> hex_text x"
  using assms percent_safe [of c t] by (auto simp: encode_char_def split: if_splits)

lemma encode_defined: "code c < 128 \<Longrightarrow> \<exists>t. encode_char m c = Ret t"
  by (simp add: encode_char_def percent_pair)

lemma hex_text_class: "hex_text x \<Longrightarrow> is_char x 0x25 \<and> is_char x 0x2F \<and> is_char x 0x3F"
  using hex_digit_class percent_class by blast

lemma encode_class:
  "encode_char 0x05 c = Ret t \<Longrightarrow> \<forall>x\<in>set t. is_char x 0x25"
  "encode_char 0x0F c = Ret t \<Longrightarrow> \<forall>x\<in>set t. is_char x 0x2F"
  "encode_char 0x1F c = Ret t \<Longrightarrow> \<forall>x\<in>set t. is_char x 0x3F"
  using encode_safe mask_class hex_text_class by blast+

interpretation user_codec: codec "encode_char 0x05" decode "\<lambda>x. is_char x 0x25"
  by unfold_locales (auto simp: encode_piece percent_not_char encode_defined dest: encode_class)

interpretation path_codec: codec "encode_char 0x0F" decode "\<lambda>x. is_char x 0x2F"
  by unfold_locales (auto simp: encode_piece percent_not_char encode_defined dest: encode_class)

interpretation fragment_codec: codec "encode_char 0x1F" decode "\<lambda>x. is_char x 0x3F"
  by unfold_locales (auto simp: encode_piece percent_not_char encode_defined dest: encode_class)

text \<open>The query encoders: a character is left alone, or is one of those with a piece of its own.\<close>

lemma decode_plus_plain:
  "c \<noteq> CHR ''+'' \<Longrightarrow> c \<noteq> CHR ''%'' \<Longrightarrow>
   decode_plus (c # s) = exec_bind (decode_plus s) (\<lambda>u. Ret (c # u))"
  "decode_plus (CHR ''+'' # s) = exec_bind (decode_plus s) (\<lambda>u. Ret (CHR '' '' # u))"
  by simp_all

lemma decode_plus_special:
  "decode_plus (CHR ''%'' # CHR ''2'' # CHR ''B'' # s) = exec_bind (decode_plus s) (\<lambda>u. Ret (CHR ''+'' # u))"
  "decode_plus (CHR ''%'' # CHR ''3'' # CHR ''D'' # s) = exec_bind (decode_plus s) (\<lambda>u. Ret (CHR ''='' # u))"
  "decode_plus (CHR ''%'' # CHR ''2'' # CHR ''6'' # s) = exec_bind (decode_plus s) (\<lambda>u. Ret (CHR ''&'' # u))"
  "decode_plus (CHR ''%'' # CHR ''3'' # CHR ''B'' # s) = exec_bind (decode_plus s) (\<lambda>u. Ret (CHR '';'' # u))"
  by (simp_all add: decode_hex get_hex_digit_def char_of_def bit_numeral_rec del: decode_plus.simps)

lemma if_chain:
  "(if a1 then Ret x1 else if a2 then Ret x2 else if a3 then Ret x3 else if a4 then Ret x4 else if a5 then Ret x5
    else if b then Ret y else z) = Ret t \<Longrightarrow>
   a1 \<and> t = x1 \<or> a2 \<and> t = x2 \<or> a3 \<and> t = x3 \<or> a4 \<and> t = x4 \<or> a5 \<and> t = x5
   \<or> \<not> a2 \<and> \<not> a3 \<and> \<not> a4 \<and> \<not> a5 \<and> b \<and> t = y \<or> z = Ret t"
  by (auto split: if_split_asm)

lemma encode_key_cases:
  assumes "encode_key_char m c = Ret t"
  obtains "c = CHR '' ''" "t = ''+''" | "c = CHR ''+''" "t = ''%2B''" | "c = CHR ''=''" "t = ''%3D''"
    | "c = CHR ''&''" "t = ''%26''" | "c = CHR '';''" "t = ''%3B''"
    | "c \<notin> set ''=;&+''" "is_char c m" "t = [c]" | "percent c = Ret t"
  using if_chain [OF assms [unfolded encode_key_char_def]] that by (elim disjE conjE) simp_all

lemma encode_val_cases:
  assumes "encode_val_char m c = Ret t"
  obtains "c = CHR '' ''" "t = ''+''" | "c = CHR ''+''" "t = ''%2B''"
    | "c = CHR ''&''" "t = ''%26''" | "c = CHR '';''" "t = ''%3B''"
    | "c \<notin> set '';&+''" "is_char c m" "t = [c]" | "percent c = Ret t"
proof -
  have "c = CHR '' '' \<and> t = ''+'' \<or> c = CHR ''+'' \<and> t = ''%2B''
    \<or> c = CHR ''&'' \<and> t = ''%26'' \<or> c = CHR '';'' \<and> t = ''%3B''
    \<or> c \<notin> set '';&+'' \<and> is_char c m \<and> t = [c] \<or> percent c = Ret t"
    using assms unfolding encode_val_char_def by (simp split: if_split_asm)
  with that show thesis by blast
qed

lemma is_char_not_percent: "is_char c 0x1F \<Longrightarrow> c \<noteq> CHR ''%''"
  using percent_not_char by blast

lemma special_class: "\<forall>x\<in>set ''+%2B3D64''. is_char x 0x3F \<and> x \<notin> set ''=;&''"
  by (simp add: is_char_class char_class_def)

lemma hex_text_query: "hex_text x \<Longrightarrow> is_char x 0x3F \<and> x \<notin> set ''=;&''"
  using hex_text_class [of x] hex_digits_no_delimiter [of x] by auto

interpretation key_codec:
  codec "encode_key_char 0x1F" decode_plus "\<lambda>x. is_char x 0x3F \<and> x \<notin> set ''=;&''"
proof
  fix c t s assume "encode_key_char 0x1F c = Ret t"
  then show "decode_plus (t @ s) = exec_bind (decode_plus s) (\<lambda>u. Ret (c # u))"
    by (cases rule: encode_key_cases)
       (simp_all add: decode_plus_plain decode_plus_special decode_percent is_char_not_percent
          del: decode_plus.simps(2))
next
  fix c t assume "encode_key_char 0x1F c = Ret t"
  then show "\<forall>x\<in>set t. is_char x 0x3F \<and> x \<notin> set ''=;&''"
    by (cases rule: encode_key_cases)
       (use special_class mask_class(3) [of c] hex_text_query percent_safe [of c t] in auto)
qed (auto simp: encode_key_char_def percent_pair)

interpretation val_codec:
  codec "encode_val_char 0x1F" decode_plus "\<lambda>x. is_char x 0x3F \<and> x \<notin> set '';&''"
proof
  fix c t s assume "encode_val_char 0x1F c = Ret t"
  then show "decode_plus (t @ s) = exec_bind (decode_plus s) (\<lambda>u. Ret (c # u))"
    by (cases rule: encode_val_cases)
       (simp_all add: decode_plus_plain decode_plus_special decode_percent is_char_not_percent
          del: decode_plus.simps(2))
next
  fix c t assume "encode_val_char 0x1F c = Ret t"
  then show "\<forall>x\<in>set t. is_char x 0x3F \<and> x \<notin> set '';&''"
    by (cases rule: encode_val_cases)
       (use special_class mask_class(3) [of c] hex_text_query percent_safe [of c t] in auto)
qed (auto simp: encode_val_char_def percent_pair)

end
