(* ===== verification/Url_Host.thy ===== *)
theory Url_Host
  imports Url_Codec
begin

text \<open>
  Host names of Url.cpp: the tests for IPv4 and IPv6 addresses and \<open>normalize_IPv6\<close>. That
  function works on two fixed arrays through indices it does not check; an index outside
  them is \<open>UB\<close> here.
\<close>

subsection \<open>IPv4\<close>

definition is_ipv4 :: "string \<Rightarrow> bool" where
  "is_ipv4 s =
     (if length s < 7 \<or> length s > 254 then False
      else list_all (\<lambda>c. c = CHR ''.'' \<or> is_num c) s)"

definition after_dot :: "string \<Rightarrow> string option" where
  \<comment> \<open>\<open>s != e && *s++ == '.'\<close>\<close>
  "after_dot s = (case s of [] \<Rightarrow> None | c # t \<Rightarrow> if c = CHR ''.'' then Some t else None)"

definition is_valid_ipv4 :: "string \<Rightarrow> bool" where
  "is_valid_ipv4 s =
     ((is_uint s 255 \<bind> after_dot \<bind> (\<lambda>s. is_uint s 255) \<bind> after_dot
       \<bind> (\<lambda>s. is_uint s 255) \<bind> after_dot \<bind> (\<lambda>s. is_uint s 255)) = Some [])"

subsection \<open>IPv6\<close>

definition is_ipv6 :: "string \<Rightarrow> bool" where
  "is_ipv6 s =
     (if length s < 2 \<or> length s > 254 then False
      else list_all (\<lambda>c. c = CHR '':'' \<or> c = CHR ''.'' \<or> is_hexdigit c) s)"

fun ipv6_loop :: "string \<Rightarrow> bool \<Rightarrow> nat \<Rightarrow> nat \<Rightarrow> string \<Rightarrow> string \<Rightarrow> bool" where
  \<comment> \<open>\<open>s\<close> is the whole address, \<open>b\<close> begins the current field, \<open>p\<close> is what is left\<close>
  "ipv6_loop s null_field nfields ndigits b [] =
     (if ndigits > 0
      then (\<not> null_field \<and> nfields + 1 = 8) \<or> (null_field \<and> nfields + 1 < 8)
      else if s ! (length s - 1) = CHR '':'' then s ! (length s - 2) = CHR '':'' \<and> nfields < 8
      else (\<not> null_field \<and> nfields = 8) \<or> (null_field \<and> nfields < 8))"
| "ipv6_loop s null_field nfields ndigits b (c # p) =
     (if c = CHR ''.'' then
        ((\<not> null_field \<and> nfields = 6) \<or> (null_field \<and> nfields < 7)) \<and> is_valid_ipv4 b
      else if c = CHR '':'' then
        (if ndigits = 0
         then (if null_field then False else ipv6_loop s True nfields ndigits p p)
         else ipv6_loop s null_field (nfields + 1) 0 p p)
      else if ndigits + 1 > 4 \<or> \<not> is_hexdigit c then False
      else ipv6_loop s null_field nfields (ndigits + 1) b p)"

definition is_valid_ipv6 :: "string \<Rightarrow> bool" where
  "is_valid_ipv6 s =
     (if length s > 39 \<or> length s < 2 then False
      else if s ! 0 = CHR '':'' then
        (if s ! 1 \<noteq> CHR '':'' then False
         else if drop 2 s = [] then True
         else ipv6_loop s True 0 0 (drop 2 s) (drop 2 s))
      else ipv6_loop s False 0 0 s s)"

subsection \<open>Normalising an IPv6 address\<close>

fun split_colons :: "string \<Rightarrow> string list \<times> string" where
  \<comment> \<open>the pieces up to and including each colon, and what follows the last\<close>
  "split_colons [] = ([], [])"
| "split_colons (c # s) =
     (let (ts, r) = split_colons s in
      if c = CHR '':'' then ([c] # ts, r)
      else case ts of [] \<Rightarrow> ([], c # r) | t # ts \<Rightarrow> ((c # t) # ts, r))"

definition ipv6_tokens :: "string \<Rightarrow> string list exec" where
  \<comment> \<open>\<open>tokens\<close> has ten entries, the last of which marks the end\<close>
  "ipv6_tokens s =
     (let p = (if s ! 0 = CHR '':'' then drop 1 s else s);
          p = (if s ! (length s - 1) = CHR '':'' then butlast p else p);
          (ts, r) = split_colons p;
          i = length ts in
      if i \<ge> 10 then UB
      else if i < 8 then Ret (ts @ [r])
      else Ret (butlast ts @ [last ts @ r]))"

definition field_value :: "string \<Rightarrow> 16 word" where
  \<comment> \<open>a field up to its colon; a character that is no digit counts as -1\<close>
  "field_value t =
     (case takeWhile (\<lambda>c. c \<noteq> CHR '':'') t of
        [] \<Rightarrow> 0
      | c # u \<Rightarrow> foldl (\<lambda>f d. push_bit 4 f OR word_of_int (get_hex_digit d)) (word_of_int (get_hex_digit c)) u)"

fun decode_fields :: "nat \<Rightarrow> string list \<Rightarrow> nat \<Rightarrow> 16 word list \<Rightarrow> (nat \<times> 16 word list) exec" where
  \<comment> \<open>\<open>null_pos\<close> and the fields decoded so far\<close>
  "decode_fields i [] null_pos fields = Ret (null_pos, fields)"
| "decode_fields i (t # ts) null_pos fields =
     (if t = [] \<or> hd t = CHR '':'' then decode_fields (i + 1) ts i fields
      else if length fields \<ge> 8 then UB
      else decode_fields (i + 1) ts null_pos (fields @ [field_value t]))"

definition expand_fields :: "nat \<Rightarrow> nat \<Rightarrow> 16 word list \<Rightarrow> 16 word list exec" where
  \<comment> \<open>the two loops that move the fields behind the gap to the end and clear the gap: the
     first runs off the array when it never meets \<open>null_pos\<close>\<close>
  "expand_fields nfields null_pos fields =
     (let i = length fields in
      if i < nfields then
        (if null_pos > i then UB
         else Ret (take null_pos fields @ replicate (nfields - i) 0 @ drop null_pos fields))
      else Ret (take nfields fields))"

function zero_run :: "nat \<Rightarrow> 16 word list \<Rightarrow> nat \<times> nat \<Rightarrow> nat \<times> nat" where
  \<comment> \<open>the first longest run of zero fields: position and length\<close>
  "zero_run i rest (null_pos, null_len) =
     (let skip = length (takeWhile (\<lambda>f. f \<noteq> 0) rest);
          rest1 = drop skip rest in
      if rest1 = [] then (null_pos, null_len)
      else
        let first = i + skip;
            run = length (takeWhile (\<lambda>f. f = 0) rest1);
            rest2 = drop run rest1;
            (null_pos, null_len) = (if run > null_len then (first, run) else (null_pos, null_len)) in
        if rest2 = [] then (null_pos, null_len)
        else zero_run (first + run) rest2 (null_pos, null_len))"
  by pat_completeness auto
termination
proof (relation "measure (\<lambda>(i, rest, _). length rest)", goal_cases)
  case 1
  show ?case by simp
next
  case (2 i rest null_pos null_len skip rest1 first run rest2 x xa y)
  let ?d = "dropWhile (\<lambda>f. f \<noteq> 0) rest"
  have d: "rest1 = ?d" using 2 by (simp add: dropWhile_eq_drop)
  with 2 obtain a l where al: "?d = a # l" by (cases ?d) auto
  then have "a = 0" using hd_dropWhile [of "\<lambda>f. f \<noteq> 0" rest] by simp
  with d al have r1: "rest1 = 0 # l" by simp
  have "run > 0" using 2(5) unfolding r1 by simp
  moreover have "length rest1 \<le> length rest" "rest1 \<noteq> []" "rest2 = drop run rest1" using 2 by simp_all
  ultimately show ?case by (cases rest1) auto
qed

declare zero_run.simps [simp del]

definition to_hex16 :: "16 word \<Rightarrow> string" where
  "to_hex16 f = to_hex (unat f)"

definition format_ipv6 :: "16 word list \<Rightarrow> string option \<Rightarrow> string" where
  "format_ipv6 fields ipv4 =
     (let nfields = length fields;
          (null_pos, null_len) = zero_run 0 fields (nfields, 0);
          null_pos = (if null_len = 1 then nfields else null_pos);
          (str, i) =
            (if null_pos = 0 then ('':'', null_len)
             else
               (let str = to_hex16 (fields ! 0) @ concat (map (\<lambda>f. CHR '':'' # to_hex16 f) (drop 1 (take null_pos fields)));
                    i = max 1 null_pos;
                    str = (if i < nfields then str @ '':'' else str);
                    i = i + null_len;
                    str = (if i = 8 \<and> null_len \<noteq> 0 then str @ '':'' else str)
                in (str, i)));
          str = str @ concat (map (\<lambda>f. CHR '':'' # to_hex16 f) (drop i fields))
      in case ipv4 of None \<Rightarrow> str | Some a \<Rightarrow> str @ '':'' @ a)"

definition normalize_IPv6 :: "string \<Rightarrow> string exec" where
  "normalize_IPv6 s =
     (if \<not> is_ipv6 s then Throw (parse_error (''IPv6 ['' @ s @ ''] is invalid''))
      else if s = ''::'' then Ret s
      else
        exec_bind (ipv6_tokens s) (\<lambda>tokens.
          let ipv4 = (if length (last tokens) > 5 then Some (last tokens) else None);
              tokens = (if ipv4 = None then tokens else butlast tokens);
              nfields = (if ipv4 = None then 8 else 6) in
          exec_bind (decode_fields 0 tokens 8 []) (\<lambda>(null_pos, fields).
          exec_bind (expand_fields nfields null_pos fields) (\<lambda>fields.
          Ret (format_ipv6 fields ipv4)))))"

end
