(* ===== verification/Url_Path.thy ===== *)
theory Url_Path
  imports Url_Chars
begin

text \<open>
  \<open>normalize_path\<close> of Url.cpp: a path is read piece by piece with \<open>std::getline\<close> up to
  each slash; empty pieces and dots are dropped and a double dot drops the piece before it.
  The last piece, which ends at the end of the text, is treated apart.
\<close>

fun split_slash :: "string \<Rightarrow> string list" where
  \<comment> \<open>the pieces that \<open>getline\<close> yields; the last one is read at the end of the stream\<close>
  "split_slash [] = [[]]"
| "split_slash (c # s) =
     (if c = CHR ''/'' then [] # split_slash s
      else case split_slash s of [] \<Rightarrow> [[c]] | p # ps \<Rightarrow> (c # p) # ps)"

definition path_step :: "string list \<Rightarrow> string \<Rightarrow> string list" where
  "path_step elems elem =
     (if elem = [] \<or> elem = ''.'' then elems
      else if elem = ''..'' then (if elems \<noteq> [] then butlast elems else elems)
      else elems @ [elem])"

definition path_last :: "string list \<Rightarrow> string \<Rightarrow> string list" where
  "path_last elems elem =
     (if elem = ''.'' then elems @ [[]]
      else if elem = ''..'' then (if elems \<noteq> [] then butlast elems else elems)
      else elems @ [elem])"

fun join_slash :: "string list \<Rightarrow> string" where
  "join_slash [] = []"
| "join_slash [p] = p"
| "join_slash (p # ps) = p @ CHR ''/'' # join_slash ps"

definition normalize_path :: "string \<Rightarrow> string" where
  "normalize_path s =
     (if s = [] then s
      else
        let pieces = split_slash s;
            elems = foldl path_step [] (butlast pieces);
            elems = path_last elems (last pieces)
        in (if hd s = CHR ''/'' then ''/'' else []) @ join_slash elems)"

subsection \<open>Splitting and joining\<close>

lemma split_slash_nonempty [simp]: "split_slash s \<noteq> []"
  by (induction s) (auto split: list.splits)

lemma split_slash_pieces: "p \<in> set (split_slash s) \<Longrightarrow> CHR ''/'' \<notin> set p"
  by (induction s arbitrary: p) (auto split: list.splits if_splits)

lemma split_slash_piece: "CHR ''/'' \<notin> set p \<Longrightarrow> split_slash p = [p]"
  by (induction p) auto

lemma split_slash_append:
  "CHR ''/'' \<notin> set p \<Longrightarrow> split_slash (p @ CHR ''/'' # s) = p # split_slash s"
  by (induction p) (auto split: list.splits)

lemma split_join:
  "ps \<noteq> [] \<Longrightarrow> \<forall>p\<in>set ps. CHR ''/'' \<notin> set p \<Longrightarrow> split_slash (join_slash ps) = ps"
  by (induction ps rule: join_slash.induct) (auto simp: split_slash_append split_slash_piece)

lemma join_split [simp]: "join_slash (split_slash s) = s"
proof (induction s)
  case (Cons c s)
  obtain p ps where "split_slash s = p # ps" by (cases "split_slash s") auto
  with Cons show ?case by (cases ps) auto
qed simp

lemma hd_split_slash: "s \<noteq> [] \<Longrightarrow> hd s = CHR ''/'' \<longleftrightarrow> hd (split_slash s) = []"
  by (cases s) (auto split: list.splits)

subsection \<open>Normal paths\<close>

definition good_piece :: "string \<Rightarrow> bool" where
  "good_piece p \<longleftrightarrow> p \<noteq> [] \<and> p \<noteq> ''.'' \<and> p \<noteq> ''..'' \<and> CHR ''/'' \<notin> set p"

definition good_elems :: "string list \<Rightarrow> bool" where
  \<comment> \<open>the last piece may be empty: a slash at the end\<close>
  "good_elems ps \<longleftrightarrow> list_all good_piece (butlast ps) \<and> (ps = [] \<or> last ps = [] \<or> good_piece (last ps))"

lemma path_step_good: "list_all good_piece ps \<Longrightarrow> CHR ''/'' \<notin> set p \<Longrightarrow> list_all good_piece (path_step ps p)"
  by (auto simp: path_step_def good_piece_def list_all_iff dest: in_set_butlastD)

lemma fold_good:
  "list_all good_piece ps \<Longrightarrow> \<forall>p\<in>set qs. CHR ''/'' \<notin> set p \<Longrightarrow>
   list_all good_piece (foldl path_step ps qs)"
  by (induction qs arbitrary: ps) (auto intro: path_step_good)

lemma fold_id: "list_all good_piece qs \<Longrightarrow> foldl path_step ps qs = ps @ qs"
  by (induction qs arbitrary: ps) (auto simp: path_step_def good_piece_def)

lemma path_last_good:
  assumes "list_all good_piece ps" "CHR ''/'' \<notin> set p"
  shows "good_elems (path_last ps p)"
proof -
  have "good_elems qs" if "list_all good_piece qs" for qs
    using that by (cases qs rule: rev_cases) (auto simp: good_elems_def)
  moreover have "list_all good_piece (butlast ps)"
    using assms(1) by (auto simp: list_all_iff dest: in_set_butlastD)
  ultimately show ?thesis
    using assms by (auto simp: path_last_def good_elems_def good_piece_def)
qed

definition path_elems :: "string \<Rightarrow> string list" where
  "path_elems s = path_last (foldl path_step [] (butlast (split_slash s))) (last (split_slash s))"

lemma normalize_path_elems:
  "s \<noteq> [] \<Longrightarrow> normalize_path s = (if hd s = CHR ''/'' then ''/'' else []) @ join_slash (path_elems s)"
  by (simp add: normalize_path_def path_elems_def Let_def)

lemma path_elems_good: "good_elems (path_elems s)"
proof -
  have "\<forall>p\<in>set (butlast (split_slash s)). CHR ''/'' \<notin> set p" "CHR ''/'' \<notin> set (last (split_slash s))"
    using split_slash_pieces [of _ s] in_set_butlastD last_in_set [of "split_slash s"] by fastforce+
  then show ?thesis
    unfolding path_elems_def by (intro path_last_good fold_good) simp_all
qed

lemma good_elems_piece: "good_elems ps \<Longrightarrow> p \<in> set ps \<Longrightarrow> p = [] \<or> good_piece p"
proof -
  assume "good_elems ps" "p \<in> set ps"
  moreover have "p \<in> set (butlast ps) \<or> p = last ps"
    using \<open>p \<in> set ps\<close> by (cases ps rule: rev_cases) auto
  ultimately show ?thesis by (auto simp: good_elems_def list_all_iff)
qed

lemma good_elems_no_slash: "good_elems ps \<Longrightarrow> p \<in> set ps \<Longrightarrow> CHR ''/'' \<notin> set p"
  by (drule (1) good_elems_piece) (auto simp: good_piece_def)

lemma good_elems_fixed:
  assumes "good_elems ps" "ps \<noteq> []"
  shows "path_last (foldl path_step [] (butlast ps)) (last ps) = ps"
  using assms fold_id [of "butlast ps" "[]"]
  by (auto simp: good_elems_def path_last_def good_piece_def)

lemma good_elems_split: "good_elems ps \<Longrightarrow> ps \<noteq> [] \<Longrightarrow> split_slash (join_slash ps) = ps"
  using good_elems_no_slash by (intro split_join) auto

lemma normal_absolute:
  assumes "good_elems ps"
  shows "normalize_path (CHR ''/'' # join_slash ps) = CHR ''/'' # join_slash ps"
proof (cases "ps = []")
  case True
  then show ?thesis by (simp add: normalize_path_def path_step_def path_last_def)
next
  case False
  have "path_step [] [] = []" by (simp add: path_step_def)
  with good_elems_fixed [OF assms False] good_elems_split [OF assms False] False show ?thesis
    by (simp add: normalize_path_elems path_elems_def)
qed

lemma normal_relative:
  assumes "good_elems ps"
  shows "normalize_path (join_slash ps) = join_slash ps"
proof (cases "join_slash ps = []")
  case True
  then show ?thesis by (simp add: normalize_path_def)
next
  case False
  then have ne: "ps \<noteq> []" by auto
  have "hd ps \<noteq> []"
    using assms ne False by (cases ps rule: join_slash.cases) (auto simp: good_elems_def good_piece_def)
  then have "hd (join_slash ps) \<noteq> CHR ''/''"
    using hd_split_slash [OF False] good_elems_split [OF assms ne] by simp
  with good_elems_fixed [OF assms ne] good_elems_split [OF assms ne] False show ?thesis
    by (simp add: normalize_path_elems path_elems_def)
qed

lemma normalize_path_fixed: "normalize_path (normalize_path s) = normalize_path s"
proof (cases "s = []")
  case False
  then show ?thesis
    using normal_absolute [OF path_elems_good] normal_relative [OF path_elems_good]
    by (simp add: normalize_path_elems)
qed (simp add: normalize_path_def)

lemma good_elems_no_dots: "good_elems ps \<Longrightarrow> p \<in> set ps \<Longrightarrow> p \<noteq> ''.'' \<and> p \<noteq> ''..''"
  by (drule (1) good_elems_piece) (auto simp: good_piece_def)

lemma normal_pieces:
  "p \<in> set (split_slash (normalize_path s)) \<Longrightarrow> p \<noteq> ''.'' \<and> p \<noteq> ''..''"
proof (cases "s = []")
  case False
  assume p: "p \<in> set (split_slash (normalize_path s))"
  have "split_slash (join_slash (path_elems s)) = [[]] \<or> split_slash (join_slash (path_elems s)) = path_elems s"
    using good_elems_split [OF path_elems_good [of s]] by (cases "path_elems s = []") auto
  with p False show ?thesis
    using good_elems_no_dots [OF path_elems_good [of s], of p]
    by (auto simp: normalize_path_elems split: if_splits)
qed (simp add: normalize_path_def)

end
