(* ===== verification/Url.thy ===== *)
theory Url
  imports Url_Host Url_Path
begin

text \<open>
  The class \<open>Url\<close> (Url.hpp, Url.cpp): the text of a URL and its parsed parts, each of which
  is computed from the other when needed. \<open>m_parse\<close> says that the parts are valid,
  \<open>m_built\<close> that the text is. A member function is a function of the object; one that may
  parse first returns the object with its result. When it throws, the object keeps its
  parts or holds the parsed form of the same text, which no call can tell apart
  (\<open>Url_Copy\<close>).
\<close>

subsection \<open>The object\<close>

record KeyVal =
  m_key :: string
  m_val :: string

record url =
  m_scheme :: string
  m_user :: string
  m_host :: string
  m_port :: string
  m_path :: string
  m_query :: "KeyVal list"
  m_fragment :: string
  m_url :: string
  m_parse :: bool
  m_built :: bool
  m_ip_v :: "8 word"

definition new_url :: url where
  "new_url = \<lparr>m_scheme = [], m_user = [], m_host = [], m_port = [], m_path = [], m_query = [],
     m_fragment = [], m_url = [], m_parse = True, m_built = True, m_ip_v = - 1\<rparr>"

definition url_of_string :: "string \<Rightarrow> url" where
  "url_of_string url_str = new_url\<lparr>m_url := url_str, m_parse := False, m_built := False\<rparr>"

definition set_str :: "string \<Rightarrow> url \<Rightarrow> url" where
  "set_str url_str u = u\<lparr>m_url := url_str, m_built := False, m_parse := False\<rparr>"

definition assign :: "url \<Rightarrow> url \<Rightarrow> url" where
  \<comment> \<open>\<open>assign u this\<close>\<close>
  "assign u this =
     (let this = this\<lparr>m_parse := m_parse u, m_built := m_built u\<rparr>;
          this = (if m_parse this
                  then this\<lparr>m_scheme := m_scheme u, m_user := m_user u, m_host := m_host u,
                            m_ip_v := m_ip_v u, m_port := m_port u, m_path := m_path u,
                            m_query := m_query u, m_fragment := m_fragment u\<rparr>
                  else this)
      in if \<not> m_parse this \<or> m_built this then this\<lparr>m_url := m_url u\<rparr> else this)"

definition clear :: "url \<Rightarrow> url" where
  "clear u = u\<lparr>m_url := [], m_scheme := [], m_user := [], m_host := [], m_port := [], m_path := [],
     m_query := [], m_fragment := [], m_ip_v := - 1, m_built := True, m_parse := True\<rparr>"

subsection \<open>Parsing\<close>

definition quoted :: "string \<Rightarrow> string" where
  "quoted s = CHR 0x27 # s @ [CHR 0x27]"

definition invalid :: "string \<Rightarrow> string \<Rightarrow> 'a exec" where
  \<comment> \<open>"what in 's' is invalid"\<close>
  "invalid what s = Throw (parse_error (what @ '' in '' @ quoted s @ '' is invalid''))"

definition parse_ip_literal :: "string \<Rightarrow> string \<Rightarrow> (8 word \<times> string \<times> string) exec" where
  \<comment> \<open>\<open>b\<close> begins after the bracket; the result has the version, the host, and what follows the
     closing bracket\<close>
  "parse_ip_literal s b =
     (let (lit, r) = find_char CHR '']'' b in
      if r = [] then Throw (parse_error (''Missing ] in '' @ quoted s))
      else if lit \<noteq> [] \<and> hd lit = CHR ''v'' then
        (let (ip_v :: 8 word, b) =
               (case tl lit of
                  [] \<Rightarrow> (- 1, [])
                | d # b \<Rightarrow>
                    if is_hexdigit d then
                      (let ip_v = word_of_int (get_hex_digit d) in
                       if b \<noteq> [] \<and> is_hexdigit (hd b)
                       then (word_of_int (push_bit 8 (sint ip_v) OR get_hex_digit (hd b)), b)
                       else (ip_v, b))
                    else (- 1, d # b))
         in if ip_v = - 1 \<or> b = [] \<or> hd b \<noteq> CHR ''.'' \<or> \<not> is_chars (tl b) 0x05
            then invalid ''Host address'' s
            else Ret (ip_v, tl b, tl r))
      else if is_ipv6 lit then Ret (6, lit, tl r)
      else invalid ''Host address'' s)"

definition parse_user :: "string \<Rightarrow> string \<Rightarrow> (string option \<times> string) exec" where
  \<comment> \<open>the user info, if any, and the rest of the authority\<close>
  "parse_user s a =
     (let (usr, r) = find_char CHR ''@'' a in
      if r \<noteq> [] then
        (if \<not> is_chars usr 0x05 then invalid ''User info'' s else Ret (Some usr, tl r))
      else Ret (None, a))"

definition parse_host :: "string \<Rightarrow> string \<Rightarrow> (8 word \<times> string \<times> string) exec" where
  "parse_host s b =
     (if b \<noteq> [] \<and> hd b = CHR ''['' then parse_ip_literal s (tl b)
      else
        let (h, r) = find_char CHR '':'' b in
        if is_ipv4 h then Ret (4, h, r)
        else if is_reg_name h then Ret (0, h, r)
        else invalid ''Host address'' s)"

definition parse_port :: "string \<Rightarrow> string \<Rightarrow> string option exec" where
  \<comment> \<open>anything but a colon after the host is skipped\<close>
  "parse_port s b =
     (if b \<noteq> [] \<and> hd b = CHR '':'' then
        (if \<not> is_port (tl b) then invalid (''Port '' @ quoted (tl b)) s else Ret (Some (tl b)))
      else Ret None)"

definition parse_authority ::
  "string \<Rightarrow> string \<Rightarrow> (string option \<times> 8 word \<times> string \<times> string option) exec" where
  \<comment> \<open>the range from the two slashes to \<open>ea\<close>: user info, IP version, host, port\<close>
  "parse_authority s a =
     exec_bind (parse_user s a) (\<lambda>(user, b).
     exec_bind (parse_host s b) (\<lambda>(ip_v, host, b).
     exec_bind (parse_port s b) (\<lambda>port.
     Ret (user, ip_v, host, port))))"

function parse_query :: "string \<Rightarrow> string \<Rightarrow> KeyVal list exec" where
  \<comment> \<open>one round of the loop for each entry; \<open>b\<close> is what is left of the query\<close>
  "parse_query s b =
     (let (k, r) = find_first_of ''=;&'' b in
      if \<not> is_chars k 0x3F then invalid (''Query key '' @ quoted k) s
      else exec_bind (decode_plus k) (\<lambda>key.
        case r of
          [] \<Rightarrow> Ret [\<lparr>m_key = key, m_val = []\<rparr>]
        | c # b \<Rightarrow>
            if c = CHR ''='' then
              (let (v, r) = find_first_of '';&'' b in
               if \<not> is_chars v 0x3F then invalid (''Query value '' @ quoted v) s
               else exec_bind (decode_plus v) (\<lambda>val.
                 case r of
                   [] \<Rightarrow> Ret [\<lparr>m_key = key, m_val = val\<rparr>]
                 | _ # b \<Rightarrow>
                     exec_bind (parse_query s b) (\<lambda>q. Ret (\<lparr>m_key = key, m_val = val\<rparr> # q))))
            else exec_bind (parse_query s b) (\<lambda>q. Ret (\<lparr>m_key = key, m_val = []\<rparr> # q))))"
  by pat_completeness auto
termination
proof (relation "measure (\<lambda>(s, b). length b)", goal_cases)
  case 1
  show ?case by simp
next
  case (2 s b p k r key c b1 p1 v r1 val c1 b2)
  then have "length (c # b1) \<le> length b" "length (c1 # b2) \<le> length b1"
    by (metis find_first_of_def length_dropWhile_le prod.inject)+
  then show ?case by simp
next
  case (3 s b p k r key c b1)
  then have "length (c # b1) \<le> length b"
    by (metis find_first_of_def length_dropWhile_le prod.inject)
  then show ?case by simp
qed

declare parse_query.simps [simp del]

text \<open>
  The first half of \<open>parse_url\<close> cuts the text into ranges and checks their characters; the
  second half decodes them. A range that is not there is \<open>None\<close>.
\<close>

record ranges =
  r_scheme :: "string option"
  r_user :: "string option"
  r_host :: "string option"
  r_ip_v :: "8 word"
  r_port :: "string option"
  r_path :: string
  r_query :: "string option"
  r_fragment :: "string option"

definition parse_tail ::
  "string \<Rightarrow> string option \<Rightarrow> (string option \<times> 8 word \<times> string \<times> string option) option \<Rightarrow> string \<Rightarrow>
   ranges exec" where
  \<comment> \<open>path, query and fragment\<close>
  "parse_tail s scheme auth b =
     (let (pth, p) = find_first_of ''?#'' b in
      if \<not> is_chars pth 0x2F then invalid (''Path '' @ quoted pth) s
      else
        let (qry, p) =
              (if p \<noteq> [] \<and> hd p = CHR ''?'' then
                 (let (qry, p) = find_char CHR ''#'' (tl p) in (Some qry, p))
               else (None, p)) in
        exec_bind
          (if p \<noteq> [] \<and> hd p = CHR ''#'' then
             (if \<not> is_chars (tl p) 0x3F then invalid (''Fragment '' @ quoted (tl p)) s
              else Ret (Some (tl p)))
           else Ret None) (\<lambda>frag.
        Ret \<lparr>r_scheme = scheme,
             r_user = (case auth of None \<Rightarrow> None | Some (user, _, _, _) \<Rightarrow> user),
             r_host = map_option (\<lambda>(_, _, host, _). host) auth,
             r_ip_v = (case auth of None \<Rightarrow> - 1 | Some (_, ip_v, _, _) \<Rightarrow> ip_v),
             r_port = (case auth of None \<Rightarrow> None | Some (_, _, _, port) \<Rightarrow> port),
             r_path = pth, r_query = qry, r_fragment = frag\<rparr>))"

definition parse_hier :: "string \<Rightarrow> string option \<Rightarrow> string \<Rightarrow> ranges exec" where
  \<comment> \<open>what follows the scheme\<close>
  "parse_hier s scheme b =
     (if length b > 1 \<and> b ! 0 = CHR ''/'' \<and> b ! 1 = CHR ''/'' then
        (let (a, r) = find_first_of ''/?#'' (drop 2 b) in
         exec_bind (parse_authority s a) (\<lambda>auth. parse_tail s scheme (Some auth) r))
      else parse_tail s scheme None b)"

definition parse_ranges :: "string \<Rightarrow> ranges exec" where
  "parse_ranges s =
     (let (b, p) = find_first_of '':/?#'' s in
      if p = [] then
        (if \<not> is_chars b 0x2F then invalid (''Path '' @ quoted b) s
         else Ret \<lparr>r_scheme = None, r_user = None, r_host = None, r_ip_v = - 1, r_port = None,
                   r_path = s, r_query = None, r_fragment = None\<rparr>)
      else if hd p = CHR '':'' then
        (if \<not> is_scheme b then invalid ''Scheme'' s else parse_hier s (Some b) (tl p))
      else parse_hier s None s)"

definition decode_range :: "(string \<Rightarrow> string exec) \<Rightarrow> string option \<Rightarrow> string exec" where
  \<comment> \<open>an absent range leaves the default empty string\<close>
  "decode_range f r = (case r of None \<Rightarrow> Ret [] | Some t \<Rightarrow> f t)"

definition decode_host :: "8 word \<Rightarrow> string \<Rightarrow> string exec" where
  "decode_host ip_v h =
     exec_bind (decode h) (\<lambda>h.
       if ip_v = 0 then Ret (normalize_reg_name h)
       else if ip_v = 6 then normalize_IPv6 h
       else Ret h)"

definition parse_url :: "url \<Rightarrow> url exec" where
  "parse_url u =
     (if m_url u = [] then Ret ((clear u)\<lparr>m_parse := True, m_built := True\<rparr>)
      else if length (m_url u) > 8000 then
        Throw (parse_error ''URI is longer than 8000 characters'')
      else
        let s = m_url u in
        exec_bind (parse_ranges s) (\<lambda>r.
        exec_bind (decode_range (\<lambda>t. Ret (normalize_scheme t)) (r_scheme r)) (\<lambda>scheme.
        exec_bind (decode_range decode (r_user r)) (\<lambda>user.
        exec_bind (decode_range (decode_host (r_ip_v r)) (r_host r)) (\<lambda>host.
        exec_bind (decode_range Ret (r_port r)) (\<lambda>port.
        exec_bind (decode (r_path r)) (\<lambda>pth.
        exec_bind (case r_query r of None \<Rightarrow> Ret []
                   | Some q \<Rightarrow> if q = [] then Ret [] else parse_query s q) (\<lambda>qry.
        exec_bind (decode_range decode (r_fragment r)) (\<lambda>frag.
        Ret (u\<lparr>m_scheme := scheme, m_user := user, m_host := host, m_ip_v := r_ip_v r,
               m_port := port, m_path := normalize_path pth, m_query := qry, m_fragment := frag,
               m_parse := True, m_built := False\<rparr>))))))))))"

definition lazy_parse :: "url \<Rightarrow> url exec" where
  "lazy_parse u = (if \<not> m_parse u then parse_url u else Ret u)"

end
