(* ===== verification/Url_Build.thy ===== *)
theory Url_Build
  imports Url
begin

text \<open>
  The other direction of the class \<open>Url\<close>: \<open>build_url\<close> writes the text from the parts, and
  the setters change a part after checking it. The default arguments of the setters are
  written out.
\<close>

subsection \<open>Building\<close>

definition http_default_port :: "url \<Rightarrow> bool" where
  "http_default_port u = ((m_scheme u = ''http'' \<and> m_port u = ''80'')
                        \<or> (m_scheme u = ''https'' \<and> m_port u = ''443''))"

definition build_authority :: "url \<Rightarrow> string exec" where
  "build_authority u =
     (if m_host u \<noteq> [] then
        exec_bind (if m_user u \<noteq> [] then exec_bind (encode (m_user u) 0x05) (\<lambda>t. Ret (t @ ''@'')) else Ret [])
          (\<lambda>user.
        let host =
              (if m_ip_v u = 0 \<or> m_ip_v u = 4 then m_host u
               else if m_ip_v u = 6 then ''['' @ m_host u @ '']''
               else ''[v'' @ to_hex (unat (word_of_int (sint (m_ip_v u)) :: 32 word)) @ ''.'' @ m_host u @ '']'');
            port = (if m_port u \<noteq> [] \<and> \<not> http_default_port u then '':'' @ m_port u else [])
        in Ret (''//'' @ user @ host @ port))
      else if m_user u \<noteq> [] then Throw (build_error ''User info defined, but host is empty'')
      else if m_port u \<noteq> [] then Throw (build_error ''Port defined, but host is empty'')
      else if m_path u \<noteq> [] \<and> (let (_, p) = find_first_of '':/'' (m_path u) in p \<noteq> [] \<and> hd p = CHR '':'')
      then Throw (build_error (''The first segment of the relative path can'' @ [CHR 0x27] @ ''t contain '' @ quoted '':''))
      else Ret [])"

definition build_path :: "url \<Rightarrow> string exec" where
  "build_path u =
     (if m_path u \<noteq> [] then
        (if hd (m_path u) \<noteq> CHR ''/'' \<and> m_host u \<noteq> []
         then Throw (build_error (''Path must start with '' @ quoted ''/'' @ '' when host is not empty''))
         else encode (m_path u) 0x0F)
      else Ret [])"

definition build_entry :: "string \<Rightarrow> KeyVal \<Rightarrow> string exec" where
  \<comment> \<open>one query entry; the text of the error for an empty key\<close>
  "build_entry err kv =
     (if m_key kv = [] then Throw (build_error err)
      else
        exec_bind (encode_query_key (m_key kv) 0x1F) (\<lambda>k.
        exec_bind
          (if m_val kv \<noteq> [] then exec_bind (encode_query_val (m_val kv) 0x1F) (\<lambda>v. Ret (''='' @ v)) else Ret [])
          (\<lambda>v. Ret (k @ v))))"

fun build_entries :: "KeyVal list \<Rightarrow> string exec" where
  "build_entries [] = Ret []"
| "build_entries (kv # q) =
     exec_bind (build_entry ''A query entry has no key'' kv) (\<lambda>t.
     exec_bind (build_entries q) (\<lambda>u. Ret (''&'' @ t @ u)))"

definition build_query :: "url \<Rightarrow> string exec" where
  "build_query u =
     (case m_query u of
        [] \<Rightarrow> Ret []
      | kv # q \<Rightarrow>
          exec_bind (build_entry ''First query entry has no key'' kv) (\<lambda>t.
          exec_bind (build_entries q) (\<lambda>u. Ret (''?'' @ t @ u))))"

definition build_fragment :: "url \<Rightarrow> string exec" where
  "build_fragment u =
     (if m_fragment u \<noteq> [] then exec_bind (encode (m_fragment u) 0x1F) (\<lambda>t. Ret (''#'' @ t)) else Ret [])"

definition build_url :: "url \<Rightarrow> url exec" where
  "build_url u =
     exec_bind (lazy_parse u) (\<lambda>u.
     exec_bind (build_authority u) (\<lambda>auth.
     exec_bind (build_path u) (\<lambda>pth.
     exec_bind (build_query u) (\<lambda>qry.
     exec_bind (build_fragment u) (\<lambda>frag.
     let scheme = (if m_scheme u \<noteq> [] then m_scheme u @ '':'' else []) in
     Ret (u\<lparr>m_built := False, m_url := scheme @ auth @ pth @ qry @ frag\<rparr>))))))"

definition str :: "url \<Rightarrow> (string \<times> url) exec" where
  "str u = exec_bind (if \<not> m_built u then build_url u else Ret u) (\<lambda>u. Ret (m_url u, u))"

subsection \<open>Reading the parts\<close>

definition get :: "(url \<Rightarrow> 'a) \<Rightarrow> url \<Rightarrow> ('a \<times> url) exec" where
  \<comment> \<open>each getter parses if needed and returns the part\<close>
  "get part u = exec_bind (lazy_parse u) (\<lambda>u. Ret (part u, u))"

definition get_scheme :: "url \<Rightarrow> (string \<times> url) exec" where "get_scheme = get m_scheme"
definition get_user_info :: "url \<Rightarrow> (string \<times> url) exec" where "get_user_info = get m_user"
definition get_host :: "url \<Rightarrow> (string \<times> url) exec" where "get_host = get m_host"
definition get_ip_version :: "url \<Rightarrow> (8 word \<times> url) exec" where "get_ip_version = get m_ip_v"
definition get_port :: "url \<Rightarrow> (string \<times> url) exec" where "get_port = get m_port"
definition get_path :: "url \<Rightarrow> (string \<times> url) exec" where "get_path = get m_path"
definition get_query :: "url \<Rightarrow> (KeyVal list \<times> url) exec" where "get_query = get m_query"
definition get_fragment :: "url \<Rightarrow> (string \<times> url) exec" where "get_fragment = get m_fragment"

definition bad_index :: "nat \<Rightarrow> 'a exec" where
  "bad_index i = Throw (out_of_range (''Invalid Url query index ('' @ to_string i @ '')''))"

definition query_at :: "nat \<Rightarrow> url \<Rightarrow> (KeyVal \<times> url) exec" where
  "query_at i u =
     exec_bind (lazy_parse u) (\<lambda>u. if i \<ge> length (m_query u) then bad_index i else Ret (m_query u ! i, u))"

subsection \<open>Changing the parts\<close>

definition set_scheme :: "string \<Rightarrow> url \<Rightarrow> url exec" where
  "set_scheme s u =
     (if \<not> is_scheme s then Throw (parse_error (''Invalid scheme '' @ quoted s))
      else
        exec_bind (lazy_parse u) (\<lambda>u.
        let o' = to_lower s in
        if o' \<noteq> m_scheme u then
          (let u = u\<lparr>m_scheme := o', m_built := False\<rparr> in
           Ret (if http_default_port u then u\<lparr>m_port := []\<rparr> else u))
        else Ret u))"

definition set_user_info :: "string \<Rightarrow> url \<Rightarrow> url exec" where
  "set_user_info s u =
     (if length s > 256 then Throw (parse_error (''User info is longer than 256 characters '' @ quoted s))
      else exec_bind (lazy_parse u) (\<lambda>u.
        Ret (if m_user u \<noteq> s then u\<lparr>m_user := s, m_built := False\<rparr> else u)))"

definition check_host :: "string \<Rightarrow> 8 word \<Rightarrow> (8 word \<times> string) exec" where
  \<comment> \<open>the version and the text that \<open>host\<close> stores\<close>
  "check_host h ip_v =
     (if h = [] then Ret (- 1, [])
      else if is_ipv4 h then
        (if \<not> is_valid_ipv4 h then Throw (parse_error (''Invalid IPv4 address '' @ quoted h))
         else Ret (4, h))
      else if ip_v \<noteq> 0 \<and> ip_v \<noteq> 4 \<and> ip_v \<noteq> 6 then
        (if \<not> is_ipv6 h then Throw (parse_error (''Invalid IPvFuture address '' @ quoted h))
         else Ret (ip_v, h))
      else if is_ipv6 h then
        (if \<not> is_valid_ipv6 h then Throw (parse_error (''Invalid IPv6 address '' @ quoted h))
         else exec_bind (normalize_IPv6 h) (\<lambda>o'. Ret (6, o')))
      else if is_reg_name h then Ret (0, normalize_reg_name h)
      else Throw (parse_error (''Invalid host '' @ quoted h)))"

definition set_host :: "string \<Rightarrow> 8 word \<Rightarrow> url \<Rightarrow> url exec" where
  "set_host h ip_v u =
     (if length h > 253 then Throw (parse_error (''Host is longer than 253 characters '' @ quoted h))
      else
        exec_bind (lazy_parse u) (\<lambda>u.
        exec_bind (check_host h ip_v) (\<lambda>(ip_v, o').
        \<comment> \<open>\<open>m_ip_v\<close> is signed and \<open>ip_v\<close> unsigned here\<close>
        Ret (if m_host u \<noteq> o' \<or> sint (m_ip_v u) \<noteq> uint ip_v
             then u\<lparr>m_host := o', m_ip_v := ip_v, m_built := False\<rparr> else u))))"

definition set_port :: "string \<Rightarrow> url \<Rightarrow> url exec" where
  "set_port p u =
     (if \<not> is_port p then Throw (parse_error (''Invalid port '' @ quoted p))
      else
        exec_bind (lazy_parse u) (\<lambda>u.
        let o' = (if http_default_port (u\<lparr>m_port := p\<rparr>) then [] else p) in
        Ret (if m_port u \<noteq> o' then u\<lparr>m_port := o', m_built := False\<rparr> else u)))"

definition set_port_number :: "16 word \<Rightarrow> url \<Rightarrow> url exec" where
  "set_port_number num u = set_port (to_string (unat num)) u"

definition set_path :: "string \<Rightarrow> url \<Rightarrow> url exec" where
  "set_path p u =
     (if length p > 8000 then Throw (parse_error (''Path is longer than 8000 characters '' @ quoted p))
      else
        exec_bind (lazy_parse u) (\<lambda>u.
        let o' = normalize_path p in
        Ret (if m_path u \<noteq> o' then u\<lparr>m_path := o', m_built := False\<rparr> else u)))"

definition set_fragment :: "string \<Rightarrow> url \<Rightarrow> url exec" where
  "set_fragment f u =
     (if length f > 256 then Throw (parse_error (''Fragment is longer than 256 characters '' @ quoted f))
      else exec_bind (lazy_parse u) (\<lambda>u.
        Ret (if m_fragment u \<noteq> f then u\<lparr>m_fragment := f, m_built := False\<rparr> else u)))"

definition set_query :: "KeyVal list \<Rightarrow> url \<Rightarrow> url exec" where
  "set_query q u =
     exec_bind (lazy_parse u) (\<lambda>u.
       Ret (if q \<noteq> m_query u then u\<lparr>m_query := q, m_built := False\<rparr> else u))"

definition set_query_with :: "(KeyVal list \<Rightarrow> KeyVal list) \<Rightarrow> url \<Rightarrow> url exec" where
  \<comment> \<open>the caller changes the entries through the reference that is returned\<close>
  "set_query_with f u =
     exec_bind (lazy_parse u) (\<lambda>u. Ret (u\<lparr>m_built := False, m_query := f (m_query u)\<rparr>))"

definition set_query_at :: "nat \<Rightarrow> (KeyVal \<Rightarrow> KeyVal) \<Rightarrow> url \<Rightarrow> url exec" where
  \<comment> \<open>the caller changes the entry through the reference that is returned\<close>
  "set_query_at i f u =
     exec_bind (lazy_parse u) (\<lambda>u.
       if i \<ge> length (m_query u) then bad_index i
       else Ret (u\<lparr>m_built := False, m_query := (m_query u)[i := f (m_query u ! i)]\<rparr>))"

definition add_query :: "KeyVal \<Rightarrow> url \<Rightarrow> url exec" where
  "add_query kv u =
     exec_bind (lazy_parse u) (\<lambda>u. Ret (u\<lparr>m_built := False, m_query := m_query u @ [kv]\<rparr>))"

subsection \<open>Output\<close>

definition int_to_string :: "int \<Rightarrow> string" where
  "int_to_string i = (if i < 0 then ''-'' @ to_string (nat (- i)) else to_string (nat i))"

definition show_KeyVal :: "KeyVal \<Rightarrow> string" where
  "show_KeyVal kv = ''<key('' @ m_key kv @ '') val('' @ m_val kv @ '')> ''"

definition show_url :: "url \<Rightarrow> string" where
  \<comment> \<open>what is written once the text is there\<close>
  "show_url u =
     ''Url:{url('' @ m_url u @ '')''
       @ (if m_scheme u \<noteq> [] then '' scheme('' @ m_scheme u @ '')'' else [])
       @ (if m_user u \<noteq> [] then '' user_info('' @ m_user u @ '')'' else [])
       @ (if m_ip_v u \<noteq> - 1
          then '' host('' @ m_host u @ '') IPv('' @ int_to_string (sint (m_ip_v u)) @ '')'' else [])
       @ (if m_port u \<noteq> [] then '' port('' @ m_port u @ '')'' else [])
       @ (if m_path u \<noteq> [] then '' path('' @ m_path u @ '')'' else [])
       @ (if m_query u \<noteq> [] then butlast ('' query('' @ concat (map show_KeyVal (m_query u))) @ '')'' else [])
       @ (if m_fragment u \<noteq> [] then ''fragment('' @ m_fragment u @ '') '' else [])
       @ ''}''"

definition output_url :: "url \<Rightarrow> (string \<times> url) exec" where
  "output_url u =
     exec_bind (lazy_parse u) (\<lambda>u.
     exec_bind (if \<not> m_built u then build_url u else Ret u) (\<lambda>u. Ret (show_url u, u)))"

end
