(* ===== verification/Url_Roundtrip.thy ===== *)
theory Url_Roundtrip
  imports Url_Build
begin

text \<open>
  What the printer writes, the parser reads: ranges are cut at delimiters that their
  characters cannot contain.
\<close>

subsection \<open>Characters that no range contains\<close>

lemma delimiters_excluded:
  "\<not> is_char CHR ''/'' 0x05" "\<not> is_char CHR ''?'' 0x05" "\<not> is_char CHR ''#'' 0x05"
  "\<not> is_char CHR ''@'' 0x05" "\<not> is_char CHR ''['' 0x05" "\<not> is_char CHR '']'' 0x05"
  "\<not> is_char CHR '':'' 0x01"
  "\<not> is_char CHR ''?'' 0x2F" "\<not> is_char CHR ''#'' 0x2F" "\<not> is_char CHR ''#'' 0x3F"
  by (simp_all add: is_char_class char_class_def)

lemma class_mono:
  "is_char c 0x01 \<Longrightarrow> is_char c 0x05" "is_char c 0x01 \<Longrightarrow> is_char c 0x2F"
  by (auto simp: is_char_class char_class_def split: if_splits)

lemma alnum_class: "is_alnum c \<Longrightarrow> is_char c 0x01"
proof -
  assume "is_alnum c"
  then have "48 \<le> code c \<and> code c \<le> 57 \<or> 65 \<le> code c \<and> code c \<le> 90 \<or> 97 \<le> code c \<and> code c \<le> 122"
    by (auto simp: is_alnum_def is_alpha_def is_num_def)
  then have "char_class (code c) = 1" "code c < 128" by (auto simp: char_class_alnum)
  then show ?thesis by (simp add: is_char_class)
qed

lemma alpha_num_class: "is_alpha c \<Longrightarrow> is_char c 0x01" "is_num c \<Longrightarrow> is_char c 0x01"
  by (simp_all add: alnum_class is_alnum_def)

lemma scheme_class: "is_scheme s \<Longrightarrow> is_chars s 0x01"
proof -
  have "is_char CHR ''+'' 0x01" "is_char CHR ''-'' 0x01" "is_char CHR ''.'' 0x01"
    by (simp_all add: is_char_class char_class_def)
  then show "is_scheme s \<Longrightarrow> ?thesis"
    by (auto simp: is_scheme_def is_chars_iff list_all_iff is_alnum_def dest: alpha_num_class split: list.splits)
qed

lemma user_excludes: "is_chars s 0x05 \<Longrightarrow> set s \<inter> set ''/?#@[]%'' = {}"
  using delimiters_excluded percent_not_char by (auto simp: is_chars_iff)

lemma reg_name_excludes: "is_reg_name s \<Longrightarrow> set s \<inter> set '':/?#@[]%'' = {}"
  using user_excludes [of s] delimiters_excluded class_mono by (auto simp: is_reg_name_def is_chars_iff)

lemma path_excludes: "is_chars s 0x2F \<Longrightarrow> set s \<inter> set ''?#'' = {}"
  using delimiters_excluded by (auto simp: is_chars_iff)

lemma query_excludes: "is_chars s 0x3F \<Longrightarrow> CHR ''#'' \<notin> set s"
  using delimiters_excluded by (auto simp: is_chars_iff)

lemma ipv4_reg_name: "is_ipv4 s \<Longrightarrow> is_reg_name s"
proof -
  have "is_char CHR ''.'' 0x01" by (simp add: is_char_class char_class_def)
  then show "is_ipv4 s \<Longrightarrow> ?thesis"
    using alpha_num_class by (auto simp: is_ipv4_def is_reg_name_def is_chars_iff list_all_iff split: if_splits)
qed

lemma not_hexdigit:
  "\<not> is_hexdigit CHR ''/''" "\<not> is_hexdigit CHR ''?''" "\<not> is_hexdigit CHR ''#''"
  "\<not> is_hexdigit CHR ''@''" "\<not> is_hexdigit CHR ''[''" "\<not> is_hexdigit CHR '']''"
  "\<not> is_hexdigit CHR ''%''" "\<not> is_hexdigit CHR ''v''" "\<not> is_hexdigit CHR ''.''" "\<not> is_hexdigit CHR '':''"
  by (simp_all add: is_hexdigit_def is_num_def)

lemma ipv6_excludes: "is_ipv6 s \<Longrightarrow> set s \<inter> set ''/?#@[]%v'' = {}"
proof -
  assume "is_ipv6 s"
  then have "\<forall>c\<in>set s. c = CHR '':'' \<or> c = CHR ''.'' \<or> is_hexdigit c"
    by (simp add: is_ipv6_def list_all_iff split: if_splits)
  moreover have "\<forall>d\<in>set ''/?#@[]%v''. \<not> is_hexdigit d \<and> d \<noteq> CHR '':'' \<and> d \<noteq> CHR ''.''"
    by (simp add: not_hexdigit)
  ultimately show ?thesis by blast
qed

lemma decode_plain: "CHR ''%'' \<notin> set s \<Longrightarrow> decode s = Ret s"
  by (induction s) auto

lemma put_all_plain: "is_chars s m \<Longrightarrow> put_all (encode_char m) s = Ret s"
  by (induction s) (auto simp: encode_char_def)

lemma encode_plain: "is_chars s m \<Longrightarrow> encode s m = Ret s"
  by (simp add: encode_def put_all_plain)

subsection \<open>Reading what was written\<close>

text \<open>A URL whose parts are in the form that the parser gives them.\<close>

definition ascii :: "string \<Rightarrow> bool" where
  "ascii s = list_all (\<lambda>c. code c < 128) s"

definition canonical_host :: "string \<Rightarrow> 8 word \<Rightarrow> bool" where
  "canonical_host h ip_v =
     ((ip_v = 0 \<and> is_reg_name h \<and> normalize_reg_name h = h \<and> \<not> is_ipv4 h)
      \<or> (ip_v = 4 \<and> is_ipv4 h)
      \<or> (ip_v = 6 \<and> is_ipv6 h \<and> normalize_IPv6 h = Ret h))"

definition canonical_url :: "url \<Rightarrow> bool" where
  "canonical_url u =
     (m_parse u \<and> is_scheme (m_scheme u) \<and> normalize_scheme (m_scheme u) = m_scheme u
      \<and> m_host u \<noteq> [] \<and> canonical_host (m_host u) (m_ip_v u)
      \<and> is_chars (m_user u) 0x05
      \<and> (m_port u = [] \<or> is_port (m_port u)) \<and> \<not> http_default_port u
      \<and> (m_path u = [] \<or> hd (m_path u) = CHR ''/'') \<and> normalize_path (m_path u) = m_path u
      \<and> ascii (m_path u)
      \<and> list_all (\<lambda>kv. m_key kv \<noteq> [] \<and> ascii (m_key kv) \<and> ascii (m_val kv)) (m_query u)
      \<and> ascii (m_fragment u))"

definition host_text :: "string \<Rightarrow> 8 word \<Rightarrow> string" where
  "host_text h ip_v = (if ip_v = 6 then ''['' @ h @ '']'' else h)"

definition authority_text :: "url \<Rightarrow> string" where
  "authority_text u =
     (if m_user u \<noteq> [] then m_user u @ ''@'' else []) @ host_text (m_host u) (m_ip_v u)
     @ (if m_port u \<noteq> [] then '':'' @ m_port u else [])"

lemma build_authority_canonical:
  assumes "canonical_url u"
  shows "build_authority u = Ret (''//'' @ authority_text u)"
proof -
  have "m_ip_v u = 0 \<or> m_ip_v u = 4 \<or> m_ip_v u = 6"
    using assms by (auto simp: canonical_url_def canonical_host_def)
  then have ip: "(if m_ip_v u = 0 \<or> m_ip_v u = 4 then m_host u else if m_ip_v u = 6 then ''['' @ m_host u @ '']''
      else x) = host_text (m_host u) (m_ip_v u)" for x
    by (auto simp: host_text_def)
  have "\<not> http_default_port u" "m_host u \<noteq> []" "encode (m_user u) 0x05 = Ret (m_user u)"
    using assms by (simp_all add: canonical_url_def encode_plain)
  then show ?thesis
    unfolding build_authority_def Let_def ip authority_text_def by simp
qed

lemma port_chars: "is_port p \<Longrightarrow> p \<noteq> [] \<and> (\<forall>c\<in>set p. is_digit c)"
  by (auto simp: is_port_def is_uint_all canonical_dec_def list_all_iff)

lemma digit_excludes: "is_digit c \<Longrightarrow> c \<notin> set '':/?#@[]''"
  by (auto simp: is_digit_def)

lemma port_excludes: "is_port p \<Longrightarrow> set p \<inter> set '':/?#@[]'' = {}"
  using port_chars digit_excludes by blast

lemma host_text_excludes:
  assumes "canonical_host h ip_v"
  shows "set (host_text h ip_v) \<inter> set ''/?#@'' = {}"
  using assms reg_name_excludes [of h] ipv4_reg_name [of h] ipv6_excludes [of h]
  by (auto simp: canonical_host_def host_text_def)

lemma authority_excludes:
  assumes "canonical_url u"
  shows "set (authority_text u) \<inter> set ''/?#'' = {}"
  using assms host_text_excludes [of "m_host u" "m_ip_v u"] user_excludes [of "m_user u"]
    port_excludes [of "m_port u"]
  by (auto simp: canonical_url_def authority_text_def)

lemma parse_host_part:
  assumes "canonical_host h ip_v" "h \<noteq> []" "r = [] \<or> hd r = CHR '':''"
  shows "parse_host s (host_text h ip_v @ r) = Ret (ip_v, h, r)"
proof (cases "ip_v = 6")
  case True
  with assms(1) have "is_ipv6 h" by (simp add: canonical_host_def)
  moreover from ipv6_excludes [OF this] have "find_char CHR '']'' (h @ CHR '']'' # r) = (h, CHR '']'' # r)"
    by (intro find_char_append) auto
  moreover have "hd h \<noteq> CHR ''v''" using ipv6_excludes [OF \<open>is_ipv6 h\<close>] assms(2) by (cases h) auto
  ultimately show ?thesis using True by (simp add: host_text_def parse_host_def parse_ip_literal_def)
next
  case False
  with assms(1) have h: "is_ipv4 h \<and> ip_v = 4 \<or> is_reg_name h \<and> \<not> is_ipv4 h \<and> ip_v = 0" "is_reg_name h"
    using ipv4_reg_name by (auto simp: canonical_host_def)
  from reg_name_excludes [OF h(2)] assms(2,3) have "find_char CHR '':'' (h @ r) = (h, r)"
    "hd (h @ r) \<noteq> CHR ''[''"
    by (auto intro!: find_char_append simp: hd_append dest: hd_in_set)
  with h(1) False show ?thesis by (auto simp: host_text_def parse_host_def)
qed

lemma parse_authority_text:
  assumes "canonical_url u"
  shows "parse_authority s (authority_text u) =
    Ret (if m_user u \<noteq> [] then Some (m_user u) else None, m_ip_v u, m_host u,
         if m_port u \<noteq> [] then Some (m_port u) else None)"
proof -
  define r where "r = (if m_port u \<noteq> [] then '':'' @ m_port u else [])"
  define b where "b = host_text (m_host u) (m_ip_v u) @ r"
  have r: "r = [] \<or> hd r = CHR '':''" "CHR ''@'' \<notin> set r"
    using assms port_excludes [of "m_port u"] by (auto simp: r_def canonical_url_def)
  have can: "canonical_host (m_host u) (m_ip_v u)" "m_host u \<noteq> []" "is_chars (m_user u) 0x05"
    using assms by (simp_all add: canonical_url_def)
  then have b: "CHR ''@'' \<notin> set b"
    using host_text_excludes [OF can(1)] r(2) by (auto simp: b_def)
  have user: "parse_user s (authority_text u) = Ret (if m_user u \<noteq> [] then Some (m_user u) else None, b)"
  proof (cases "m_user u = []")
    case True
    then have "authority_text u = b" by (simp add: authority_text_def b_def r_def)
    with True show ?thesis by (simp add: parse_user_def find_char_none [OF b])
  next
    case False
    have a: "authority_text u = m_user u @ ''@'' @ b" using False by (simp add: authority_text_def b_def r_def)
    have "find_char CHR ''@'' (m_user u @ ''@'' @ b) = (m_user u, ''@'' @ b)"
      using user_excludes [OF can(3)] by (intro find_char_append) auto
    with False can(3) show ?thesis unfolding a by (simp add: parse_user_def)
  qed
  have "parse_port s r = Ret (if m_port u \<noteq> [] then Some (m_port u) else None)"
    using assms by (auto simp: canonical_url_def r_def parse_port_def)
  with user parse_host_part [OF can(1,2) r(1)] show ?thesis
    by (simp add: parse_authority_def b_def)
qed

subsection \<open>The query\<close>

lemma entry_text:
  assumes "build_entry err kv = Ret t"
  obtains k v where "decode_plus k = Ret (m_key kv)" "is_chars k 0x3F" "set k \<inter> set ''=;&'' = {}" "k \<noteq> []"
    "decode_plus v = Ret (m_val kv)" "is_chars v 0x3F" "set v \<inter> set '';&'' = {}"
    "m_val kv = [] \<and> v = [] \<and> t = k \<or> m_val kv \<noteq> [] \<and> t = k @ ''='' @ v"
proof -
  from assms obtain k w where k: "m_key kv \<noteq> []" "encode_query_key (m_key kv) 0x1F = Ret k"
      and w: "(if m_val kv \<noteq> [] then exec_bind (encode_query_val (m_val kv) 0x1F) (\<lambda>v. Ret (''='' @ v)) else Ret []) = Ret w"
      and t: "t = k @ w"
    by (auto simp: build_entry_def split: if_splits)
  have key: "decode_plus k = Ret (m_key kv)" "is_chars k 0x3F" "set k \<inter> set ''=;&'' = {}"
    using key_codec.round_trip key_codec.written_safe k(2)
    unfolding encode_query_key_def is_chars_iff by blast+
  moreover have "k \<noteq> []" using key(1) k(1) by auto
  moreover obtain v where "decode_plus v = Ret (m_val kv)" "is_chars v 0x3F" "set v \<inter> set '';&'' = {}"
    "m_val kv = [] \<and> v = [] \<and> t = k \<or> m_val kv \<noteq> [] \<and> t = k @ ''='' @ v"
  proof (cases "m_val kv = []")
    case True
    with w t that [of "[]"] show ?thesis by simp
  next
    case False
    with w t obtain v where v: "encode_query_val (m_val kv) 0x1F = Ret v" "t = k @ ''='' @ v" by auto
    have "decode_plus v = Ret (m_val kv)" "is_chars v 0x3F" "set v \<inter> set '';&'' = {}"
      using val_codec.round_trip val_codec.written_safe v(1)
      unfolding encode_query_val_def is_chars_iff by blast+
    with False v(2) that show ?thesis by blast
  qed
  ultimately show ?thesis using that by blast
qed

lemma parse_entry:
  assumes "build_entry err kv = Ret t"
  shows "parse_query s t = Ret [kv]"
    and "parse_query s (t @ ''&'' @ b) = exec_bind (parse_query s b) (\<lambda>q. Ret (kv # q))"
proof -
  obtain key val where kv: "kv = \<lparr>m_key = key, m_val = val\<rparr>" by (cases kv) simp
  obtain k v where k: "decode_plus k = Ret (m_key kv)" "is_chars k 0x3F" "set k \<inter> set ''=;&'' = {}"
    and v: "decode_plus v = Ret (m_val kv)" "is_chars v 0x3F" "set v \<inter> set '';&'' = {}"
    and t: "m_val kv = [] \<and> v = [] \<and> t = k \<or> m_val kv \<noteq> [] \<and> t = k @ ''='' @ v"
    using assms by (rule entry_text)
  have cut: "find_first_of ''=;&'' k = (k, [])" "find_first_of ''=;&'' (k @ ''&'' @ b) = (k, ''&'' @ b)"
    "find_first_of ''=;&'' (k @ ''='' @ x) = (k, ''='' @ x)" for x
    using k(3) find_first_of_append [OF k(3)] by (simp_all add: find_first_of_none)
  have cut2: "find_first_of '';&'' v = (v, [])" "find_first_of '';&'' (v @ ''&'' @ b) = (v, ''&'' @ b)"
    using find_first_of_append [OF v(3)] find_first_of_none [OF v(3)] by simp_all
  from t show "parse_query s t = Ret [kv]"
    using k v cut cut2 kv by (subst parse_query.simps) auto
  from t show "parse_query s (t @ ''&'' @ b) = exec_bind (parse_query s b) (\<lambda>q. Ret (kv # q))"
    using k v cut cut2 kv by (subst parse_query.simps) auto
qed

lemma parse_entries:
  "build_entry err kv = Ret t \<Longrightarrow> build_entries q = Ret u \<Longrightarrow> parse_query s (t @ u) = Ret (kv # q)"
proof (induction q arbitrary: err kv t u)
  case Nil
  then show ?case by (simp add: parse_entry(1))
next
  case (Cons kv' q)
  then obtain t' u' where "build_entry ''A query entry has no key'' kv' = Ret t'" "build_entries q = Ret u'"
      "u = ''&'' @ t' @ u'" by auto
  with Cons.IH Cons.prems(1) show ?case by (simp add: parse_entry(2) [simplified])
qed

lemma entry_no_hash: "build_entry err kv = Ret t \<Longrightarrow> CHR ''#'' \<notin> set t"
proof -
  assume "build_entry err kv = Ret t"
  then obtain k v where "is_chars k 0x3F" "is_chars v 0x3F"
    "m_val kv = [] \<and> v = [] \<and> t = k \<or> m_val kv \<noteq> [] \<and> t = k @ ''='' @ v"
    by (rule entry_text)
  then show ?thesis using query_excludes by auto
qed

lemma entries_no_hash: "build_entries q = Ret u \<Longrightarrow> CHR ''#'' \<notin> set u"
  by (induction q arbitrary: u) (auto dest: entry_no_hash)

lemma entry_defined:
  assumes "m_key kv \<noteq> []" "ascii (m_key kv)" "ascii (m_val kv)"
  shows "\<exists>t. build_entry err kv = Ret t"
  using assms key_codec.defined [of "m_key kv"] val_codec.defined [of "m_val kv"]
  by (auto simp: build_entry_def ascii_def list_all_iff encode_query_key_def encode_query_val_def)

lemma entries_defined:
  "list_all (\<lambda>kv. m_key kv \<noteq> [] \<and> ascii (m_key kv) \<and> ascii (m_val kv)) q \<Longrightarrow> \<exists>t. build_entries q = Ret t"
  using entry_defined by (induction q) fastforce+

lemma query_text:
  assumes "canonical_url u"
  obtains "m_query u = []" "build_query u = Ret []"
  | q where "m_query u \<noteq> []" "build_query u = Ret (''?'' @ q)" "q \<noteq> []" "CHR ''#'' \<notin> set q"
      "\<And>s. parse_query s q = Ret (m_query u)"
proof (cases "m_query u")
  case Nil
  with that(1) show ?thesis by (simp add: build_query_def)
next
  case (Cons kv q)
  with assms have "m_key kv \<noteq> [] \<and> ascii (m_key kv) \<and> ascii (m_val kv)"
      "list_all (\<lambda>kv. m_key kv \<noteq> [] \<and> ascii (m_key kv) \<and> ascii (m_val kv)) q"
    by (simp_all add: canonical_url_def)
  then obtain t w where t: "build_entry ''First query entry has no key'' kv = Ret t" "build_entries q = Ret w"
    using entry_defined entries_defined by blast
  from t(1) have "t \<noteq> []" by (rule entry_text) auto
  then show ?thesis
    using that(2) [of "t @ w"] t Cons parse_entries [OF t] entry_no_hash [OF t(1)] entries_no_hash [OF t(2)]
    by (simp add: build_query_def)
qed

subsection \<open>The whole URL\<close>

lemma encoded_range:
  assumes "ascii s"
  shows "\<exists>t. encode s 0x0F = Ret t \<and> decode t = Ret s \<and> is_chars t 0x2F"
    and "\<exists>t. encode s 0x1F = Ret t \<and> decode t = Ret s \<and> is_chars t 0x3F"
  using assms path_codec.defined [of s] path_codec.round_trip [of s] path_codec.written_safe [of s]
    fragment_codec.defined [of s] fragment_codec.round_trip [of s] fragment_codec.written_safe [of s]
  by (auto simp: ascii_def list_all_iff encode_def is_chars_iff)

lemma path_text:
  assumes "canonical_url u"
  obtains t where "build_path u = Ret t" "decode t = Ret (m_path u)" "is_chars t 0x2F"
    "t = [] \<or> hd t = CHR ''/''"
proof (cases "m_path u")
  case Nil
  with that [of "[]"] show ?thesis by (simp add: build_path_def)
next
  case (Cons c p)
  with assms have slash: "c = CHR ''/''" by (simp add: canonical_url_def)
  have "is_char CHR ''/'' 0x0F" by (simp add: is_char_class char_class_def)
  moreover obtain t where t: "encode (m_path u) 0x0F = Ret t" "decode t = Ret (m_path u)" "is_chars t 0x2F"
    using encoded_range(1) [of "m_path u"] assms by (auto simp: canonical_url_def)
  ultimately have "hd t = CHR ''/''"
    using Cons slash by (auto simp: encode_def encode_char_def)
  with t that [of t] Cons slash show ?thesis by (simp add: build_path_def)
qed

lemma fragment_text:
  assumes "canonical_url u"
  obtains "m_fragment u = []" "build_fragment u = Ret []"
  | t where "m_fragment u \<noteq> []" "build_fragment u = Ret (''#'' @ t)" "decode t = Ret (m_fragment u)"
      "is_chars t 0x3F"
proof (cases "m_fragment u = []")
  case True
  with that(1) show ?thesis by (simp add: build_fragment_def)
next
  case False
  obtain t where "encode (m_fragment u) 0x1F = Ret t" "decode t = Ret (m_fragment u)" "is_chars t 0x3F"
    using encoded_range(2) [of "m_fragment u"] assms by (auto simp: canonical_url_def)
  with False that(2) [of t] show ?thesis by (simp add: build_fragment_def)
qed

lemma tail_text:
  assumes "canonical_url u"
  obtains pth qry frag r where "build_path u = Ret pth" "build_query u = Ret qry" "build_fragment u = Ret frag"
    "pth @ qry @ frag = [] \<or> hd (pth @ qry @ frag) \<in> set ''/?#''"
    "\<And>s scheme auth. parse_tail s scheme auth (pth @ qry @ frag) =
       Ret (r\<lparr>r_scheme := scheme,
              r_user := (case auth of None \<Rightarrow> None | Some (user, _, _, _) \<Rightarrow> user),
              r_host := map_option (\<lambda>(_, _, host, _). host) auth,
              r_ip_v := (case auth of None \<Rightarrow> - 1 | Some (_, ip_v, _, _) \<Rightarrow> ip_v),
              r_port := (case auth of None \<Rightarrow> None | Some (_, _, _, port) \<Rightarrow> port)\<rparr>)"
    "decode (r_path r) = Ret (m_path u)"
    "\<And>s. (case r_query r of None \<Rightarrow> Ret [] | Some q \<Rightarrow> if q = [] then Ret [] else parse_query s q)
       = Ret (m_query u)"
    "decode_range decode (r_fragment r) = Ret (m_fragment u)"
proof -
  obtain pth where p: "build_path u = Ret pth" "decode pth = Ret (m_path u)" "is_chars pth 0x2F"
      "pth = [] \<or> hd pth = CHR ''/''"
    using assms by (rule path_text)
  obtain qry q where q: "build_query u = Ret qry" "m_query u = [] \<and> qry = [] \<and> q = None \<or>
      (\<exists>t. q = Some t \<and> qry = ''?'' @ t \<and> t \<noteq> [] \<and> CHR ''#'' \<notin> set t \<and> (\<forall>s. parse_query s t = Ret (m_query u)))"
    using assms by (rule query_text) blast+
  obtain frag f where f: "build_fragment u = Ret frag" "m_fragment u = [] \<and> frag = [] \<and> f = None \<or>
      (\<exists>t. f = Some t \<and> frag = ''#'' @ t \<and> decode t = Ret (m_fragment u) \<and> is_chars t 0x3F)"
    using assms by (rule fragment_text) blast+
  have cut_path: "find_first_of ''?#'' (pth @ qry @ frag) = (pth, qry @ frag)"
    using path_excludes [OF p(3)] q(2) f(2) by (intro find_first_of_append) auto
  have cut_query: "find_char CHR ''#'' (t @ frag) = (t, frag)" if "CHR ''#'' \<notin> set t" for t
    using that f(2) by (intro find_char_append) auto
  define r where "r = \<lparr>r_scheme = None, r_user = None, r_host = None, r_ip_v = 0, r_port = None,
      r_path = pth, r_query = q, r_fragment = f\<rparr>"
  show ?thesis
  proof (rule that [OF p(1) q(1) f(1), of r])
    show "pth @ qry @ frag = [] \<or> hd (pth @ qry @ frag) \<in> set ''/?#''"
      using p(4) q(2) f(2) by (cases pth) auto
    show "decode (r_path r) = Ret (m_path u)" by (simp add: r_def p(2))
    show "(case r_query r of None \<Rightarrow> Ret [] | Some q \<Rightarrow> if q = [] then Ret [] else parse_query s q)
       = Ret (m_query u)" for s
      using q(2) by (auto simp: r_def)
    show "decode_range decode (r_fragment r) = Ret (m_fragment u)"
      using f(2) by (auto simp: r_def decode_range_def)
    show "parse_tail s scheme auth (pth @ qry @ frag) =
       Ret (r\<lparr>r_scheme := scheme,
              r_user := (case auth of None \<Rightarrow> None | Some (user, _, _, _) \<Rightarrow> user),
              r_host := map_option (\<lambda>(_, _, host, _). host) auth,
              r_ip_v := (case auth of None \<Rightarrow> - 1 | Some (_, ip_v, _, _) \<Rightarrow> ip_v),
              r_port := (case auth of None \<Rightarrow> None | Some (_, _, _, port) \<Rightarrow> port)\<rparr>)" for s scheme auth
      using q(2) f(2) p(3) cut_query
      by (auto simp: parse_tail_def cut_path r_def)
  qed
qed

lemma decode_host_canonical:
  assumes "canonical_host h ip_v"
  shows "decode_host ip_v h = Ret h"
proof -
  have "CHR ''%'' \<notin> set h"
    using assms reg_name_excludes [of h] ipv4_reg_name [of h] ipv6_excludes [of h]
    by (auto simp: canonical_host_def)
  with assms show ?thesis
    by (auto simp: decode_host_def decode_plain canonical_host_def)
qed

definition url_text :: "url \<Rightarrow> string \<Rightarrow> string" where
  "url_text u t = m_scheme u @ '':'' @ ''//'' @ authority_text u @ t"

lemma parse_ranges_text:
  assumes "canonical_url u" "t = [] \<or> hd t \<in> set ''/?#''"
  shows "parse_ranges (url_text u t) =
    parse_tail (url_text u t) (Some (m_scheme u))
      (Some (if m_user u \<noteq> [] then Some (m_user u) else None, m_ip_v u, m_host u,
             if m_port u \<noteq> [] then Some (m_port u) else None)) t"
proof -
  let ?s = "url_text u t"
  have sch: "is_scheme (m_scheme u)" using assms(1) by (simp add: canonical_url_def)
  have "is_chars (m_scheme u) 0x01" using scheme_class [OF sch] .
  then have "set (m_scheme u) \<inter> set '':/?#'' = {}"
    using reg_name_excludes [of "m_scheme u"] by (auto simp: is_reg_name_def)
  then have "find_first_of '':/?#'' ?s = (m_scheme u, '':'' @ ''//'' @ authority_text u @ t)"
    unfolding url_text_def by (intro find_first_of_append) auto
  then have "parse_ranges ?s = parse_hier ?s (Some (m_scheme u)) (''//'' @ authority_text u @ t)"
    using sch by (simp add: parse_ranges_def)
  moreover have "find_first_of ''/?#'' (authority_text u @ t) = (authority_text u, t)"
    using authority_excludes [OF assms(1)] assms(2) by (intro find_first_of_append) auto
  ultimately show ?thesis
    by (simp add: parse_hier_def parse_authority_text [OF assms(1)])
qed

lemma canonical_port_range:
  "decode_range Ret (if m_port u \<noteq> [] then Some (m_port u) else None) = Ret (m_port u)"
  by (simp add: decode_range_def)

lemma canonical_user_range:
  assumes "canonical_url u"
  shows "decode_range decode (if m_user u \<noteq> [] then Some (m_user u) else None) = Ret (m_user u)"
proof -
  have "CHR ''%'' \<notin> set (m_user u)"
    using assms user_excludes [of "m_user u"] by (auto simp: canonical_url_def)
  then show ?thesis by (simp add: decode_range_def decode_plain)
qed

lemma canonical_round_trip:
  assumes "canonical_url u"
  shows "\<exists>t. build_url u = Ret (u\<lparr>m_built := False, m_url := t\<rparr>) \<and>
    (length t \<le> 8000 \<longrightarrow> parse_url (url_of_string t) = Ret (u\<lparr>m_built := False, m_url := t\<rparr>))"
proof (rule tail_text [OF assms], goal_cases)
  case (1 pth qry frag r)
  note build = 1(1-3) and hd = 1(4) and tail = 1(5) and dec = 1(6-8)
  define t where "t = url_text u (pth @ qry @ frag)"
  have can: "m_parse u" "m_scheme u \<noteq> []" "normalize_scheme (m_scheme u) = m_scheme u"
      "normalize_path (m_path u) = m_path u" "canonical_host (m_host u) (m_ip_v u)"
    using assms by (auto simp: canonical_url_def is_scheme_def)
  have "build_url u = Ret (u\<lparr>m_built := False, m_url := t\<rparr>)"
    using can(1,2) build build_authority_canonical [OF assms]
    by (simp add: build_url_def lazy_parse_def t_def url_text_def)
  moreover have "parse_url (url_of_string t) = Ret (u\<lparr>m_built := False, m_url := t\<rparr>)" if "length t \<le> 8000"
  proof -
    have "t \<noteq> []" by (simp add: t_def url_text_def)
    moreover note parse_ranges_text [OF assms hd, folded t_def, unfolded tail]
    ultimately show ?thesis
      using that can(1,3,4) dec canonical_user_range [OF assms] decode_host_canonical [OF can(5)]
      by (simp add: parse_url_def url_of_string_def new_url_def canonical_port_range decode_range_def
          del: not_le) 
  qed
  ultimately show ?thesis by blast
qed

end
