(* ===== verification/Url_Inv.thy ===== *)
theory Url_Inv
  imports Url_Roundtrip
begin

text \<open>
  What holds of every URL object a program can make: the parts are in the form the parser
  and the setters give them, and only the empty URL is ever marked as built.
\<close>

subsection \<open>Well-formed parts\<close>

definition host_ok :: "8 word \<Rightarrow> string \<Rightarrow> bool" where
  \<comment> \<open>the text of an address of version 6 is what \<open>normalize_IPv6\<close> made of one\<close>
  "host_ok ip_v h \<longleftrightarrow>
     (if ip_v = 6 then \<exists>a. is_ipv6 a \<and> normalize_IPv6 a = Ret h
      else is_chars h 0x05 \<and> (ip_v = 0 \<longrightarrow> normalize_reg_name h = h))"

definition url_ok :: "url \<Rightarrow> bool" where
  "url_ok u \<longleftrightarrow> (m_parse u \<longrightarrow>
     (m_scheme u = [] \<or> is_scheme (m_scheme u)) \<and> normalize_scheme (m_scheme u) = m_scheme u
     \<and> (m_port u = [] \<or> is_port (m_port u)) \<and> normalize_path (m_path u) = m_path u
     \<and> host_ok (m_ip_v u) (m_host u))"

definition url_empty :: "url \<Rightarrow> bool" where
  "url_empty u \<longleftrightarrow> m_parse u \<and> m_url u = [] \<and> m_scheme u = [] \<and> m_user u = [] \<and> m_host u = []
     \<and> m_port u = [] \<and> m_path u = [] \<and> m_query u = [] \<and> m_fragment u = [] \<and> m_ip_v u = - 1"

definition url_inv :: "url \<Rightarrow> bool" where
  "url_inv u \<longleftrightarrow> url_ok u \<and> (m_built u \<longrightarrow> url_empty u)"

text \<open>
  The objects a program can get from the constructors and the member functions. Those that
  replace the whole object may be called on any \<open>this\<close>, also on one that was moved from.
\<close>

inductive url_reach :: "url \<Rightarrow> bool" where
  reach_new: "url_reach new_url"
| reach_string: "url_reach (url_of_string s)"
| reach_assign: "url_reach u \<Longrightarrow> url_reach (assign u this)"
| reach_set_str: "url_reach (set_str s this)"
| reach_clear: "url_reach (clear this)"
| reach_parse: "url_reach u \<Longrightarrow> lazy_parse u = Ret v \<Longrightarrow> url_reach v"
| reach_build: "url_reach u \<Longrightarrow> build_url u = Ret v \<Longrightarrow> url_reach v"
| reach_scheme: "url_reach u \<Longrightarrow> set_scheme s u = Ret v \<Longrightarrow> url_reach v"
| reach_user: "url_reach u \<Longrightarrow> set_user_info s u = Ret v \<Longrightarrow> url_reach v"
| reach_host: "url_reach u \<Longrightarrow> set_host s ip_v u = Ret v \<Longrightarrow> url_reach v"
| reach_port: "url_reach u \<Longrightarrow> set_port s u = Ret v \<Longrightarrow> url_reach v"
| reach_path: "url_reach u \<Longrightarrow> set_path s u = Ret v \<Longrightarrow> url_reach v"
| reach_fragment: "url_reach u \<Longrightarrow> set_fragment s u = Ret v \<Longrightarrow> url_reach v"
| reach_query: "url_reach u \<Longrightarrow> set_query q u = Ret v \<Longrightarrow> url_reach v"
| reach_query_with: "url_reach u \<Longrightarrow> set_query_with f u = Ret v \<Longrightarrow> url_reach v"
| reach_query_at: "url_reach u \<Longrightarrow> set_query_at i f u = Ret v \<Longrightarrow> url_reach v"
| reach_add_query: "url_reach u \<Longrightarrow> add_query kv u = Ret v \<Longrightarrow> url_reach v"

lemma lower_alpha_num:
  "is_alpha (lower c) = is_alpha c" "is_num (lower c) = is_num c"
  by (auto simp: is_alpha_def is_num_def code_lower)

lemma lower_other: "\<not> is_alpha c \<Longrightarrow> lower c = c"
  by (auto simp: is_alpha_def lower_def)

lemma is_scheme_lower: "is_scheme s \<Longrightarrow> is_scheme (to_lower s)"
proof -
  have alnum: "is_alnum (lower c) = is_alnum c" for c
    by (simp add: is_alnum_def lower_alpha_num)
  have "is_alnum (lower c) \<or> lower c = CHR ''+'' \<or> lower c = CHR ''-'' \<or> lower c = CHR ''.''"
    if "is_alnum c \<or> c = CHR ''+'' \<or> c = CHR ''-'' \<or> c = CHR ''.''" for c
    using that alnum [of c] lower_other [of c] by (cases "is_alpha c") (auto simp: is_alnum_def)
  then show "is_scheme s \<Longrightarrow> ?thesis"
    by (auto simp: is_scheme_def to_lower_def list_all_iff lower_alpha_num split: list.splits)
qed

lemma reg_name_lower: "is_reg_name s \<Longrightarrow> is_reg_name (normalize_reg_name s)"
proof -
  have "is_char (lower c) 0x01" if "is_char c 0x01" for c
    using that lower_other [of c] alpha_num_class(1) [of "lower c"] lower_alpha_num(1) [of c]
    by (cases "is_alpha c") auto
  then show "is_reg_name s \<Longrightarrow> ?thesis"
    by (auto simp: is_reg_name_def normalize_reg_name_def to_lower_def is_chars_iff)
qed

lemma normalize_idem [simp]:
  "normalize_scheme (normalize_scheme s) = normalize_scheme s"
  "normalize_reg_name (normalize_reg_name s) = normalize_reg_name s"
  "normalize_scheme [] = []" "normalize_path [] = []" "normalize_scheme (to_lower s) = to_lower s"
  by (simp_all add: normalize_scheme_def normalize_reg_name_def normalize_path_def)
     (simp add: to_lower_def)

lemma find_char_parts: "find_char q s = (x, y) \<Longrightarrow> s = x @ y"
  by (auto simp: find_char_def)

lemma find_first_of_parts: "find_first_of q s = (x, y) \<Longrightarrow> s = x @ y"
  by (auto simp: find_first_of_def)

text \<open>What the ranges satisfy.\<close>

definition host_range_ok :: "8 word \<Rightarrow> string \<Rightarrow> bool" where
  "host_range_ok ip_v h \<longleftrightarrow> (ip_v \<noteq> 6 \<longrightarrow> is_chars h 0x05)"

definition ranges_ok :: "ranges \<Rightarrow> bool" where
  "ranges_ok r \<longleftrightarrow>
     pred_option is_scheme (r_scheme r) \<and> pred_option is_port (r_port r)
     \<and> pred_option (host_range_ok (r_ip_v r)) (r_host r) \<and> (r_host r = None \<longrightarrow> r_ip_v r = - 1)
     \<and> pred_option (\<lambda>t. is_chars t 0x05) (r_user r)"

definition auth_ok :: "string option \<times> 8 word \<times> string \<times> string option \<Rightarrow> bool" where
  "auth_ok = (\<lambda>(user, ip_v, host, port). host_range_ok ip_v host \<and> pred_option is_port port
     \<and> pred_option (\<lambda>t. is_chars t 0x05) user)"

lemma exec_bind_Ret: "exec_bind m f = Ret y \<longleftrightarrow> (\<exists>x. m = Ret x \<and> f x = Ret y)"
  by (cases m) auto

lemma invalid_not_Ret [simp]: "invalid w s \<noteq> Ret x"
  by (simp add: invalid_def)

lemma is_chars_parts: "is_chars (x @ y) m \<longleftrightarrow> is_chars x m \<and> is_chars y m"
  by (auto simp: is_chars_iff)

lemma parse_ip_literal_ok:
  "parse_ip_literal s b = Ret (ip_v, h, r) \<Longrightarrow> host_range_ok ip_v h"
  by (auto simp: parse_ip_literal_def host_range_ok_def Let_def is_chars_iff
      dest: list.set_sel(2) split: prod.splits list.splits if_split_asm)

lemma address_class: "is_ipv4 h \<Longrightarrow> is_chars h 0x05" "is_ipv6 h \<Longrightarrow> is_chars h 0x05"
proof -
  have "is_char c 0x05" if "is_hexdigit c \<or> is_num c \<or> c = CHR ''.'' \<or> c = CHR '':''" for c
    using that by (auto simp: is_hexdigit_def is_char_class char_class_def is_alpha_def is_num_def)
  then show "is_ipv4 h \<Longrightarrow> is_chars h 0x05" "is_ipv6 h \<Longrightarrow> is_chars h 0x05"
    by (auto simp: is_ipv4_def is_ipv6_def is_chars_iff list_all_iff split: if_splits)
qed

lemma parse_host_ok: "parse_host s b = Ret (ip_v, h, r) \<Longrightarrow> host_range_ok ip_v h"
  by (auto simp: parse_host_def host_range_ok_def is_reg_name_def is_chars_iff class_mono Let_def
      dest: parse_ip_literal_ok address_class [unfolded is_chars_iff] split: if_split_asm prod.splits)

lemma parse_port_ok: "parse_port s b = Ret port \<Longrightarrow> pred_option is_port port"
  by (auto simp: parse_port_def split: if_split_asm)

lemma parse_user_ok: "parse_user s a = Ret (user, b) \<Longrightarrow> pred_option (\<lambda>t. is_chars t 0x05) user"
  by (auto simp: parse_user_def split: prod.splits if_split_asm)

lemma parse_authority_ok: "parse_authority s a = Ret auth \<Longrightarrow> auth_ok auth"
  by (auto simp: parse_authority_def exec_bind_Ret auth_ok_def dest: parse_user_ok parse_host_ok parse_port_ok)

lemma parse_tail_ok:
  assumes "parse_tail s scheme auth b = Ret r" "pred_option is_scheme scheme" "pred_option auth_ok auth"
  shows "ranges_ok r"
proof -
  obtain pth qry frag where r: "r = \<lparr>r_scheme = scheme,
             r_user = (case auth of None \<Rightarrow> None | Some (user, _, _, _) \<Rightarrow> user),
             r_host = map_option (\<lambda>(_, _, host, _). host) auth,
             r_ip_v = (case auth of None \<Rightarrow> - 1 | Some (_, ip_v, _, _) \<Rightarrow> ip_v),
             r_port = (case auth of None \<Rightarrow> None | Some (_, _, _, port) \<Rightarrow> port),
             r_path = pth, r_query = qry, r_fragment = frag\<rparr>"
    using assms(1) by (auto simp: parse_tail_def exec_bind_Ret Let_def split: prod.splits if_split_asm)
  show ?thesis
    using assms(2,3) by (auto simp: r ranges_ok_def auth_ok_def split: option.splits)
qed

lemma parse_hier_ok:
  assumes "parse_hier s scheme b = Ret r" "pred_option is_scheme scheme"
  shows "ranges_ok r"
proof -
  obtain auth t where "parse_tail s scheme auth t = Ret r" "pred_option auth_ok auth"
  proof (cases "length b > 1 \<and> b ! 0 = CHR ''/'' \<and> b ! 1 = CHR ''/''")
    case True
    with assms(1) obtain a t auth where "parse_authority s a = Ret auth" "parse_tail s scheme (Some auth) t = Ret r"
      by (auto simp: parse_hier_def exec_bind_Ret split: prod.splits)
    with that [of "Some auth" t] parse_authority_ok show thesis by auto
  next
    case False
    with assms(1) that [of None b] show thesis by (auto simp: parse_hier_def)
  qed
  with assms(2) parse_tail_ok show ?thesis by blast
qed

lemma parse_ranges_ok: 
  assumes "parse_ranges s = Ret r"
  shows "ranges_ok r"
proof -
  have "(r_scheme r = None \<and> r_user r = None \<and> r_port r = None \<and> r_host r = None \<and> r_ip_v r = - 1)
    \<or> (\<exists>b t. is_scheme b \<and> parse_hier s (Some b) t = Ret r) \<or> parse_hier s None s = Ret r"
    using assms by (auto simp: parse_ranges_def Let_def split: if_split_asm prod.splits)
  then show ?thesis
    using parse_hier_ok [of s _ _ r] by (auto simp: ranges_ok_def)
qed

subsection \<open>The invariant of the class\<close>

lemma decode_plain_host: "is_chars h 0x05 \<Longrightarrow> decode h = Ret h"
  using user_excludes [of h] decode_plain [of h] by auto

lemma host_class_lower: "is_chars s 0x05 \<Longrightarrow> is_chars (normalize_reg_name s) 0x05"
proof -
  have "is_char (lower c) 0x05" if "is_char c 0x05" for c
    using that lower_other [of c] alpha_num_class(1) [of "lower c"] lower_alpha_num(1) [of c] class_mono
    by (cases "is_alpha c") auto
  then show "is_chars s 0x05 \<Longrightarrow> ?thesis"
    by (auto simp: normalize_reg_name_def to_lower_def is_chars_iff)
qed

lemma decode_host_ok:
  assumes "decode_host ip_v h = Ret t" "host_range_ok ip_v h"
  shows "host_ok ip_v t"
proof (cases "ip_v = 6")
  case True
  then obtain a where a: "normalize_IPv6 a = Ret t" using assms(1) by (auto simp: decode_host_def exec_bind_Ret)
  then have "is_ipv6 a" by (auto simp: normalize_IPv6_def split: if_splits)
  with True a show ?thesis by (auto simp: host_ok_def)
next
  case False
  then show ?thesis
    using assms by (auto simp: decode_host_def decode_plain_host host_class_lower host_ok_def host_range_ok_def split: if_splits)
qed

lemma no_host_ok [simp]: "host_ok (- 1) []"
  by (simp add: host_ok_def)

lemma parse_url_cases:
  assumes "parse_url u = Ret v"
  obtains "m_url u = []" "v = clear u"
  | r scheme user host port pth qry frag where
      "m_url u \<noteq> []" "length (m_url u) \<le> 8000" "parse_ranges (m_url u) = Ret r"
      "decode_range (\<lambda>t. Ret (normalize_scheme t)) (r_scheme r) = Ret scheme"
      "decode_range decode (r_user r) = Ret user"
      "decode_range (decode_host (r_ip_v r)) (r_host r) = Ret host"
      "decode_range Ret (r_port r) = Ret port"
      "decode (r_path r) = Ret pth"
      "(case r_query r of None \<Rightarrow> Ret [] | Some q \<Rightarrow> if q = [] then Ret [] else parse_query (m_url u) q) = Ret qry"
      "decode_range decode (r_fragment r) = Ret frag"
      "v = u\<lparr>m_scheme := scheme, m_user := user, m_host := host, m_ip_v := r_ip_v r,
               m_port := port, m_path := normalize_path pth, m_query := qry, m_fragment := frag,
               m_parse := True, m_built := False\<rparr>"
proof (cases "m_url u = []")
  case True
  with assms have "v = clear u" by (auto simp: parse_url_def clear_def)
  with True show thesis by (rule that(1))
next
  case False
  with assms have "length (m_url u) \<le> 8000" by (auto simp: parse_url_def split: if_splits)
  with False assms that(2) show thesis by (simp add: parse_url_def exec_bind_Ret Let_def) blast
qed

lemma decode_range_Ret:
  "decode_range f r = Ret t \<longleftrightarrow> (r = None \<and> t = [] \<or> (\<exists>x. r = Some x \<and> f x = Ret t))"
  by (cases r) (auto simp: decode_range_def)

lemma to_lower_Nil [simp]: "to_lower [] = []"
  by (simp add: to_lower_def)

lemma clear_inv: "url_inv (clear u)"
  by (simp add: url_inv_def url_ok_def url_empty_def clear_def)

lemma parse_url_inv:
  assumes "parse_url u = Ret v"
  shows "url_inv v"
  using assms
proof (cases rule: parse_url_cases)
  case 1
  then show ?thesis by (simp add: clear_inv)
next
  case (2 r scheme user host port pth qry frag)
  have "ranges_ok r" using 2(3) by (rule parse_ranges_ok)
  then have "scheme = [] \<or> is_scheme scheme" "normalize_scheme scheme = scheme"
      "port = [] \<or> is_port port"
      "host_ok (r_ip_v r) host"
    using 2(4,6,7) decode_host_ok
    by (auto simp: ranges_ok_def decode_range_Ret normalize_scheme_def
        simp flip: to_lower_def intro: is_scheme_lower)
  then show ?thesis
    by (simp add: 2(11) url_inv_def url_ok_def normalize_path_fixed)
qed


lemma lazy_parse_inv: "lazy_parse u = Ret v \<Longrightarrow> url_inv u \<Longrightarrow> url_inv v \<and> m_parse v"
  by (auto simp: lazy_parse_def parse_url_inv clear_def elim!: parse_url_cases split: if_splits)

lemma assign_inv: "url_inv u \<Longrightarrow> url_inv (assign u this)"
  by (auto simp: url_inv_def url_ok_def url_empty_def assign_def Let_def)

text \<open>A part is only replaced after the object was parsed, and the text is then outdated.\<close>

lemmas inv_defs = url_inv_def url_ok_def url_empty_def

lemma parse_then:
  assumes "exec_bind (lazy_parse u) f = Ret v" "url_inv u"
  obtains w where "url_inv w" "m_parse w" "f w = Ret v"
  using assms lazy_parse_inv by (auto simp: exec_bind_Ret)

text \<open>An object with the parts of a parsed one, except for one part, and an outdated text.\<close>

lemma inv_update:
  assumes "url_inv w" "m_parse w"
  shows "url_inv (w\<lparr>m_built := False, m_url := t\<rparr>)" "url_inv (w\<lparr>m_user := s, m_built := False\<rparr>)"
    and "url_inv (w\<lparr>m_fragment := s, m_built := False\<rparr>)"
    and "url_inv (w\<lparr>m_query := q, m_built := False\<rparr>)" "url_inv (w\<lparr>m_built := False, m_query := q\<rparr>)"
    and "url_inv (w\<lparr>m_path := normalize_path s, m_built := False\<rparr>)"
    and "is_scheme s \<Longrightarrow> url_inv (w\<lparr>m_scheme := to_lower s, m_built := False\<rparr>)"
    and "p = [] \<or> is_port p \<Longrightarrow> url_inv (w\<lparr>m_port := p, m_built := False\<rparr>)"
    and "is_scheme s \<Longrightarrow> url_inv (w\<lparr>m_scheme := to_lower s, m_built := False, m_port := []\<rparr>)"
    and "host_ok ip_v h \<Longrightarrow>
         url_inv (w\<lparr>m_host := h, m_ip_v := ip_v, m_built := False\<rparr>)"
  using assms by (simp_all add: url_inv_def url_ok_def is_scheme_lower normalize_path_fixed)

named_theorems url_step

lemma build_url_inv [url_step]:
  assumes "build_url u = Ret v" "url_inv u"
  shows "url_inv v"
  using assms unfolding build_url_def
  by (rule parse_then) (auto simp: exec_bind_Ret intro: inv_update)

lemma set_scheme_inv [url_step]: "set_scheme s u = Ret v \<Longrightarrow> url_inv u \<Longrightarrow> url_inv v"
  unfolding set_scheme_def
  by (split if_split_asm, simp, erule (1) parse_then)
     (auto simp: Let_def intro: inv_update split: if_split_asm)

lemma set_user_inv [url_step]: "set_user_info s u = Ret v \<Longrightarrow> url_inv u \<Longrightarrow> url_inv v"
  unfolding set_user_info_def
  by (split if_split_asm, simp, erule (1) parse_then) (auto intro: inv_update split: if_split_asm)

lemma set_port_inv [url_step]: "set_port s u = Ret v \<Longrightarrow> url_inv u \<Longrightarrow> url_inv v"
  unfolding set_port_def
  by (split if_split_asm, simp, erule (1) parse_then) (auto simp: Let_def intro: inv_update split: if_split_asm)

lemma set_path_inv [url_step]: "set_path s u = Ret v \<Longrightarrow> url_inv u \<Longrightarrow> url_inv v"
  unfolding set_path_def
  by (split if_split_asm, simp, erule (1) parse_then)
     (auto simp: Let_def intro: inv_update split: if_split_asm)

lemma set_fragment_inv [url_step]: "set_fragment s u = Ret v \<Longrightarrow> url_inv u \<Longrightarrow> url_inv v"
  unfolding set_fragment_def
  by (split if_split_asm, simp, erule (1) parse_then) (auto intro: inv_update split: if_split_asm)

lemma set_query_inv [url_step]: "set_query q u = Ret v \<Longrightarrow> url_inv u \<Longrightarrow> url_inv v"
  unfolding set_query_def by (erule (1) parse_then) (auto intro: inv_update split: if_split_asm)

lemma set_query_with_inv [url_step]: "set_query_with f u = Ret v \<Longrightarrow> url_inv u \<Longrightarrow> url_inv v"
  unfolding set_query_with_def by (erule (1) parse_then) (auto intro: inv_update)

lemma set_query_at_inv [url_step]: "set_query_at i f u = Ret v \<Longrightarrow> url_inv u \<Longrightarrow> url_inv v"
  unfolding set_query_at_def
  by (erule (1) parse_then) (auto simp: bad_index_def intro: inv_update split: if_split_asm)

lemma add_query_inv [url_step]: "add_query kv u = Ret v \<Longrightarrow> url_inv u \<Longrightarrow> url_inv v"
  unfolding add_query_def by (erule (1) parse_then) (auto intro: inv_update)

definition checked_host :: "string \<Rightarrow> 8 word \<Rightarrow> 8 word \<Rightarrow> string \<Rightarrow> bool" where
  \<comment> \<open>the version and the text that belong to \<open>h\<close>, set with version \<open>i\<close>\<close>
  "checked_host h i ip_v t \<longleftrightarrow>
     (if h = [] then ip_v = - 1 \<and> t = []
      else if is_ipv4 h then ip_v = 4 \<and> is_valid_ipv4 h \<and> t = h
      else if i \<notin> {0, 4, 6} then ip_v = i \<and> is_ipv6 h \<and> t = h
      else if is_ipv6 h then ip_v = 6 \<and> is_valid_ipv6 h \<and> normalize_IPv6 h = Ret t
      else ip_v = 0 \<and> is_reg_name h \<and> t = normalize_reg_name h)"

lemma check_host_checked: "check_host h i = Ret (ip_v, t) \<Longrightarrow> checked_host h i ip_v t"
  by (auto simp: check_host_def checked_host_def exec_bind_Ret split: if_splits)

lemma checked_host_ok:
  assumes "checked_host h i ip_v t"
  shows "host_ok ip_v t"
proof -
  have "is_chars (normalize_reg_name h) 0x05" if "is_reg_name h"
    using that class_mono by (intro host_class_lower) (auto simp: is_reg_name_def is_chars_iff)
  with assms address_class show ?thesis
    by (auto simp: checked_host_def host_ok_def split: if_splits)
qed

lemma same_word: "sint (v :: 8 word) = uint w \<Longrightarrow> v = w"
proof -
  assume "sint v = uint w"
  moreover have "word_of_int (sint v) = v" "word_of_int (uint w) = w" by simp_all
  ultimately show ?thesis by metis
qed

lemma set_host_checked:
  assumes "set_host h i u = Ret v"
  shows "checked_host h i (m_ip_v v) (m_host v)"
proof -
  obtain w ip_v t where c: "check_host h i = Ret (ip_v, t)"
    and v: "v = (if m_host w \<noteq> t \<or> sint (m_ip_v w) \<noteq> uint ip_v
                 then w\<lparr>m_host := t, m_ip_v := ip_v, m_built := False\<rparr> else w)"
    using assms unfolding set_host_def
    by (cases "check_host h i"; cases "lazy_parse u") (fastforce split: if_split_asm)+
  have "m_host v = t" "m_ip_v v = ip_v"
    using v same_word by (auto split: if_splits)
  with check_host_checked [OF c] show ?thesis by simp
qed

lemma set_host_inv [url_step]: "set_host h i u = Ret v \<Longrightarrow> url_inv u \<Longrightarrow> url_inv v"
  unfolding set_host_def
  by (split if_split_asm, simp, erule (1) parse_then)
     (auto simp: exec_bind_Ret intro: inv_update dest: check_host_checked checked_host_ok split: if_split_asm)

lemma url_reach_inv: "url_reach u \<Longrightarrow> url_inv u"
proof (induction rule: url_reach.induct)
  case reach_new then show ?case by (simp add: inv_defs new_url_def)
next
  case (reach_string s) then show ?case by (simp add: inv_defs url_of_string_def)
next
  case (reach_set_str s u) then show ?case by (simp add: inv_defs set_str_def)
qed (auto intro: assign_inv clear_inv url_step build_url_inv dest: lazy_parse_inv)

end
