(* ===== verification/Url_Parsed.thy ===== *)
theory Url_Parsed
  imports Url_Inv
begin

text \<open>
  What the parser yields: the ranges of a text without brackets, the absence of undefined
  behaviour outside bracketed addresses, and the form of the parts of a text that needs no
  percent encoding.
\<close>

subsection \<open>Where the ranges come from\<close>

lemma find_char_set: "find_char q s = (x, y) \<Longrightarrow> set x \<subseteq> set s \<and> set y \<subseteq> set s"
  using find_char_parts [of q s x y] by auto

lemma find_first_of_set: "find_first_of q s = (x, y) \<Longrightarrow> set x \<subseteq> set s \<and> set y \<subseteq> set s"
  using find_first_of_parts [of q s x y] by auto

lemma set_tl: "set (tl s) \<subseteq> set s"
  by (cases s) auto

definition plain_host :: "8 word \<Rightarrow> string \<Rightarrow> bool" where
  "plain_host ip_v h \<longleftrightarrow> (ip_v = 0 \<and> is_reg_name h \<and> \<not> is_ipv4 h) \<or> (ip_v = 4 \<and> is_ipv4 h)"

lemma parse_host_plain:
  assumes "parse_host s b = Ret (ip_v, h, r)" "CHR ''['' \<notin> set b"
  shows "plain_host ip_v h \<and> set r \<subseteq> set b"
proof -
  have "\<not> (b \<noteq> [] \<and> hd b = CHR ''['')" using assms(2) by (metis hd_in_set)
  moreover obtain x y where xy: "find_char CHR '':'' b = (x, y)" by (cases "find_char CHR '':'' b")
  ultimately have "h = x" "r = y" "plain_host ip_v h"
    using assms(1) by (auto simp: parse_host_def plain_host_def split: if_split_asm)
  then show ?thesis using find_char_set [OF xy] by simp
qed

definition plain_auth :: "string option \<times> 8 word \<times> string \<times> string option \<Rightarrow> bool" where
  "plain_auth = (\<lambda>(user, ip_v, host, port).
     pred_option (\<lambda>t. is_chars t 0x05) user \<and> plain_host ip_v host \<and> pred_option is_port port)"

lemma parse_user_plain:
  "parse_user s a = Ret (user, b) \<Longrightarrow> pred_option (\<lambda>t. is_chars t 0x05) user \<and> set b \<subseteq> set a"
  using set_tl find_char_set by (fastforce simp: parse_user_def split: if_split_asm prod.splits)

lemma parse_authority_plain:
  "parse_authority s a = Ret auth \<Longrightarrow> CHR ''['' \<notin> set a \<Longrightarrow> plain_auth auth"
  by (auto simp: parse_authority_def plain_auth_def dest!: parse_user_plain parse_host_plain parse_port_ok)

text \<open>The ranges of a text without brackets; a path after a host is absolute or empty.\<close>

definition plain_ranges :: "string \<Rightarrow> ranges \<Rightarrow> bool" where
  "plain_ranges s r \<longleftrightarrow>
     pred_option is_scheme (r_scheme r) \<and> pred_option (\<lambda>t. is_chars t 0x05) (r_user r)
     \<and> pred_option (plain_host (r_ip_v r)) (r_host r) \<and> (r_host r = None \<longrightarrow> r_ip_v r = - 1)
     \<and> pred_option is_port (r_port r)
     \<and> is_chars (r_path r) 0x2F \<and> set (r_path r) \<subseteq> set s
     \<and> (r_host r \<noteq> None \<longrightarrow> r_path r = [] \<or> hd (r_path r) = CHR ''/'')
     \<and> pred_option (\<lambda>t. set t \<subseteq> set s) (r_query r)
     \<and> pred_option (\<lambda>t. is_chars t 0x3F \<and> set t \<subseteq> set s) (r_fragment r)"

definition cut_query :: "string \<Rightarrow> string option \<times> string" where
  "cut_query p = (if p \<noteq> [] \<and> hd p = CHR ''?'' then
                 (case find_char CHR ''#'' (tl p) of (qry, p) \<Rightarrow> (Some qry, p))
               else (None, p))"

lemma cut_query_set: "cut_query p = (qry, r) \<Longrightarrow> pred_option (\<lambda>t. set t \<subseteq> set p) qry \<and> set r \<subseteq> set p"
  using find_char_set [of _ "tl p"] set_tl [of p]
  by (fastforce simp: cut_query_def split: prod.splits if_split_asm)

lemma parse_tail_cases:
  assumes "parse_tail s scheme auth b = Ret r"
  obtains pth p qry p1 where
    "find_first_of ''?#'' b = (pth, p)" "cut_query p = (qry, p1)" "is_chars pth 0x2F"
    "r_fragment r = None \<or> r_fragment r = Some (tl p1) \<and> is_chars (tl p1) 0x3F"
    "r_scheme r = scheme" "r_path r = pth" "r_query r = qry"
    "r_user r = (case auth of None \<Rightarrow> None | Some (user, _, _, _) \<Rightarrow> user)"
    "r_host r = map_option (\<lambda>(_, _, host, _). host) auth"
    "r_ip_v r = (case auth of None \<Rightarrow> - 1 | Some (_, ip_v, _, _) \<Rightarrow> ip_v)"
    "r_port r = (case auth of None \<Rightarrow> None | Some (_, _, _, port) \<Rightarrow> port)"
proof -
  obtain pth p where p: "find_first_of ''?#'' b = (pth, p)" by (cases "find_first_of ''?#'' b")
  obtain qry p1 where qry: "cut_query p = (qry, p1)" by (cases "cut_query p")
  show thesis
    using assms that [OF p qry]
    unfolding parse_tail_def p prod.case Let_def cut_query_def [symmetric] qry
    by (auto split: if_split_asm)
qed

lemma parse_tail_plain:
  assumes "parse_tail s scheme auth b = Ret r" "pred_option is_scheme scheme" "pred_option plain_auth auth"
    and "auth \<noteq> None \<Longrightarrow> b = [] \<or> hd b \<in> set ''/?#''" "set b \<subseteq> set s"
  shows "plain_ranges s r"
  using assms(1)
proof (cases rule: parse_tail_cases)
  case (1 pth p qry p1)
  have "set pth \<subseteq> set b" "set p \<subseteq> set b" using find_first_of_set [OF 1(1)] by simp_all
  moreover from this have "set p1 \<subseteq> set b" "pred_option (\<lambda>t. set t \<subseteq> set b) qry"
    using cut_query_set [OF 1(2)] by (auto simp: pred_option_def)
  ultimately have sets: "set pth \<subseteq> set s" "set (tl p1) \<subseteq> set s" "pred_option (\<lambda>t. set t \<subseteq> set s) qry"
    using assms(5) set_tl [of p1] unfolding pred_option_def by blast+
  have "pth = [] \<or> hd pth = hd b \<and> b \<noteq> [] \<and> hd b \<notin> set ''?#''"
    using 1(1) by (cases b) (auto simp: find_first_of_def split: if_splits)
  then have "auth \<noteq> None \<longrightarrow> pth = [] \<or> hd pth = CHR ''/''"
    using assms(4) by auto
  with 1 assms(2,3) sets show ?thesis
    unfolding plain_ranges_def plain_auth_def by (cases auth) auto
qed

lemma hd_find_first_of: "find_first_of q s = (x, y) \<Longrightarrow> y = [] \<or> hd y \<in> set q"
  using hd_dropWhile [of "\<lambda>c. c \<notin> set q" s] by (auto simp: find_first_of_def)

lemma parse_hier_plain:
  assumes "parse_hier s scheme b = Ret r" "pred_option is_scheme scheme" "set b \<subseteq> set s"
    and "CHR ''['' \<notin> set s"
  shows "plain_ranges s r"
proof (cases "length b > 1 \<and> b ! 0 = CHR ''/'' \<and> b ! 1 = CHR ''/''")
  case True
  obtain a t where a: "find_first_of ''/?#'' (drop 2 b) = (a, t)" by (cases "find_first_of ''/?#'' (drop 2 b)")
  with assms(1) True obtain auth where auth: "parse_authority s a = Ret auth"
      "parse_tail s scheme (Some auth) t = Ret r"
    by (auto simp: parse_hier_def)
  have sub: "set a \<subseteq> set s" "set t \<subseteq> set s"
    using find_first_of_set [OF a] set_drop_subset [of 2 b] assms(3) by blast+
  then have "CHR ''['' \<notin> set a" using assms(4) by blast
  then have "plain_auth auth" using auth(1) parse_authority_plain by blast
  then show ?thesis
    using parse_tail_plain [OF auth(2) assms(2) _ hd_find_first_of [OF a] sub(2)] by simp
next
  case False
  have "parse_tail s scheme None b = Ret r" using assms(1) unfolding parse_hier_def if_not_P [OF False] .
  then show ?thesis by (rule parse_tail_plain) (use assms(2,3) in simp_all)
qed

lemma parse_ranges_plain:
  assumes "parse_ranges s = Ret r" "CHR ''['' \<notin> set s"
  shows "plain_ranges s r"
proof -
  obtain b p where bp: "find_first_of '':/?#'' s = (b, p)" by (cases "find_first_of '':/?#'' s")
  show ?thesis
  proof (cases "p = []")
    case True
    moreover have "s = b" using find_first_of_parts [OF bp] True by simp
    ultimately show ?thesis
      using assms(1) bp by (auto simp: parse_ranges_def plain_ranges_def split: if_split_asm)
  next
    case False
    show ?thesis
    proof (cases "hd p = CHR '':''")
      case True
      with False assms(1) bp have "is_scheme b" "parse_hier s (Some b) (tl p) = Ret r"
        by (simp_all add: parse_ranges_def split: if_split_asm)
      moreover have "set (tl p) \<subseteq> set s" using find_first_of_set [OF bp] set_tl [of p] by blast
      ultimately show ?thesis using assms(2) by (intro parse_hier_plain [of s "Some b"]) simp_all
    next
      case notcolon: False
      with False assms(1) bp have "parse_hier s None s = Ret r" by (simp add: parse_ranges_def)
      then show ?thesis by (rule parse_hier_plain) (use assms(2) in simp_all)
    qed
  qed
qed

subsection \<open>Where the parser is defined\<close>

lemma hex_pair_not_UB [simp]: "hex_pair s \<noteq> UB"
  by (auto simp: hex_pair_def split: list.splits)

lemma decode_not_UB [simp]: "decode s \<noteq> UB"
  by (induction s rule: decode.induct) (auto split: exec.splits)

lemma decode_plus_not_UB [simp]: "decode_plus s \<noteq> UB"
  by (induction s rule: decode_plus.induct) (auto split: exec.splits)

lemma invalid_not_UB [simp]: "invalid w s \<noteq> UB"
  by (simp add: invalid_def)

lemma parse_query_not_UB [simp]: "parse_query s b \<noteq> UB"
proof (induction s b rule: parse_query.induct)
  case (1 s b)
  obtain k r where k: "find_first_of ''=;&'' b = (k, r)" by (cases "find_first_of ''=;&'' b")
  show ?case
  proof (cases r)
    case Nil
    then show ?thesis by (simp add: parse_query.simps [of s b] k)
  next
    case (Cons c b1)
    obtain v r1 where v: "find_first_of '';&'' b1 = (v, r1)" by (cases "find_first_of '';&'' b1")
    show ?thesis
      using 1 [OF k [symmetric] refl] Cons
      by (auto simp: parse_query.simps [of s b] k v split: list.splits)
  qed
qed

lemma parse_ip_literal_not_UB [simp]: "parse_ip_literal s b \<noteq> UB"
  by (auto simp: parse_ip_literal_def Let_def split: prod.splits list.splits)

lemma parse_authority_not_UB [simp]: "parse_authority s a \<noteq> UB"
proof -
  have "parse_user s a \<noteq> UB" "parse_host s b \<noteq> UB" "parse_port s b \<noteq> UB" for b
    by (simp_all add: parse_user_def parse_host_def parse_port_def split: prod.splits)
  then show ?thesis by (auto simp: parse_authority_def)
qed

lemma parse_tail_not_UB [simp]: "parse_tail s scheme auth b \<noteq> UB"
  by (auto simp: parse_tail_def Let_def split: prod.splits)

lemma parse_ranges_not_UB [simp]: "parse_ranges s \<noteq> UB"
  by (auto simp: parse_ranges_def parse_hier_def Let_def split: prod.splits)

lemma parse_url_defined:
  assumes "CHR ''['' \<notin> set (m_url u)"
  shows "parse_url u \<noteq> UB"
proof -
  have host: "decode_range (decode_host (r_ip_v r)) (r_host r) \<noteq> UB" if "parse_ranges (m_url u) = Ret r" for r
  proof -
    have "plain_ranges (m_url u) r" using that assms by (rule parse_ranges_plain)
    then have "r_ip_v r \<noteq> 6" by (cases "r_host r") (auto simp: plain_ranges_def plain_host_def)
    then show ?thesis by (cases "r_host r") (auto simp: decode_range_def decode_host_def)
  qed
  have "decode_range decode t \<noteq> UB" "decode_range (\<lambda>t. Ret (normalize_scheme t)) t \<noteq> UB"
    "decode_range Ret t \<noteq> UB" for t
    by (cases t; simp add: decode_range_def)+
  with host show ?thesis
    unfolding parse_url_def Let_def by (auto simp del: not_le split: option.splits if_split_asm)
qed

subsection \<open>Plain texts\<close>

lemma is_chars_code: "is_chars s m \<Longrightarrow> ascii s"
  by (auto simp: ascii_def is_chars_iff list_all_iff is_char_ascii)

lemma decode_plus_plain_text:
  "is_chars s m \<Longrightarrow> CHR ''%'' \<notin> set s \<Longrightarrow> \<exists>t. decode_plus s = Ret t \<and> ascii t \<and> length t = length s"
  by (induction s) (auto simp: ascii_def is_char_ascii)

definition plain_entry :: "KeyVal \<Rightarrow> bool" where
  "plain_entry kv \<longleftrightarrow> ascii (m_key kv) \<and> ascii (m_val kv)"

lemma parse_query_plain:
  "parse_query s b = Ret q \<Longrightarrow> CHR ''%'' \<notin> set b \<Longrightarrow> list_all plain_entry q"
proof (induction s b arbitrary: q rule: parse_query.induct)
  case (1 s b)
  obtain k r where k: "find_first_of ''=;&'' b = (k, r)" by (cases "find_first_of ''=;&'' b")
  note sub = find_first_of_set [OF k]
  have key: "is_chars k 0x3F" using 1(3) by (auto simp: parse_query.simps [of s b] k split: if_split_asm)
  with decode_plus_plain_text [OF key] sub 1(4) obtain key where dk: "decode_plus k = Ret key" "ascii key" by blast
  show ?case
  proof (cases r)
    case Nil
    then show ?thesis using 1(3) key dk by (auto simp: parse_query.simps [of s b] k plain_entry_def ascii_def)
  next
    case (Cons c b1)
    obtain v r1 where v: "find_first_of '';&'' b1 = (v, r1)" by (cases "find_first_of '';&'' b1")
    note subv = find_first_of_set [OF v]
    have no: "CHR ''%'' \<notin> set b1" "CHR ''%'' \<notin> set v" "CHR ''%'' \<notin> set r1" using sub subv Cons 1(4) by auto
    show ?thesis
    proof (cases "c = CHR ''=''")
      case True
      with 1(3) Cons key dk have val: "is_chars v 0x3F"
        by (auto simp: parse_query.simps [of s b] k v split: if_split_asm)
      with decode_plus_plain_text [OF val no(2)] obtain val where dv: "decode_plus v = Ret val" "ascii val" by blast
      show ?thesis
      proof (cases r1)
        case Nil
        then show ?thesis using 1(3) Cons True key dk val dv
          by (auto simp: parse_query.simps [of s b] k v plain_entry_def)
      next
        fix d b2 assume r1: "r1 = d # b2"
        then obtain q1 where "parse_query s b2 = Ret q1" "q = \<lparr>m_key = key, m_val = val\<rparr> # q1"
          using 1(3) Cons True key dk val dv by (auto simp: parse_query.simps [of s b] k v)
        moreover have "list_all plain_entry q1"
          using 1(1) [OF k [symmetric] refl] key dk Cons True v val dv r1 calculation(1) no(3) by auto
        ultimately show ?thesis using dk dv by (simp add: plain_entry_def [of "\<lparr>m_key = key, m_val = val\<rparr>"])
      qed
    next
      case False
      then obtain q1 where "parse_query s b1 = Ret q1" "q = \<lparr>m_key = key, m_val = []\<rparr> # q1"
        using 1(3) Cons key dk by (auto simp: parse_query.simps [of s b] k)
      moreover have "list_all plain_entry q1"
        using 1(2) [OF k [symmetric] refl] key dk Cons False calculation(1) no(1) by auto
      ultimately show ?thesis using dk by (simp add: plain_entry_def [of "\<lparr>m_key = key, m_val = []\<rparr>"] ascii_def)
    qed
  qed
qed


lemma join_slash_set: "set (join_slash ps) \<subseteq> \<Union> (set ` set ps) \<union> {CHR ''/''}"
  by (induction ps rule: join_slash.induct) auto

lemma path_step_set: "p \<in> set (path_step es e) \<Longrightarrow> p \<in> set es \<or> p = e"
  by (auto simp: path_step_def dest: in_set_butlastD split: if_split_asm)

lemma fold_path_set: "p \<in> set (foldl path_step es qs) \<Longrightarrow> p \<in> set es \<or> p \<in> set qs"
  by (induction qs arbitrary: es) (auto dest: path_step_set)

lemma split_slash_set: "p \<in> set (split_slash s) \<Longrightarrow> set p \<subseteq> set s"
  by (induction s arbitrary: p) (fastforce split: list.splits if_split_asm)+

lemma normalize_path_set: "set (normalize_path s) \<subseteq> set s \<union> {CHR ''/''}"
proof (cases "s = []")
  case False
  have "set p \<subseteq> set s" if "p \<in> set (path_elems s)" for p
  proof -
    have "p = [] \<or> p \<in> set (split_slash s)"
      using that last_in_set [of "split_slash s"]
      by (auto simp: path_elems_def path_last_def dest!: in_set_butlastD fold_path_set split: if_split_asm)
    then show ?thesis using split_slash_set by auto
  qed
  then have "set (join_slash (path_elems s)) \<subseteq> set s \<union> {CHR ''/''}"
    using join_slash_set [of "path_elems s"] by blast
  then show ?thesis using False by (auto simp: normalize_path_elems)
qed (simp add: normalize_path_def)

lemma normalize_path_absolute:
  "s = [] \<or> hd s = CHR ''/'' \<Longrightarrow> normalize_path s = [] \<or> hd (normalize_path s) = CHR ''/''"
  by (cases "s = []") (simp add: normalize_path_def, simp add: normalize_path_elems)

lemma ascii_normal_path: "ascii s \<Longrightarrow> ascii (normalize_path s)"
  using normalize_path_set [of s] by (auto simp: ascii_def list_all_iff)

lemma is_ipv4_lower: "is_ipv4 (to_lower s) = is_ipv4 s"
proof -
  have "lower c = CHR ''.'' \<longleftrightarrow> c = CHR ''.''" for c
    by (simp only: char_eq_code code_lower) simp
  then show ?thesis by (simp add: is_ipv4_def to_lower_def list_all_iff lower_alpha_num)
qed

lemma decode_plain_path: "is_chars p m \<Longrightarrow> CHR ''%'' \<notin> set p \<Longrightarrow> decode p = Ret p \<and> ascii p"
  by (simp add: decode_plain is_chars_code)

lemma parsed_plain_canonical:
  assumes "parse_url (url_of_string s) = Ret u" "CHR ''%'' \<notin> set s" "CHR ''['' \<notin> set s"
    and "m_scheme u \<noteq> []" "m_host u \<noteq> []" "\<not> http_default_port u"
    and "list_all (\<lambda>kv. m_key kv \<noteq> []) (m_query u)"
  shows "canonical_url u \<and> \<not> m_built u"
  using assms(1)
proof (cases rule: parse_url_cases)
  case 1
  then show ?thesis using assms(4) by (simp add: clear_def)
next
  case (2 r scheme user host port pth qry frag)
  have ms: "m_url (url_of_string s) = s" by (simp add: url_of_string_def new_url_def)
  then have r: "plain_ranges s r" using 2(3) assms(3) parse_ranges_plain by simp
  have inv: "url_inv u" using assms(1) by (rule parse_url_inv)
  obtain h where h: "r_host r = Some h" "plain_host (r_ip_v r) h"
    using r 2(6) assms(5) by (cases "r_host r") (auto simp: plain_ranges_def decode_range_def 2(11))
  then have "decode h = Ret h"
    by (intro decode_plain) (auto simp: plain_host_def dest!: ipv4_reg_name reg_name_excludes)
  then have host: "canonical_host host (r_ip_v r)"
    using 2(6) h ipv4_reg_name [of h] reg_name_lower [of h]
    by (auto simp: decode_range_def decode_host_def plain_host_def canonical_host_def is_ipv4_lower
        simp flip: normalize_reg_name_def)
       (simp_all add: normalize_reg_name_def is_ipv4_lower)
  have user: "is_chars user 0x05"
    using r 2(5) decode_plain_host by (auto simp: plain_ranges_def decode_range_Ret)
  have p: "decode (r_path r) = Ret (r_path r) \<and> ascii (r_path r)" "r_path r = [] \<or> hd (r_path r) = CHR ''/''"
    using r h(1) assms(2) by (auto intro!: decode_plain_path simp: plain_ranges_def)
  have frag: "ascii frag"
    using r 2(10) assms(2) decode_plain_path by (fastforce simp: plain_ranges_def decode_range_Ret ascii_def)
  have "list_all plain_entry qry"
    using r 2(9) assms(2) parse_query_plain ms
    by (fastforce simp: plain_ranges_def split: option.splits if_split_asm)
  then have query: "list_all (\<lambda>kv. m_key kv \<noteq> [] \<and> ascii (m_key kv) \<and> ascii (m_val kv)) qry"
    using assms(7) by (simp add: 2(11) list_all_iff plain_entry_def)
  have path: "ascii (normalize_path pth)" "normalize_path pth = [] \<or> hd (normalize_path pth) = CHR ''/''"
    using 2(8) p ascii_normal_path normalize_path_absolute by auto
  show ?thesis
    using inv assms(4-6) host user frag query path
    unfolding 2(11) canonical_url_def url_inv_def url_ok_def by (simp add: host_ok_def)
qed

end
