(* ===== verification/Url_IPv6.thy ===== *)
theory Url_IPv6
  imports Url_Parsed
begin

text \<open>
  The grammar that the validity tests for addresses accept, and where the normalisation of
  IPv6 addresses is defined: on every valid address, but not on addresses with too few
  groups and no gap.
\<close>

subsection \<open>Valid IPv4 addresses\<close>

definition byte_text :: "string \<Rightarrow> bool" where
  "byte_text n \<longleftrightarrow> is_uint n 255 = Some []"

lemma byte_text_iff: "byte_text s \<longleftrightarrow> (\<exists>n. s = to_string n \<and> n mod 2 ^ 32 \<le> 255)"
proof -
  have "(of_nat n :: 32 word) \<le> 255 \<longleftrightarrow> n mod 2 ^ 32 \<le> 255" for n
    unfolding word_le_nat_alt unat_of_nat by simp
  then show ?thesis
    unfolding byte_text_def is_uint_all canonical_iff by (metis dec_value_to_string)
qed

lemma is_uint_cases:
  assumes "is_uint s m = Some t"
  obtains "s = CHR ''0'' # t" | c r where "s = c # r" "is_digit c" "c \<noteq> CHR ''0''"
proof (cases s)
  case Nil
  with assms show thesis by (simp add: is_uint_def)
next
  case (Cons c r)
  with assms have "is_digit c" by (auto simp: is_uint_def is_num_digit split: if_split_asm)
  with Cons that assms show thesis by (cases "c = CHR ''0''") (auto simp: is_uint_zero)
qed

lemma is_uint_prefix:
  assumes "is_uint s m = Some t"
  shows "\<exists>n. s = n @ t \<and> is_uint n m = Some []"
  using assms
proof (cases rule: is_uint_cases)
  case 1
  then show ?thesis by (intro exI [of _ "''0''"]) (simp add: is_uint_zero)
next
  case (2 c r)
  let ?n = "c # takeWhile is_digit r"
  have t: "t = dropWhile is_digit r" "\<not> (of_nat (dec_value ?n) :: 32 word) > m"
    using assms 2 by (auto simp: is_uint_leading split: if_split_asm)
  then have "is_uint ?n m = Some []" using 2 by (auto simp: is_uint_leading dest: set_takeWhileD)
  with 2 t show ?thesis by (intro exI [of _ ?n]) simp
qed

lemma is_uint_extend:
  assumes "is_uint n m = Some []" "t = [] \<or> \<not> is_digit (hd t)"
  shows "is_uint (n @ t) m = Some t"
  using assms(1)
proof (cases rule: is_uint_cases)
  case 1
  then show ?thesis by (simp add: is_uint_zero)
next
  case (2 c r)
  then have r: "\<forall>x\<in>set r. is_digit x" "\<not> (of_nat (dec_value (c # takeWhile is_digit r)) :: 32 word) > m"
    using assms(1) by (auto simp: is_uint_leading split: if_split_asm)
  then have "takeWhile is_digit (r @ t) = r" "dropWhile is_digit (r @ t) = t" "takeWhile is_digit r = r"
    using assms(2) by (cases t; simp)+
  with 2 r show ?thesis by (simp add: is_uint_leading)
qed

lemma dot_no_digit [simp]: "\<not> is_digit CHR ''.''"
  by (simp add: is_digit_def)

lemma after_dot_Some: "after_dot s = Some t \<longleftrightarrow> s = CHR ''.'' # t"
  by (auto simp: after_dot_def split: list.splits)

lemma is_valid_ipv4_iff:
  "is_valid_ipv4 s \<longleftrightarrow> (\<exists>a b c d. s = a @ ''.'' @ b @ ''.'' @ c @ ''.'' @ d
     \<and> byte_text a \<and> byte_text b \<and> byte_text c \<and> byte_text d)"
proof
  assume "is_valid_ipv4 s"
  then obtain t1 t2 t3 where t: "is_uint s 255 = Some (CHR ''.'' # t1)" "is_uint t1 255 = Some (CHR ''.'' # t2)"
      "is_uint t2 255 = Some (CHR ''.'' # t3)" "is_uint t3 255 = Some []"
    unfolding is_valid_ipv4_def by (auto simp: bind_eq_Some_conv after_dot_Some)
  from t(1-3) [THEN is_uint_prefix] obtain a b c
    where "s = a @ CHR ''.'' # t1" "t1 = b @ CHR ''.'' # t2" "t2 = c @ CHR ''.'' # t3"
      "byte_text a" "byte_text b" "byte_text c" by (auto simp: byte_text_def)
  with t(4) show "\<exists>a b c d. s = a @ ''.'' @ b @ ''.'' @ c @ ''.'' @ d
     \<and> byte_text a \<and> byte_text b \<and> byte_text c \<and> byte_text d"
    by (intro exI [of _ a] exI [of _ b] exI [of _ c] exI [of _ t3]) (simp add: byte_text_def)
next
  assume "\<exists>a b c d. s = a @ ''.'' @ b @ ''.'' @ c @ ''.'' @ d
     \<and> byte_text a \<and> byte_text b \<and> byte_text c \<and> byte_text d"
  then obtain a b c d where s: "s = a @ ''.'' @ b @ ''.'' @ c @ ''.'' @ d"
    and num: "byte_text a" "byte_text b" "byte_text c" "byte_text d" by blast
  have "is_uint (x @ CHR ''.'' # t) 255 = Some (CHR ''.'' # t)" if "byte_text x" for x t
    using that by (intro is_uint_extend) (simp_all add: byte_text_def)
  with num show "is_valid_ipv4 s"
    by (simp add: is_valid_ipv4_def s after_dot_def byte_text_def)
qed

lemma byte_text_chars: "byte_text n \<Longrightarrow> n \<noteq> [] \<and> CHR '':'' \<notin> set n"
proof -
  assume "byte_text n"
  then have "canonical_dec n" by (simp add: byte_text_def is_uint_all)
  then have "n \<noteq> []" "\<forall>c\<in>set n. is_digit c" by (auto simp: canonical_dec_def list_all_iff)
  moreover have "\<not> is_digit CHR '':''" by (simp add: is_digit_def)
  ultimately show ?thesis by blast
qed

lemma ipv4_text:
  assumes "is_valid_ipv4 l"
  shows "length l > 5" "CHR '':'' \<notin> set l"
proof -
  obtain a b c d where l: "l = a @ ''.'' @ b @ ''.'' @ c @ ''.'' @ d"
    and num: "byte_text a" "byte_text b" "byte_text c" "byte_text d"
    using assms is_valid_ipv4_iff by blast
  have "length a \<ge> 1" "length b \<ge> 1" "length c \<ge> 1" "length d \<ge> 1"
    using num [THEN byte_text_chars] by (simp_all add: Suc_le_eq)
  then show "length l > 5" unfolding l by simp
  show "CHR '':'' \<notin> set l" unfolding l using num [THEN byte_text_chars] by simp
qed

subsection \<open>Groups\<close>

definition group :: "string \<Rightarrow> bool" where
  "group g \<longleftrightarrow> g \<noteq> [] \<and> length g \<le> 4 \<and> list_all is_hexdigit g"

definition colons :: "string list \<Rightarrow> string" where
  \<comment> \<open>each piece with a colon after it\<close>
  "colons gs = concat (map (\<lambda>g. g @ '':'') gs)"

lemma colons_simps [simp]: "colons [] = []" "colons (g # gs) = g @ CHR '':'' # colons gs"
  by (simp_all add: colons_def)

lemma colons_append [simp]: "colons (gs @ hs) = colons gs @ colons hs"
  by (simp add: colons_def)

lemma not_hex_colon: "is_hexdigit c \<Longrightarrow> c \<noteq> CHR '':''" "is_hexdigit c \<Longrightarrow> c \<noteq> CHR ''.''"
  by (auto simp: is_hexdigit_def is_num_def)

lemma hex_no_colon: "list_all is_hexdigit g \<Longrightarrow> CHR '':'' \<notin> set g"
  using not_hex_colon by (auto simp: list_all_iff)

lemma split_colons_piece: "CHR '':'' \<notin> set r \<Longrightarrow> split_colons r = ([], r)"
  by (induction r) auto

lemma split_colons_append:
  "CHR '':'' \<notin> set g \<Longrightarrow> split_colons (g @ CHR '':'' # s) =
     (let (ts, r) = split_colons s in ((g @ '':'') # ts, r))"
  by (induction g) (auto split: prod.splits list.splits)

lemma split_colons_colons:
  "list_all (\<lambda>g. CHR '':'' \<notin> set g) gs \<Longrightarrow> split_colons (colons gs @ s) =
     (let (ts, r) = split_colons s in (map (\<lambda>g. g @ '':'') gs @ ts, r))"
  by (induction gs) (auto simp: split_colons_append split: prod.splits)

subsection \<open>Decoding tokens\<close>

lemma decode_fields_append:
  "decode_fields i (a @ b) np fs = exec_bind (decode_fields i a np fs) (\<lambda>(np, fs). decode_fields (i + length a) b np fs)"
  by (induction i a np fs rule: decode_fields.induct) auto

definition token :: "string \<Rightarrow> bool" where
  "token t \<longleftrightarrow> t \<noteq> [] \<and> hd t \<noteq> CHR '':''"

lemma decode_fields_tokens:
  "list_all token ts \<Longrightarrow> length fs + length ts \<le> 8 \<Longrightarrow>
   decode_fields i ts np fs = Ret (np, fs @ map field_value ts)"
  by (induction ts arbitrary: i fs) (auto simp: token_def)

lemma decode_fields_gap:
  assumes "list_all token a" "list_all token b" "e = [] \<or> hd e = CHR '':''" "length a + length b \<le> 8"
  shows "decode_fields 0 (a @ e # b) 8 [] = Ret (length a, map field_value (a @ b))"
  using assms by (auto simp: decode_fields_append decode_fields_tokens)

lemma group_token: "group g \<Longrightarrow> token (g @ t)"
  by (cases g) (auto simp: group_def token_def not_hex_colon)

lemma expand_defined:
  "length fs \<ge> n \<or> null_pos \<le> length fs \<Longrightarrow> \<exists>r. expand_fields n null_pos fs = Ret r"
  by (auto simp: expand_fields_def Let_def)

subsection \<open>Valid addresses\<close>

definition last_piece :: "string \<Rightarrow> nat \<Rightarrow> nat \<Rightarrow> bool" where
  \<comment> \<open>the last piece \<open>l\<close> after \<open>k\<close> groups: a group that makes less than \<open>n\<close> of them, or an
     IPv4 address in the place of two\<close>
  "last_piece l k n \<longleftrightarrow> group l \<and> k + 1 < n \<or> is_valid_ipv4 l \<and> k + 1 < n"

lemma loop_null:
  assumes "ipv6_loop s True nf nd b p" "b = g @ p" "s = pre @ b" "list_all is_hexdigit g" "nd = length g"
    "nd \<le> 4" "length s \<ge> 2"
  shows "b = [] \<and> nf < 8 \<or> (\<exists>gs l. b = colons gs @ l \<and> list_all group gs \<and> last_piece l (nf + length gs) 8)"
  using assms
proof (induction s "True" nf nd b p arbitrary: g pre rule: ipv6_loop.induct)
  case (1 s nf nd b)
  show ?case
  proof (cases "nd > 0")
    case True
    with 1 have "group b" "nf + 1 < 8" by (auto simp: group_def)
    then show ?thesis by (intro disjI2 exI [of _ "[]"] exI [of _ b]) (simp add: last_piece_def)
  next
    case False
    with 1 show ?thesis by (auto split: if_split_asm)
  qed
next
  case (2 s nf nd b c p)
  consider "c = CHR ''.''" | "c = CHR '':''" | "c \<noteq> CHR ''.''" "c \<noteq> CHR '':''" by blast
  then show ?case
  proof cases
    case 1
    with 2 have "is_valid_ipv4 b" "nf < 7" by simp_all
    then show ?thesis by (intro disjI2 exI [of _ "[]"] exI [of _ b]) (simp add: last_piece_def)
  next
    case colon: 2
    then have nd: "nd > 0" and rec: "ipv6_loop s True (nf + 1) 0 p p" using 2 by (auto split: if_split_asm)
    have g: "group g" using 2 nd by (auto simp: group_def)
    have IH: "p = [] \<and> nf + 1 < 8 \<or> (\<exists>gs l. p = colons gs @ l \<and> list_all group gs \<and> last_piece l (nf + 1 + length gs) 8)"
      using 2(2) [OF _ _ _ rec, of "[]" "pre @ g @ '':''"] 2 colon nd by auto
    have "p \<noteq> []"
    proof
      assume p: "p = []"
      then have "s = pre @ g @ '':''" "g \<noteq> []" using 2 colon nd by auto
      then have "s ! (length s - 2) = last g" "s ! (length s - 1) = CHR '':''"
        by (cases g rule: rev_cases; simp add: nth_append)+
      moreover have "last g \<noteq> CHR '':''"
        using hex_no_colon [of g] 2(7) \<open>g \<noteq> []\<close> last_in_set by metis
      ultimately show False using rec p by auto
    qed
    with IH obtain gs l where "p = colons gs @ l" "list_all group gs" "last_piece l (nf + 1 + length gs) 8" by blast
    then show ?thesis using 2 colon g
      by (intro disjI2 exI [of _ "g # gs"] exI [of _ l]) auto
  next
    case 3
    then have "nd + 1 \<le> 4" "is_hexdigit c" "ipv6_loop s True nf (nd + 1) b p" using 2 by (auto split: if_split_asm)
    then show ?thesis using 2(3) [of "g @ [c]" pre] 2 3 by auto
  qed
qed


definition full_piece :: "string \<Rightarrow> nat \<Rightarrow> bool" where
  "full_piece l k \<longleftrightarrow> group l \<and> k = 7 \<or> is_valid_ipv4 l \<and> k = 6"

lemma loop_plain:
  assumes "ipv6_loop s False nf nd b p" "b = g @ p" "s = pre @ b" "list_all is_hexdigit g" "nd = length g"
    "nd \<le> 4" "length s \<ge> 2" "nd = 0 \<longrightarrow> p \<noteq> [] \<and> hd p \<noteq> CHR '':'' \<or> nf > 0"
    "nd = 0 \<and> p = [] \<longrightarrow> s ! (length s - 2) \<noteq> CHR '':''" "nd = 0 \<and> p = [] \<longrightarrow> s ! (length s - 1) = CHR '':''"
  shows "(\<exists>gs l. b = colons gs @ l \<and> list_all group gs \<and> full_piece l (nf + length gs))
    \<or> (\<exists>gs t. b = colons gs @ CHR '':'' # t \<and> list_all group gs \<and> nf + length gs > 0 \<and>
         ipv6_loop s True (nf + length gs) 0 t t)"
  using assms
proof (induction s "False" nf nd b p arbitrary: g pre rule: ipv6_loop.induct)
  case (1 s nf nd b)
  show ?case
  proof (cases "nd > 0")
    case True
    with 1 have "group b" "nf = 7" by (auto simp: group_def)
    then show ?thesis by (intro disjI1 exI [of _ "[]"] exI [of _ b]) (simp add: full_piece_def)
  next
    case False
    with 1 show ?thesis by (auto split: if_split_asm)
  qed
next
  case (2 s nf nd b c p)
  consider "c = CHR ''.''" | "c = CHR '':''" "nd = 0" | "c = CHR '':''" "nd > 0" | "c \<noteq> CHR ''.''" "c \<noteq> CHR '':''" by blast
  then show ?case
  proof cases
    case 1
    with 2 have "is_valid_ipv4 b" "nf = 6" by simp_all
    then show ?thesis by (intro disjI1 exI [of _ "[]"] exI [of _ b]) (simp add: full_piece_def)
  next
    case gap: 2
    with 2 have "ipv6_loop s True nf 0 p p" "nf > 0" "b = CHR '':'' # p" "s = (pre @ '':'') @ p" by auto
    then show ?thesis by (intro disjI2 exI [of _ "[]"] exI [of _ p]) simp
  next
    case colon: 3
    then have rec: "ipv6_loop s False (nf + 1) 0 p p" using 2(4) by simp
    have g: "group g" using 2 colon by (auto simp: group_def)
    have b: "b = g @ CHR '':'' # p" "s = (pre @ g @ '':'') @ p" using 2 colon by auto
    have "s ! (length s - 2) \<noteq> CHR '':'' \<and> s ! (length s - 1) = CHR '':''" if p: "p = []"
    proof -
      have "g \<noteq> []" "CHR '':'' \<notin> set g"
        using hex_no_colon [of g] g by (simp_all add: group_def)
      then have "g \<noteq> []" "last g \<noteq> CHR '':''" using last_in_set by metis+
      then show ?thesis
        unfolding b(2) p by (cases g rule: rev_cases) (simp_all add: nth_append)
    qed
    then consider gs l where "p = colons gs @ l" "list_all group gs" "full_piece l (nf + 1 + length gs)"
      | gs t where "p = colons gs @ CHR '':'' # t" "list_all group gs" "ipv6_loop s True (nf + 1 + length gs) 0 t t"
      using 2(2) [OF _ _ _ rec, of "[]" "pre @ g @ '':''"] colon b 2(9,10) by auto
    then show ?thesis
    proof cases
      case (1 gs l)
      then show ?thesis using b g by (intro disjI1 exI [of _ "g # gs"] exI [of _ l]) auto
    next
      case (2 gs t)
      then show ?thesis using b(1) g
        by (intro disjI2 exI [of _ "g # gs"] exI [of _ t]) auto
    qed
  next
    case 4
    then have "nd + 1 \<le> 4" "is_hexdigit c" "ipv6_loop s False nf (nd + 1) b p" using 2 by (auto split: if_split_asm)
    then show ?thesis using 2(3) [of "g @ [c]" pre] 2 4 by auto
  qed
qed

text \<open>A valid address is eight groups, or groups on both sides of a gap.\<close>

lemma valid_ipv6_cases:
  assumes "is_valid_ipv6 s"
  obtains gs l where "s = colons gs @ l" "list_all group gs" "full_piece l (length gs)"
  | gs t where "s = (if gs = [] then '':'' else colons gs) @ CHR '':'' # t" "list_all group gs"
      "t = [] \<and> length gs < 8 \<or> (\<exists>hs l. t = colons hs @ l \<and> list_all group hs \<and> last_piece l (length gs + length hs) 8)"
proof -
  have len: "length s \<ge> 2" using assms by (auto simp: is_valid_ipv6_def split: if_split_asm)
  show thesis
  proof (cases "s ! 0 = CHR '':''")
    case True
    with assms len obtain t where s: "s = CHR '':'' # CHR '':'' # t"
      by (cases s; cases "tl s") (auto simp: is_valid_ipv6_def split: if_split_asm)
    then have "t = [] \<or> ipv6_loop s True 0 0 t t"
      using assms by (auto simp: is_valid_ipv6_def split: if_split_asm)
    moreover have "t = [] \<and> (0::nat) < 8 \<or> (\<exists>hs l. t = colons hs @ l \<and> list_all group hs \<and> last_piece l (0 + length hs) 8)"
      if "ipv6_loop s True 0 0 t t"
      using that by (rule loop_null [where g = "[]" and pre = "''::''"]) (simp_all add: s)
    ultimately show thesis using that(2) [of "[]" t] s by auto
  next
    case False
    have "ipv6_loop s False 0 0 s s" using assms False by (auto simp: is_valid_ipv6_def split: if_split_asm)
    then have "(\<exists>gs l. s = colons gs @ l \<and> list_all group gs \<and> full_piece l (0 + length gs))
      \<or> (\<exists>gs t. s = colons gs @ CHR '':'' # t \<and> list_all group gs \<and> 0 + length gs > 0 \<and>
         ipv6_loop s True (0 + length gs) 0 t t)"
      by (rule loop_plain [where g = "[]" and pre = "[]"]) (use False len in \<open>cases s; simp\<close>)+
    then consider gs l where "s = colons gs @ l" "list_all group gs" "full_piece l (length gs)"
      | gs t where "s = colons gs @ CHR '':'' # t" "list_all group gs" "gs \<noteq> []" "ipv6_loop s True (length gs) 0 t t"
      by fastforce
    then show thesis
    proof cases
      case 1
      then show thesis by (rule that(1))
    next
      case (2 gs t)
      have "t = [] \<and> length gs < 8 \<or> (\<exists>hs l. t = colons hs @ l \<and> list_all group hs \<and> last_piece l (length gs + length hs) 8)"
        using 2(4) by (rule loop_null [where g = "[]" and pre = "colons gs @ '':''"]) (use 2 len in simp_all)
      with 2 that(2) [of gs t] show thesis by simp
    qed
  qed
qed


subsection \<open>Normalising\<close>

lemma groups_no_colon: "list_all group gs \<Longrightarrow> list_all (\<lambda>g. CHR '':'' \<notin> set g) gs"
  using hex_no_colon by (auto simp: group_def list_all_iff)

lemma group_tokens: "list_all group gs \<Longrightarrow> list_all token (map (\<lambda>g. g @ '':'') gs)"
  using group_token by (auto simp: list_all_iff)

definition piece :: "string \<Rightarrow> bool" where
  "piece l \<longleftrightarrow> group l \<or> is_valid_ipv4 l"

lemma piece_facts:
  assumes "piece l"
  shows "l \<noteq> []" "CHR '':'' \<notin> set l" "length l > 5 \<longleftrightarrow> \<not> group l"
  using assms ipv4_text [of l] hex_no_colon [of l] by (auto simp: piece_def group_def)

lemma last_colon: "l \<noteq> [] \<Longrightarrow> CHR '':'' \<notin> set l \<Longrightarrow> (x @ l) ! (length (x @ l) - 1) \<noteq> CHR '':''"
  by (cases l rule: rev_cases) (auto simp: nth_append)

lemma tokens_few:
  assumes "split_colons p = (ts, r)" "length ts < 8"
    and "p = (let q = (if s ! 0 = CHR '':'' then drop 1 s else s) in if s ! (length s - 1) = CHR '':'' then butlast q else q)"
  shows "ipv6_tokens s = Ret (ts @ [r])"
  using assms by (simp add: ipv6_tokens_def Let_def)

lemma tokens_full:
  assumes "list_all group gs" "piece l" "length gs < 8"
  shows "ipv6_tokens (colons gs @ l) = Ret (map (\<lambda>g. g @ '':'') gs @ [l])"
proof (rule tokens_few)
  note pf = piece_facts [OF assms(2)]
  show "split_colons (colons gs @ l) = (map (\<lambda>g. g @ '':'') gs, l)"
    using split_colons_colons [OF groups_no_colon [OF assms(1)]] split_colons_piece [OF pf(2)] by simp
  have "(colons gs @ l) ! 0 \<noteq> CHR '':''"
  proof (cases gs)
    case Nil
    then show ?thesis using pf by (cases l) auto
  next
    case (Cons g hs)
    then show ?thesis using assms(1) by (cases g) (auto simp: group_def not_hex_colon)
  qed
  then show "colons gs @ l = (let q = (if (colons gs @ l) ! 0 = CHR '':'' then drop 1 (colons gs @ l) else colons gs @ l)
      in if (colons gs @ l) ! (length (colons gs @ l) - 1) = CHR '':'' then butlast q else q)"
    using last_colon [OF pf(1,2)] by simp
qed (use assms in simp)

lemma tokens_gap:
  assumes "list_all group gs" "list_all group hs" "piece l" "length gs + length hs < 7"
  shows "ipv6_tokens ((if gs = [] then '':'' else colons gs) @ CHR '':'' # colons hs @ l) =
    Ret (map (\<lambda>g. g @ '':'') gs @ '':'' # map (\<lambda>g. g @ '':'') hs @ [l])"
proof -
  let ?s = "(if gs = [] then '':'' else colons gs) @ CHR '':'' # colons hs @ l"
  note pf = piece_facts [OF assms(3)]
  have "split_colons (CHR '':'' # colons hs @ l) = ('':'' # map (\<lambda>g. g @ '':'') hs, l)"
    using split_colons_append [of "[]"] split_colons_colons [OF groups_no_colon [OF assms(2)]]
      split_colons_piece [OF pf(2)] by simp
  then have "split_colons (colons gs @ CHR '':'' # colons hs @ l) =
      (map (\<lambda>g. g @ '':'') gs @ '':'' # map (\<lambda>g. g @ '':'') hs, l)"
    using split_colons_colons [OF groups_no_colon [OF assms(1)]] by simp
  moreover have "?s ! 0 = CHR '':'' \<longleftrightarrow> gs = []"
    using assms(1) by (cases gs; cases "hd gs") (auto simp: group_def not_hex_colon)
  moreover have "?s ! (length ?s - 1) \<noteq> CHR '':''"
    using last_colon [OF pf(1,2), of "(if gs = [] then '':'' else colons gs) @ CHR '':'' # colons hs"] by simp
  ultimately show ?thesis
    using assms(4) by (intro tokens_few [THEN trans]) auto
qed


lemma tokens_end:
  assumes "list_all group gs" "gs \<noteq> []" "length gs < 8"
  shows "ipv6_tokens (colons gs @ '':'') = Ret (map (\<lambda>g. g @ '':'') gs @ [[]])"
proof (rule tokens_few)
  show "split_colons (colons gs) = (map (\<lambda>g. g @ '':'') gs, [])"
    using split_colons_colons [OF groups_no_colon [OF assms(1)], of "[]"] by simp
  have "(colons gs @ '':'') ! 0 \<noteq> CHR '':''"
    using assms(1,2) by (cases gs; cases "hd gs") (auto simp: group_def not_hex_colon)
  then show "colons gs = (let q = (if (colons gs @ '':'') ! 0 = CHR '':'' then drop 1 (colons gs @ '':'') else colons gs @ '':'')
      in if (colons gs @ '':'') ! (length (colons gs @ '':'') - 1) = CHR '':'' then butlast q else q)"
    by (simp add: nth_append)
qed (use assms in simp)

lemma piece_token: "group l \<Longrightarrow> token l"
  using group_token [of l "[]"] by simp

text \<open>A gap at token \<open>length gs\<close>, with at most as many fields as there is room for.\<close>

lemma fields_gap:
  assumes "list_all token a" "list_all token b" "e = [] \<or> hd e = CHR '':''" "length a + length b \<le> 8"
  shows "\<exists>fs. exec_bind (decode_fields 0 (a @ e # b) 8 []) (\<lambda>(null_pos, fields). expand_fields n null_pos fields) = Ret fs"
  using expand_defined [of n "map field_value (a @ b)" "length a"] decode_fields_gap [OF assms] by auto

lemma fields_full:
  assumes "list_all token a" "length a \<le> 8" "n \<le> length a"
  shows "\<exists>fs. exec_bind (decode_fields 0 a 8 []) (\<lambda>(null_pos, fields). expand_fields n null_pos fields) = Ret fs"
  using expand_defined [of n "map field_value a"] decode_fields_tokens [OF assms(1), of "[]" 0 8] assms by auto

lemma normalize_from_tokens:
  assumes "is_ipv6 s" "s \<noteq> ''::''" "ipv6_tokens s = Ret (ts @ [l])"
    and "length l \<le> 5 \<Longrightarrow> \<exists>fs. exec_bind (decode_fields 0 (ts @ [l]) 8 []) (\<lambda>(np, f). expand_fields 8 np f) = Ret fs"
    and "length l > 5 \<Longrightarrow> \<exists>fs. exec_bind (decode_fields 0 ts 8 []) (\<lambda>(np, f). expand_fields 6 np f) = Ret fs"
  shows "\<exists>t. normalize_IPv6 s = Ret t"
  using assms by (cases "length l > 5") (auto simp: normalize_IPv6_def Let_def)

lemma valid_ipv6_normalizes:
  assumes "is_valid_ipv6 s" "is_ipv6 s"
  shows "\<exists>t. normalize_IPv6 s = Ret t"
proof (cases "s = ''::''")
  case True
  with assms show ?thesis by (simp add: normalize_IPv6_def)
next
  case notgap: False
  let ?m = "map (\<lambda>g. g @ '':'')"
  from assms(1) show ?thesis
  proof (cases rule: valid_ipv6_cases)
    case (1 gs l)
    then have l: "piece l" "length gs < 8" by (auto simp: full_piece_def piece_def)
    note tok = tokens_full [OF 1(2) l, folded 1(1)]
    show ?thesis
    proof (rule normalize_from_tokens [OF assms(2) notgap tok])
      assume "length l \<le> 5"
      then have "group l" "length gs = 7" using ipv4_text(1) [of l] 1(3) by (auto simp: full_piece_def)
      then show "\<exists>fs. exec_bind (decode_fields 0 (?m gs @ [l]) 8 []) (\<lambda>(np, f). expand_fields 8 np f) = Ret fs"
        using group_tokens [OF 1(2)] piece_token by (intro fields_full) simp_all
    next
      assume "length l > 5"
      then have "length gs = 6" using piece_facts [OF l(1)] 1(3) by (auto simp: full_piece_def)
      then show "\<exists>fs. exec_bind (decode_fields 0 (?m gs) 8 []) (\<lambda>(np, f). expand_fields 6 np f) = Ret fs"
        using group_tokens [OF 1(2)] by (intro fields_full) simp_all
    qed
  next
    case (2 gs t)
    show ?thesis
    proof (cases "t = []")
      case True
      then have s: "s = colons gs @ '':''" "gs \<noteq> []" and "length gs < 8"
        using 2 notgap by (auto simp: last_piece_def piece_facts(1) piece_def colons_def group_def split: if_splits)
      note tok = tokens_end [OF 2(2) s(2) \<open>length gs < 8\<close>, folded s(1)]
      show ?thesis
        by (rule normalize_from_tokens [OF assms(2) notgap tok])
           (use fields_gap [OF group_tokens [OF 2(2)], of "[]" "[]"] \<open>length gs < 8\<close> in simp_all)
    next
      case False
      then obtain hs l where t: "t = colons hs @ l" "list_all group hs" "last_piece l (length gs + length hs) 8"
        using 2(3) by blast
      then have l: "piece l" "length gs + length hs < 7" by (auto simp: last_piece_def piece_def)
      have "s = (if gs = [] then '':'' else colons gs) @ CHR '':'' # colons hs @ l" using 2(1) t(1) by simp
      note tok = tokens_gap [OF 2(2) t(2) l, folded this]
      have tok: "ipv6_tokens s = Ret ((?m gs @ '':'' # ?m hs) @ [l])" using tok by simp
      show ?thesis
      proof (rule normalize_from_tokens [OF assms(2) notgap tok])
        assume "length l \<le> 5"
        then have "list_all token (?m hs @ [l])"
          using piece_facts [OF l(1)] group_tokens [OF t(2)] piece_token by simp
        with fields_gap [OF group_tokens [OF 2(2)] this, of "'':''" 8] l(2)
        show "\<exists>fs. exec_bind (decode_fields 0 ((?m gs @ '':'' # ?m hs) @ [l]) 8 []) (\<lambda>(np, f). expand_fields 8 np f) = Ret fs"
          by simp
      next
        show "\<exists>fs. exec_bind (decode_fields 0 (?m gs @ '':'' # ?m hs) 8 []) (\<lambda>(np, f). expand_fields 6 np f) = Ret fs"
          using fields_gap [OF group_tokens [OF 2(2)] group_tokens [OF t(2)], of "'':''" 6] l(2) by simp
      qed
    qed
  qed
qed

text \<open>Too few groups and no gap: the loop that moves the fields runs off the array.\<close>

lemma short_ipv6_UB:
  assumes "list_all group gs" "group l" "0 < length gs" "length gs < 7"
  shows "normalize_IPv6 (colons gs @ l) = UB"
proof -
  have "\<forall>c\<in>set (colons gs @ l). c = CHR '':'' \<or> is_hexdigit c"
    using assms(1,2) by (auto simp: group_def list_all_iff colons_def)
  moreover have "length (colons gs @ l) \<ge> 2" "length (colons gs @ l) \<le> 254"
  proof -
    have len: "length (colons hs) \<le> 5 * length hs" if "list_all group hs" for hs
      using that by (induction hs) (auto simp: group_def)
    have "length l \<le> 4" "l \<noteq> []" using assms(2) by (auto simp: group_def)
    then show "length (colons gs @ l) \<ge> 2" "length (colons gs @ l) \<le> 254"
      using len [OF assms(1)] assms(3,4) by (cases gs; auto simp: Suc_le_eq)+
  qed
  ultimately have v6: "is_ipv6 (colons gs @ l)" by (auto simp: is_ipv6_def list_all_iff)
  have "l \<noteq> []" "list_all is_hexdigit l" using assms(2) by (auto simp: group_def)
  then have "last (colons gs @ l) \<noteq> CHR '':''"
    using hex_no_colon [of l] last_in_set [of l] by (metis last_appendR)
  then have no: "colons gs @ l \<noteq> ''::''" by auto
  have "list_all token (map (\<lambda>g. g @ '':'') gs @ [l])"
    using group_tokens [OF assms(1)] piece_token [OF assms(2)] by simp
  from decode_fields_tokens [OF this, of "[]" 0 8] assms(4)
  have "decode_fields 0 (map (\<lambda>g. g @ '':'') gs @ [l]) 8 [] = Ret (8, map field_value (map (\<lambda>g. g @ '':'') gs @ [l]))"
    by simp
  moreover have "length l \<le> 5" "piece l" using assms(2) by (simp_all add: group_def piece_def)
  ultimately show ?thesis
    using v6 no tokens_full [OF assms(1) \<open>piece l\<close>] assms(4)
    by (simp add: normalize_IPv6_def expand_fields_def)
qed

end
