(* ===== verification/Url_Props.thy ===== *)
theory Url_Props
  imports Url_IPv6
begin

text \<open>
  The properties of the URL class: what is preserved between text and parts, which
  calls are defined, and which texts the two directions disagree on.
\<close>

subsection \<open>Round trips\<close>

text \<open>
  C11. What build_url writes for a URL in normal form is parsed back to the same parts, as
  long as the text has at most 8000 characters. Normal form asks for a scheme and a host,
  a port that is not the default of http or https for its scheme, an absolute normalised
  path, no empty query key, ASCII text in path, query and fragment (any ASCII character,
  escaped as needed), and user info that needs no escapes (class 0x05).
\<close>

theorem url_round_trip:
  assumes "canonical_url u"
  shows "\<exists>t. build_url u = Ret (u\<lparr>m_built := False, m_url := t\<rparr>) \<and>
    (length t \<le> 8000 \<longrightarrow> parse_url (url_of_string t) = Ret (u\<lparr>m_built := False, m_url := t\<rparr>))"
  using assms by (rule canonical_round_trip)

definition sample_url :: url where
  "sample_url = \<lparr>m_scheme = ''wss'', m_user = ''me'', m_host = ''::1'', m_port = ''8080'', m_path = ''/a b/c'',
     m_query = [\<lparr>m_key = ''k='', m_val = ''x&y''\<rparr>], m_fragment = ''top'', m_url = [], m_parse = True,
     m_built = False, m_ip_v = 6\<rparr>"

theorem url_round_trip_witness:
  "\<exists>t. build_url sample_url = Ret (sample_url\<lparr>m_built := False, m_url := t\<rparr>) \<and>
    (length t \<le> 8000 \<longrightarrow> parse_url (url_of_string t) = Ret (sample_url\<lparr>m_built := False, m_url := t\<rparr>))"
proof (rule url_round_trip)
  show "canonical_url sample_url" by code_simp
qed

text \<open>
  C28. A URL that was parsed from a text without percent signs and opening brackets, with
  a scheme and a host, a port that is not the default of http or https for its scheme, and
  no empty key in the query, is written by build_url to a text that, up to 8000
  characters, is parsed to the same parts again: what the parser normalises stays as it
  is.
\<close>

theorem plain_text_stable:
  assumes "parse_url (url_of_string s) = Ret u" "CHR ''%'' \<notin> set s" "CHR ''['' \<notin> set s"
    and "m_scheme u \<noteq> []" "m_host u \<noteq> []" "\<not> http_default_port u"
    and "list_all (\<lambda>kv. m_key kv \<noteq> []) (m_query u)"
  shows "\<exists>t. build_url u = Ret (u\<lparr>m_url := t\<rparr>) \<and>
    (length t \<le> 8000 \<longrightarrow> parse_url (url_of_string t) = Ret (u\<lparr>m_url := t\<rparr>))"
proof -
  have "canonical_url u" "\<not> m_built u" using parsed_plain_canonical [OF assms] by simp_all
  moreover from this have "u\<lparr>m_built := False, m_url := t\<rparr> = u\<lparr>m_url := t\<rparr>" for t by simp
  ultimately show ?thesis using canonical_round_trip by metis
qed

definition ws_text :: string where "ws_text = ''WS://Host:81/./x/../b?k=v&w''"
definition ws_parsed :: url where
  "ws_parsed = \<lparr>m_scheme = ''ws'', m_user = [], m_host = ''host'', m_port = ''81'', m_path = ''/b'',
     m_query = [\<lparr>m_key = ''k'', m_val = ''v''\<rparr>, \<lparr>m_key = ''w'', m_val = []\<rparr>], m_fragment = [],
     m_url = ws_text, m_parse = True, m_built = False, m_ip_v = 0\<rparr>"

theorem plain_text_stable_witness:
  "\<exists>t. build_url ws_parsed = Ret (ws_parsed\<lparr>m_url := t\<rparr>) \<and>
    (length t \<le> 8000 \<longrightarrow> parse_url (url_of_string t) = Ret (ws_parsed\<lparr>m_url := t\<rparr>))"
proof (rule plain_text_stable [of ws_text])
  show "parse_url (url_of_string ws_text) = Ret ws_parsed" by code_simp
qed (simp_all add: ws_text_def ws_parsed_def http_default_port_def)

lemma put_all_total:
  assumes "\<And>c. f c = UB \<and> code c \<ge> 128 \<or> (\<exists>t. f c = Ret t) \<and> code c < 128"
  shows "if ascii s then \<exists>t. put_all f s = Ret t else put_all f s = UB"
proof (induction s)
  case (Cons c s)
  then show ?case using assms [of c] by (auto simp: ascii_def not_le split: if_split_asm)
qed (simp add: ascii_def)

lemma percent_total: "percent c = UB \<and> code c \<ge> 128 \<or> (\<exists>t. percent c = Ret t) \<and> code c < 128"
  using percent_UB [of c] percent_pair(1) [of c] by (cases "code c < 128") auto

lemma encoders_total:
  "encode_char m c = UB \<and> code c \<ge> 128 \<or> (\<exists>t. encode_char m c = Ret t) \<and> code c < 128"
  "encode_key_char m c = UB \<and> code c \<ge> 128 \<or> (\<exists>t. encode_key_char m c = Ret t) \<and> code c < 128"
  "encode_val_char m c = UB \<and> code c \<ge> 128 \<or> (\<exists>t. encode_val_char m c = Ret t) \<and> code c < 128"
  using percent_total [of c] is_char_ascii [of c m]
  by (auto simp: encode_char_def encode_key_char_def encode_val_char_def)

lemma put_all_encoders:
  "if ascii s then \<exists>t. put_all (encode_char m) s = Ret t else put_all (encode_char m) s = UB"
  "if ascii s then \<exists>t. put_all (encode_key_char m) s = Ret t else put_all (encode_key_char m) s = UB"
  "if ascii s then \<exists>t. put_all (encode_val_char m) s = Ret t else put_all (encode_val_char m) s = UB"
  by (rule put_all_total, rule encoders_total)+

definition codecs :: "((string \<Rightarrow> string exec) \<times> (string \<Rightarrow> string exec)) list" where
  \<comment> \<open>the ways in which \<open>build_url\<close> writes a part, with the way \<open>parse_url\<close> reads it\<close>
  "codecs = [(\<lambda>s. encode s 0x05, decode), (\<lambda>s. encode s 0x0F, decode), (\<lambda>s. encode s 0x1F, decode),
     (\<lambda>s. encode_query_key s 0x1F, decode_plus), (\<lambda>s. encode_query_val s 0x1F, decode_plus)]"

text \<open>
  C29. Each of the percent encoders is undone by its decoder on every text of characters
  below 128; a character from 128 on makes it index its digit literal with a negative
  number.
\<close>

theorem encoders_invert:
  "list_all (\<lambda>(enc, dec). if ascii s then \<exists>t. enc s = Ret t \<and> dec t = Ret s else enc s = UB) codecs"
  using put_all_encoders(1) [of s "0x05"] put_all_encoders(1) [of s "0x0F"] put_all_encoders(1) [of s "0x1F"]
    put_all_encoders(2,3) [of s "0x1F"]
    user_codec.round_trip path_codec.round_trip fragment_codec.round_trip key_codec.round_trip val_codec.round_trip
  by (auto simp: codecs_def encode_def encode_query_key_def encode_query_val_def split: if_split_asm)

subsection \<open>The objects\<close>



theorem path_normal_form:
  "normalize_path (normalize_path s) = normalize_path s
   \<and> (\<forall>p\<in>set (split_slash (normalize_path s)). p \<noteq> ''.'' \<and> p \<noteq> ''..'')
   \<and> (s \<noteq> [] \<longrightarrow> hd s = CHR ''/'' \<longrightarrow> hd (normalize_path s) = CHR ''/'')
   \<and> set (normalize_path s) \<subseteq> set s \<union> {CHR ''/''}"
  using normalize_path_fixed normal_pieces normalize_path_set
  by (auto simp: normalize_path_elems)

theorem path_normal_form_witness:
  "normalize_path (normalize_path ''/a/./b/../c'') = normalize_path ''/a/./b/../c''
   \<and> hd (normalize_path ''/a/./b/../c'') = CHR ''/''"
  using path_normal_form [of "''/a/./b/../c''"] by simp

text \<open>
  C39. is_port accepts exactly the decimal texts of numbers that are at most 65535 modulo
  2^32, since is_uint adds up in 32 bits.
\<close>

theorem port_wraps: "is_port s \<longleftrightarrow> (\<exists>n. s = to_string n \<and> n mod 2 ^ 32 \<le> 65535)"
  by (rule is_port_iff)

theorem ipv4_numbers:
  "is_valid_ipv4 s \<longleftrightarrow>
     (\<exists>a b c d. s = to_string a @ ''.'' @ to_string b @ ''.'' @ to_string c @ ''.'' @ to_string d
        \<and> a mod 2 ^ 32 \<le> 255 \<and> b mod 2 ^ 32 \<le> 255 \<and> c mod 2 ^ 32 \<le> 255 \<and> d mod 2 ^ 32 \<le> 255)"
  unfolding is_valid_ipv4_iff byte_text_iff by blast

subsection \<open>Undefined behaviour\<close>

theorem parse_without_brackets_defined: "CHR ''['' \<notin> set (m_url u) \<Longrightarrow> parse_url u \<noteq> UB"
  by (rule parse_url_defined)

theorem parse_without_brackets_defined_witness: "parse_url (url_of_string ''ws://a:b@c'') \<noteq> UB"
  by (rule parse_without_brackets_defined) (simp add: url_of_string_def new_url_def)

theorem host_setter_defined: "set_host h ip_v u = UB \<longleftrightarrow> length h \<le> 253 \<and> lazy_parse u = UB"
proof -
  have "check_host h ip_v \<noteq> UB" for ip_v
    using valid_ipv6_normalizes [of h] by (auto simp: check_host_def)
  then show ?thesis by (auto simp: set_host_def)
qed

definition ipv6_url :: "string \<Rightarrow> string" where
  "ipv6_url h = ''ws://['' @ h @ '']/''"

lemma ipv6_url_text:
  assumes "is_ipv6 h"
  shows "parse_url (url_of_string (ipv6_url h)) = exec_bind (normalize_IPv6 h) (\<lambda>t.
    Ret ((url_of_string (ipv6_url h))\<lparr>m_scheme := ''ws'', m_host := t, m_ip_v := 6, m_path := ''/'', m_parse := True\<rparr>))"
proof -
  note ex = ipv6_excludes [OF assms]
  have l: "length (ipv6_url h) \<le> 8000" using assms by (auto simp: is_ipv6_def ipv6_url_def split: if_split_asm)
  have a: "find_first_of ''/?#'' (CHR ''['' # h @ '']/'') = (CHR ''['' # h @ '']'', ''/'')"
    using find_first_of_append [of "CHR ''['' # h @ '']''" "''/?#''" "''/''"] ex by auto
  have u: "find_char CHR ''@'' (CHR ''['' # h @ '']'') = (CHR ''['' # h @ '']'', [])"
    using ex by (intro find_char_none) auto
  have b: "find_char CHR '']'' (h @ '']'') = (h, '']'')"
    using ex by (intro find_char_append) auto
  have v: "hd h \<noteq> CHR ''v''" "h \<noteq> []"
    using assms ex by (cases h; auto simp: is_ipv6_def)+
  have "parse_authority (ipv6_url h) (CHR ''['' # h @ '']'') = Ret (None, 6, h, None)"
    using assms v by (simp add: parse_authority_def parse_user_def u parse_host_def parse_ip_literal_def b parse_port_def)
  moreover have "parse_tail (ipv6_url h) (Some ''ws'') (Some (None, 6, h, None)) ''/'' =
      Ret \<lparr>r_scheme = Some ''ws'', r_user = None, r_host = Some h, r_ip_v = 6,
      r_port = None, r_path = ''/'', r_query = None, r_fragment = None\<rparr>"
    by (simp add: parse_tail_def find_first_of_def is_char_class char_class_def)
  ultimately have "parse_hier (ipv6_url h) (Some ''ws'') (''//['' @ h @ '']/'') =
      Ret \<lparr>r_scheme = Some ''ws'', r_user = None, r_host = Some h, r_ip_v = 6,
      r_port = None, r_path = ''/'', r_query = None, r_fragment = None\<rparr>"
    by (simp add: parse_hier_def a)
  moreover have "find_first_of '':/?#'' (ipv6_url h) = (''ws'', ''://['' @ h @ '']/'')"
    by (simp add: find_first_of_def ipv6_url_def)
  moreover have "is_scheme ''ws''" by code_simp
  ultimately have r: "parse_ranges (ipv6_url h) = Ret \<lparr>r_scheme = Some ''ws'', r_user = None, r_host = Some h, r_ip_v = 6,
      r_port = None, r_path = ''/'', r_query = None, r_fragment = None\<rparr>"
    by (simp add: parse_ranges_def)
  have d: "decode_host 6 h = normalize_IPv6 h" using ex by (simp add: decode_host_def decode_plain)
  have n: "normalize_scheme ''ws'' = ''ws''" "normalize_path ''/'' = ''/''" by code_simp+
  have t: "m_url (url_of_string (ipv6_url h)) = ipv6_url h" "ipv6_url h \<noteq> []"
    by (simp_all add: url_of_string_def new_url_def ipv6_url_def)
  show ?thesis
    unfolding parse_url_def using l t 
    by (simp add: r decode_range_def d n del: not_le) (simp add: url_of_string_def new_url_def)
qed


text \<open>
  C34. Parsing a URL of at most 8000 characters whose syntax is accepted (scheme, user
  info, port and the rest included) and whose host is an IP literal of two to seven groups
  without a double colon runs off the arrays of normalize_IPv6.
\<close>

theorem short_ipv6_undefined:
  assumes "parse_ranges (m_url u) = Ret r" "length (m_url u) \<le> 8000" "r_host r = Some (colons gs @ l)" "r_ip_v r = 6"
    and "list_all group gs" "group l" "0 < length gs" "length gs < 7"
  shows "parse_url u = UB"
proof -
  let ?h = "colons gs @ l"
  have n: "normalize_IPv6 ?h = UB" using assms(5-8) by (rule short_ipv6_UB)
  then have "is_ipv6 ?h" by (auto simp: normalize_IPv6_def split: if_split_asm)
  then have "decode ?h = Ret ?h" using decode_plain_host address_class(2) by blast
  then have h: "decode_range (decode_host (r_ip_v r)) (r_host r) = UB"
    using n assms(3,4) by (simp add: decode_range_def decode_host_def)
  have "pred_option (\<lambda>t. is_chars t 0x05) (r_user r)" using parse_ranges_ok [OF assms(1)] by (simp add: ranges_ok_def)
  then obtain t where "decode_range decode (r_user r) = Ret t"
    by (cases "r_user r") (auto simp: decode_range_def decode_plain_host)
  moreover obtain x where "decode_range (\<lambda>t. Ret (normalize_scheme t)) (r_scheme r) = Ret x"
    by (cases "r_scheme r") (auto simp: decode_range_def)
  moreover have "m_url u \<noteq> []"
    using assms(1,3) by (auto simp: parse_ranges_def find_first_of_def)
  ultimately show ?thesis using assms(1,2) h by (simp add: parse_url_def)
qed

theorem short_ipv6_undefined_witness: "parse_url (url_of_string ''wss://me@[fe80:1:2]:81/a?k=v'') = UB"
proof -
  have r: "parse_ranges (m_url (url_of_string ''wss://me@[fe80:1:2]:81/a?k=v'')) = Ret
      \<lparr>r_scheme = Some ''wss'', r_user = Some ''me'', r_host = Some ''fe80:1:2'', r_ip_v = 6, r_port = Some ''81'',
       r_path = ''/a'', r_query = Some ''k=v'', r_fragment = None\<rparr>"
    by code_simp
  show ?thesis
    by (rule short_ipv6_undefined [OF r, of "[''fe80'', ''1'']" "''2''"])
       (simp_all add: url_of_string_def new_url_def group_def is_hexdigit_def is_num_def)
qed

subsection \<open>Texts the two directions disagree on\<close>

definition zero_group :: "string \<Rightarrow> bool" where
  "zero_group g \<longleftrightarrow> group g \<and> set g \<subseteq> {CHR ''0''}"

lemma zero_fold: "set g \<subseteq> {CHR ''0''} \<Longrightarrow>
  foldl (\<lambda>f d. push_bit 4 f OR word_of_int (get_hex_digit d)) (0 :: 16 word) g = 0"
  by (induction g) (auto simp: get_hex_digit_def)

lemma zero_group_value:
  assumes "zero_group g" "t = [] \<or> hd t = CHR '':''"
  shows "field_value (g @ t) = 0"
proof -
  have g: "group g" "set g \<subseteq> {CHR ''0''}" using assms(1) by (simp_all add: zero_group_def)
  have "\<forall>c\<in>set g. c \<noteq> CHR '':''" using g by (auto simp: group_def list_all_iff dest: not_hex_colon)
  then have "takeWhile (\<lambda>c. c \<noteq> CHR '':'') (g @ t) = g" using assms(2) by (cases t) simp_all
  moreover have "foldl (\<lambda>f d. push_bit 4 f OR word_of_int (get_hex_digit d)) (0 :: 16 word) (tl g) = 0"
    by (rule zero_fold) (use g(2) in \<open>cases g; simp\<close>)
  ultimately show ?thesis
    using g by (cases g) (auto simp: field_value_def group_def get_hex_digit_def)
qed

lemma all_zero_fields: "format_ipv6 (replicate 8 0) None = '':''"
  by code_simp

lemma zero_ipv6_text:
  assumes "list_all zero_group gs" "zero_group l" "length gs = 7"
  shows "normalize_IPv6 (colons gs @ l) = Ret '':''" "is_ipv6 (colons gs @ l)"
proof -
  have gs: "list_all group gs" "group l" using assms by (auto simp: zero_group_def list_all_iff)
  have c: "\<forall>c\<in>set (colons gs @ l). c = CHR '':'' \<or> is_hexdigit c"
    using gs by (auto simp: group_def list_all_iff colons_def)
  have "length (colons hs) \<le> 5 * length hs \<and> length hs \<le> length (colons hs)" if "list_all group hs" for hs
    using that by (induction hs) (auto simp: group_def)
  note len = this [OF gs(1)]
  show v6: "is_ipv6 (colons gs @ l)"
    using c gs(2) assms(3) len by (auto simp: is_ipv6_def list_all_iff group_def)
  have "length (colons gs @ l) \<noteq> length ''::''" using len assms(3) by simp
  then have no: "colons gs @ l \<noteq> ''::''" by metis
  have "list_all token (map (\<lambda>g. g @ '':'') gs @ [l])"
    using group_tokens [OF gs(1)] piece_token [OF gs(2)] by simp
  from decode_fields_tokens [OF this, of "[]" 0 8] assms(3)
  have dec: "decode_fields 0 (map (\<lambda>g. g @ '':'') gs @ [l]) 8 [] = Ret (8, map field_value (map (\<lambda>g. g @ '':'') gs @ [l]))"
    by simp
  have "map field_value (map (\<lambda>g. g @ '':'') gs @ [l]) = replicate 8 0"
  proof (rule replicate_eqI)
    show "length (map field_value (map (\<lambda>g. g @ '':'') gs @ [l])) = 8" using assms(3) by simp
    show "y = 0" if "y \<in> set (map field_value (map (\<lambda>g. g @ '':'') gs @ [l]))" for y
      using that assms(1,2) zero_group_value [of _ "'':''"] zero_group_value [of l "[]"]
      by (auto simp: list_all_iff)
  qed
  moreover have "length l \<le> 5" "piece l" using gs(2) by (simp_all add: group_def piece_def)
  ultimately show "normalize_IPv6 (colons gs @ l) = Ret '':''"
    using v6 no tokens_full [OF gs(1) \<open>piece l\<close>] assms(3) dec
    by (simp add: normalize_IPv6_def expand_fields_def all_zero_fields [unfolded numeral_eq_Suc] all_zero_fields)
qed

theorem zero_ipv6_not_reparsed:
  assumes "list_all zero_group gs" "zero_group l" "length gs = 7"
  shows "\<exists>u v. parse_url (url_of_string (ipv6_url (colons gs @ l))) = Ret u \<and> m_host u = '':''
    \<and> build_url u = Ret v \<and> m_url v = ''ws://[:]/'' \<and> (\<exists>e. parse_url (url_of_string (m_url v)) = Throw e)"
proof -
  let ?u = "(url_of_string (ipv6_url (colons gs @ l)))\<lparr>m_scheme := ''ws'', m_host := '':'', m_ip_v := 6,
    m_path := ''/'', m_parse := True\<rparr>"
  have "parse_url (url_of_string (ipv6_url (colons gs @ l))) = Ret ?u"
    using zero_ipv6_text [OF assms] by (simp add: ipv6_url_text)
  moreover have "encode ''/'' 0x0F = Ret ''/''" by code_simp
  then have "build_url ?u = Ret (?u\<lparr>m_built := False, m_url := ''ws://[:]/''\<rparr>)"
    by (simp add: build_url_def lazy_parse_def build_authority_def build_path_def build_query_def
        build_fragment_def url_of_string_def new_url_def)
  moreover have "parse_url (url_of_string ''ws://[:]/'') =
      Throw (parse_error (''Host address in '' @ quoted ''ws://[:]/'' @ '' is invalid''))"
    by code_simp
  ultimately show ?thesis
    by (intro exI [of _ ?u] exI [of _ "?u\<lparr>m_built := False, m_url := ''ws://[:]/''\<rparr>"]) simp
qed

theorem zero_ipv6_not_reparsed_witness:
  "\<exists>u v. parse_url (url_of_string ''ws://[0:0:0:0:0:0:00:0]/'') = Ret u \<and> m_host u = '':''
    \<and> build_url u = Ret v \<and> m_url v = ''ws://[:]/'' \<and> (\<exists>e. parse_url (url_of_string (m_url v)) = Throw e)"
proof -
  have *: "colons (replicate 6 ''0'' @ [''00'']) @ ''0'' = ''0:0:0:0:0:0:00:0''" by code_simp
  show ?thesis
    using zero_ipv6_not_reparsed [of "replicate 6 ''0'' @ [''00'']" "''0''", unfolded *]
    by (simp add: ipv6_url_def zero_group_def group_def is_hexdigit_def is_num_def list_all_iff)
qed

lemma put_all_percent:
  "put_all (encode_char m) s = Ret t \<Longrightarrow> \<not> is_chars s m \<Longrightarrow> CHR ''%'' \<in> set t"
proof (induction s arbitrary: t)
  case (Cons c s)
  then show ?case by (auto simp: encode_char_def percent_def split: if_split_asm)
qed simp

theorem escaped_user_info_rejected:
  assumes "m_host u \<noteq> []" "ascii (m_user u)" "\<not> is_chars (m_user u) 0x05"
  shows "\<exists>a. build_authority u = Ret (''//'' @ a) \<and> (\<forall>s x. parse_authority s a \<noteq> Ret x)"
proof -
  obtain t where t: "put_all (encode_char 0x05) (m_user u) = Ret t"
    using put_all_encoders(1) [of "m_user u" "0x05"] assms(2) by auto
  have "m_user u \<noteq> []" using assms(3) by auto
  then obtain r where a: "build_authority u = Ret (''//'' @ t @ CHR ''@'' # r)"
    using t assms(1) by (simp add: build_authority_def encode_def Let_def)
  have "\<forall>x\<in>set t. is_char x 0x25" using t by (rule user_codec.written_safe)
  moreover have "\<not> is_char CHR ''@'' 0x25" by (simp add: is_char_class char_class_def)
  ultimately have "find_char CHR ''@'' (t @ CHR ''@'' # r) = (t, CHR ''@'' # r)"
    by (intro find_char_append) auto
  moreover have "\<not> is_chars t 0x05"
    using put_all_percent [OF t assms(3)] percent_not_char(1) by (auto simp: is_chars_iff)
  ultimately have "\<forall>s x. parse_authority s (t @ CHR ''@'' # r) \<noteq> Ret x"
    by (simp add: parse_authority_def parse_user_def)
  with a show ?thesis by blast
qed

theorem escaped_user_info_rejected_witness:
  "\<exists>a. build_authority (new_url\<lparr>m_user := ''a b'', m_host := ''h''\<rparr>) = Ret (''//'' @ a)
    \<and> (\<forall>s x. parse_authority s a \<noteq> Ret x)"
proof (rule escaped_user_info_rejected)
  let ?u = "new_url\<lparr>m_user := ''a b'', m_host := ''h''\<rparr>"
  show "m_host ?u \<noteq> []" "ascii (m_user ?u)" "\<not> is_chars (m_user ?u) 0x05"
    by (simp_all add: ascii_def is_char_class char_class_def)
qed

theorem two_digit_version_rejected:
  "is_hexdigit a \<Longrightarrow> is_hexdigit b \<Longrightarrow> parse_ip_literal s (CHR ''v'' # a # b # t) \<noteq> Ret x"
  using not_hex_colon(2) [of b]
  by (auto simp: parse_ip_literal_def find_char_def Let_def split: if_split_asm prod.splits list.splits)

theorem two_digit_version_rejected_witness: "parse_ip_literal ''[v1f.x]'' ''v1f.x]'' \<noteq> Ret (1, ''x'', [])"
  by (rule two_digit_version_rejected) (simp_all add: is_hexdigit_def is_num_def)

theorem junk_after_bracket_ignored:
  assumes "CHR '']'' \<notin> set lit" "CHR ''@'' \<notin> set lit \<union> set junk" "junk = [] \<or> hd junk \<noteq> CHR '':''"
  shows "parse_authority s (CHR ''['' # lit @ CHR '']'' # junk) = parse_authority s (CHR ''['' # lit @ '']'')"
proof -
  have u: "find_char CHR ''@'' (CHR ''['' # lit @ CHR '']'' # junk) = (CHR ''['' # lit @ CHR '']'' # junk, [])"
    "find_char CHR ''@'' (CHR ''['' # lit @ '']'') = (CHR ''['' # lit @ '']'', [])"
    using assms(2) by (intro find_char_none; auto)+
  have b: "find_char CHR '']'' (lit @ CHR '']'' # r) = (lit, CHR '']'' # r)" for r
    using assms(1) by (intro find_char_append) auto
  define res where "res = (\<lambda>r. parse_ip_literal s (lit @ CHR '']'' # r))"
  have e: "parse_ip_literal s (lit @ CHR '']'' # r) = res r" for r by (simp add: res_def)
  have "res junk = exec_bind (res []) (\<lambda>(ip_v, h, _). Ret (ip_v, h, junk))"
    by (auto simp: res_def parse_ip_literal_def b Let_def invalid_def split: list.splits prod.splits)
  moreover have "\<And>x y z. res [] = Ret (x, y, z) \<Longrightarrow> z = []"
    by (auto simp: res_def parse_ip_literal_def b Let_def split: list.splits prod.splits if_split_asm)
  ultimately show ?thesis
    using assms(3) unfolding parse_authority_def parse_user_def u
    by (cases "res []") (auto simp: parse_host_def parse_port_def e)
qed

theorem junk_after_bracket_ignored_witness:
  "parse_authority [] ''[::1]junk:80'' = parse_authority [] ''[::1]''"
  using junk_after_bracket_ignored [of "''::1''" "''junk:80''" "[]"] by simp

end
