(* ===== verification/Url_Copy.thy ===== *)
theory Url_Copy
  imports Url_Props
begin

text \<open>
  Copies of a \<open>Url\<close> (Url.hpp, Url.cpp) and what a program sees of one. The class parses and
  builds only when it has to, marks which of text and parts is valid, and copies only that;
  the theorems say that none of this shows: whatever is called in whatever order, the object
  answers as an abstract URL that was parsed when its text was set.
\<close>

subsection \<open>Copying and moving\<close>

text \<open>
  A constructor runs \<open>assign\<close> on an object whose strings are empty and whose flags have no
  value yet; \<open>assign\<close> writes the flags first. What a moved-from string holds afterwards is up
  to the standard library: the strings of \<open>left\<close>.
\<close>

definition raw_url :: "bool \<Rightarrow> bool \<Rightarrow> url" where
  "raw_url p b = new_url\<lparr>m_parse := p, m_built := b\<rparr>"

definition move_assign :: "url \<Rightarrow> url \<Rightarrow> url \<Rightarrow> url \<times> url" where
  \<comment> \<open>\<open>move_assign left u this\<close>: the new \<open>this\<close> and what is left of \<open>u\<close>\<close>
  "move_assign left u this =
     (let this = this\<lparr>m_parse := m_parse u, m_built := m_built u\<rparr>;
          (this, u) =
            (if m_parse this
             then (this\<lparr>m_scheme := m_scheme u, m_user := m_user u, m_host := m_host u,
                        m_ip_v := m_ip_v u, m_port := m_port u, m_path := m_path u,
                        m_query := m_query u, m_fragment := m_fragment u\<rparr>,
                   u\<lparr>m_scheme := m_scheme left, m_user := m_user left, m_host := m_host left,
                     m_port := m_port left, m_path := m_path left,
                     m_query := m_query left, m_fragment := m_fragment left\<rparr>)
             else (this, u))
      in if \<not> m_parse this \<or> m_built this
         then (this\<lparr>m_url := m_url u\<rparr>, u\<lparr>m_url := m_url left\<rparr>)
         else (this, u))"

definition copy_url :: "bool \<Rightarrow> bool \<Rightarrow> url \<Rightarrow> url" where
  "copy_url p b u = assign u (raw_url p b)"

definition move_url :: "bool \<Rightarrow> bool \<Rightarrow> url \<Rightarrow> url \<Rightarrow> url \<times> url" where
  "move_url p b left u = move_assign left u (raw_url p b)"

lemma move_assigned: "fst (move_assign left u this) = assign u this"
  by (simp add: move_assign_def assign_def Let_def)

subsection \<open>Entries of the query\<close>

definition key_val :: "string \<Rightarrow> string \<Rightarrow> KeyVal" where
  "key_val key val = \<lparr>m_key = key, m_val = val\<rparr>"

definition key_only :: "string \<Rightarrow> KeyVal" where
  "key_only key = \<lparr>m_key = key, m_val = []\<rparr>"

definition same_KeyVal :: "KeyVal \<Rightarrow> KeyVal \<Rightarrow> bool" where
  "same_KeyVal kv q \<longleftrightarrow> m_key kv = m_key q \<and> m_val kv = m_val q"

definition swap_KeyVal :: "KeyVal \<Rightarrow> KeyVal \<Rightarrow> KeyVal \<times> KeyVal" where
  "swap_KeyVal kv q = (kv\<lparr>m_key := m_key q, m_val := m_val q\<rparr>, q\<lparr>m_key := m_key kv, m_val := m_val kv\<rparr>)"

definition set_key :: "string \<Rightarrow> KeyVal \<Rightarrow> KeyVal" where
  "set_key k kv = kv\<lparr>m_key := k\<rparr>"

definition set_val :: "string \<Rightarrow> KeyVal \<Rightarrow> KeyVal" where
  "set_val v kv = kv\<lparr>m_val := v\<rparr>"

lemma KeyVal_swapped: "swap_KeyVal (kv :: KeyVal) q = (q, kv)"
  by (simp add: swap_KeyVal_def)

lemma KeyVal_compared: "same_KeyVal (kv :: KeyVal) q \<longleftrightarrow> kv = q"
  by (cases kv; cases q) (simp add: same_KeyVal_def)

subsection \<open>A sequence of calls\<close>

text \<open>
  A program that uses one object: it reads, writes, copies and moves it, and looks at what
  is returned and thrown.
\<close>

datatype url_call =
    Scheme | User_info | Host | Ip_version | Port | Path | Query | Query_at nat | Fragment | Str | Output
  | Set_str string | Set_scheme string | Set_user_info string | Set_host string "8 word"
  | Set_port string | Set_port_number "16 word" | Set_path string | Set_fragment string
  | Set_query "KeyVal list" | Set_query_with "KeyVal list \<Rightarrow> KeyVal list"
  | Set_query_at nat "KeyVal \<Rightarrow> KeyVal" | Add_query KeyVal | Clear
  | Copy bool bool | Move bool bool url

datatype url_obs = Text string | Version "8 word" | Entries "KeyVal list" | Entry KeyVal
  | Returned | Threw url_exn | Broken

definition left_by :: "bool \<Rightarrow> url \<Rightarrow> url" where
  \<comment> \<open>the object after an exception: not touched if its argument was refused at once, and
     otherwise parsed if it can be\<close>
  "left_by refused u =
     (if refused then u else case lazy_parse u of Ret v \<Rightarrow> v | Throw e \<Rightarrow> u | UB \<Rightarrow> u)"

definition reading :: "('a \<Rightarrow> url_obs) \<Rightarrow> (url \<Rightarrow> ('a \<times> url) exec) \<Rightarrow> url \<Rightarrow> url_obs \<times> url" where
  "reading mk f u =
     (case f u of Ret (x, v) \<Rightarrow> (mk x, v) | Throw e \<Rightarrow> (Threw e, left_by False u) | UB \<Rightarrow> (Broken, u))"

definition writing :: "bool \<Rightarrow> (url \<Rightarrow> url exec) \<Rightarrow> url \<Rightarrow> url_obs \<times> url" where
  "writing refused f u =
     (case f u of Ret v \<Rightarrow> (Returned, v) | Throw e \<Rightarrow> (Threw e, left_by refused u) | UB \<Rightarrow> (Broken, u))"

fun url_do :: "url_call \<Rightarrow> url \<Rightarrow> url_obs \<times> url" where
  "url_do Scheme u = reading Text get_scheme u"
| "url_do User_info u = reading Text get_user_info u"
| "url_do Host u = reading Text get_host u"
| "url_do Ip_version u = reading Version get_ip_version u"
| "url_do Port u = reading Text get_port u"
| "url_do Path u = reading Text get_path u"
| "url_do Query u = reading Entries get_query u"
| "url_do (Query_at i) u = reading Entry (query_at i) u"
| "url_do Fragment u = reading Text get_fragment u"
| "url_do Str u = reading Text str u"
| "url_do Output u = reading Text output_url u"
| "url_do (Set_str s) u = (Returned, set_str s u)"
| "url_do (Set_scheme s) u = writing (\<not> is_scheme s) (set_scheme s) u"
| "url_do (Set_user_info s) u = writing (length s > 256) (set_user_info s) u"
| "url_do (Set_host h ip_v) u = writing (length h > 253) (set_host h ip_v) u"
| "url_do (Set_port p) u = writing (\<not> is_port p) (set_port p) u"
| "url_do (Set_port_number n) u = writing False (set_port_number n) u"
| "url_do (Set_path p) u = writing (length p > 8000) (set_path p) u"
| "url_do (Set_fragment f) u = writing (length f > 256) (set_fragment f) u"
| "url_do (Set_query q) u = writing False (set_query q) u"
| "url_do (Set_query_with f) u = writing False (set_query_with f) u"
| "url_do (Set_query_at i f) u = writing False (set_query_at i f) u"
| "url_do (Add_query kv) u = writing False (add_query kv) u"
| "url_do Clear u = (Returned, clear u)"
| "url_do (Copy p b) u = (Returned, copy_url p b u)"
| "url_do (Move p b left) u = (Returned, fst (move_url p b left u))"

fun answers :: "url_call list \<Rightarrow> url \<Rightarrow> url_obs list" where
  "answers [] u = []"
| "answers (c # cs) u =
     (case url_do c u of (Broken, v) \<Rightarrow> [Broken] | (x, v) \<Rightarrow> x # answers cs v)"

subsection \<open>The abstract URL\<close>

text \<open>
  What the class stands for: the parts, or the exception that parsing the text throws. Here
  a text is parsed when it is set, nothing is marked, nothing is compared before it is
  stored, and copying does nothing.
\<close>

definition core :: "url \<Rightarrow> url" where
  \<comment> \<open>the parts alone: the text and its mark are fixed\<close>
  "core u = u\<lparr>m_url := [], m_built := False\<rparr>"

definition eager :: "url \<Rightarrow> url exec" where
  "eager u = exec_bind (lazy_parse u) (\<lambda>w. Ret (core w))"

definition url_text :: "url \<Rightarrow> string exec" where
  "url_text w = exec_bind (build_url w) (\<lambda>w. Ret (m_url w))"

definition asking :: "(url \<Rightarrow> url_obs exec) \<Rightarrow> url exec \<Rightarrow> url_obs \<times> url exec" where
  "asking f e = (case exec_bind e f of Ret x \<Rightarrow> (x, e) | Throw x \<Rightarrow> (Threw x, e) | UB \<Rightarrow> (Broken, e))"

definition changing :: "(url \<Rightarrow> url exec) \<Rightarrow> url exec \<Rightarrow> url_obs \<times> url exec" where
  "changing f e =
     (case exec_bind e f of Ret w \<Rightarrow> (Returned, Ret w) | Throw x \<Rightarrow> (Threw x, e) | UB \<Rightarrow> (Broken, e))"

definition refusing :: "bool \<Rightarrow> string \<Rightarrow> url_obs \<times> url exec \<Rightarrow> url exec \<Rightarrow> url_obs \<times> url exec" where
  "refusing c what r e = (if c then (Threw (parse_error what), e) else r)"

definition drop_default_port :: "url \<Rightarrow> url" where
  "drop_default_port w = (if http_default_port w then w\<lparr>m_port := []\<rparr> else w)"

fun spec_do :: "url_call \<Rightarrow> url exec \<Rightarrow> url_obs \<times> url exec" where
  "spec_do Scheme e = asking (\<lambda>w. Ret (Text (m_scheme w))) e"
| "spec_do User_info e = asking (\<lambda>w. Ret (Text (m_user w))) e"
| "spec_do Host e = asking (\<lambda>w. Ret (Text (m_host w))) e"
| "spec_do Ip_version e = asking (\<lambda>w. Ret (Version (m_ip_v w))) e"
| "spec_do Port e = asking (\<lambda>w. Ret (Text (m_port w))) e"
| "spec_do Path e = asking (\<lambda>w. Ret (Text (m_path w))) e"
| "spec_do Query e = asking (\<lambda>w. Ret (Entries (m_query w))) e"
| "spec_do (Query_at i) e =
     asking (\<lambda>w. if i < length (m_query w) then Ret (Entry (m_query w ! i)) else bad_index i) e"
| "spec_do Fragment e = asking (\<lambda>w. Ret (Text (m_fragment w))) e"
| "spec_do Str e = asking (\<lambda>w. exec_bind (url_text w) (\<lambda>t. Ret (Text t))) e"
| "spec_do Output e = asking (\<lambda>w. exec_bind (url_text w) (\<lambda>t. Ret (Text (show_url (w\<lparr>m_url := t\<rparr>))))) e"
| "spec_do (Set_str s) e = (Returned, eager (url_of_string s))"
| "spec_do (Set_scheme s) e =
     refusing (\<not> is_scheme s) (''Invalid scheme '' @ quoted s)
       (changing (\<lambda>w. Ret (if to_lower s = m_scheme w then w
                           else drop_default_port (w\<lparr>m_scheme := to_lower s\<rparr>))) e) e"
| "spec_do (Set_user_info s) e =
     refusing (length s > 256) (''User info is longer than 256 characters '' @ quoted s)
       (changing (\<lambda>w. Ret (w\<lparr>m_user := s\<rparr>)) e) e"
| "spec_do (Set_host h ip_v) e =
     refusing (length h > 253) (''Host is longer than 253 characters '' @ quoted h)
       (changing (\<lambda>w. exec_bind (check_host h ip_v) (\<lambda>(v, t). Ret (w\<lparr>m_host := t, m_ip_v := v\<rparr>))) e) e"
| "spec_do (Set_port p) e =
     refusing (\<not> is_port p) (''Invalid port '' @ quoted p)
       (changing (\<lambda>w. Ret (drop_default_port (w\<lparr>m_port := p\<rparr>))) e) e"
| "spec_do (Set_port_number n) e =
     changing (\<lambda>w. Ret (drop_default_port (w\<lparr>m_port := to_string (unat n)\<rparr>))) e"
| "spec_do (Set_path p) e =
     refusing (length p > 8000) (''Path is longer than 8000 characters '' @ quoted p)
       (changing (\<lambda>w. Ret (w\<lparr>m_path := normalize_path p\<rparr>)) e) e"
| "spec_do (Set_fragment f) e =
     refusing (length f > 256) (''Fragment is longer than 256 characters '' @ quoted f)
       (changing (\<lambda>w. Ret (w\<lparr>m_fragment := f\<rparr>)) e) e"
| "spec_do (Set_query q) e = changing (\<lambda>w. Ret (w\<lparr>m_query := q\<rparr>)) e"
| "spec_do (Set_query_with f) e = changing (\<lambda>w. Ret (w\<lparr>m_query := f (m_query w)\<rparr>)) e"
| "spec_do (Set_query_at i f) e =
     changing (\<lambda>w. if i < length (m_query w) then Ret (w\<lparr>m_query := (m_query w)[i := f (m_query w ! i)]\<rparr>)
                   else bad_index i) e"
| "spec_do (Add_query kv) e = changing (\<lambda>w. Ret (w\<lparr>m_query := m_query w @ [kv]\<rparr>)) e"
| "spec_do Clear e = (Returned, Ret (core new_url))"
| "spec_do (Copy p b) e = (Returned, e)"
| "spec_do (Move p b left) e = (Returned, e)"

fun spec_answers :: "url_call list \<Rightarrow> url exec \<Rightarrow> url_obs list" where
  "spec_answers [] e = []"
| "spec_answers (c # cs) e =
     (case spec_do c e of (Broken, d) \<Rightarrow> [Broken] | (x, d) \<Rightarrow> x # spec_answers cs d)"

subsection \<open>The class implements it\<close>

definition made :: "url \<Rightarrow> url \<Rightarrow> bool" where
  "made a w \<longleftrightarrow> m_parse a \<and> core a = w"

lemma core_simps [simp]:
  "m_scheme (core u) = m_scheme u" "m_user (core u) = m_user u" "m_host (core u) = m_host u"
  "m_port (core u) = m_port u" "m_path (core u) = m_path u" "m_query (core u) = m_query u"
  "m_fragment (core u) = m_fragment u" "m_ip_v (core u) = m_ip_v u" "m_parse (core u) = m_parse u"
  by (simp_all add: core_def)

lemma eager_parsed: "m_parse a \<Longrightarrow> eager a = Ret (core a)"
  by (simp add: eager_def lazy_parse_def)

lemma eager_bind: "exec_bind (eager u) f = exec_bind (lazy_parse u) (\<lambda>w. f (core w))"
  by (cases "lazy_parse u") (simp_all add: eager_def)

lemma eager_left: "eager (left_by r u) = eager u"
  by (auto simp: left_by_def eager_def lazy_parse_def split: exec.splits elim!: parse_url_cases)
     (auto simp: clear_def)

lemma bind_rel:
  assumes "\<And>w. lazy_parse u = Ret w \<Longrightarrow> m_parse w \<Longrightarrow> url_inv w \<Longrightarrow> rel_exec R (F w) (G (core w))" "url_inv u"
  shows "rel_exec R (exec_bind (lazy_parse u) F) (exec_bind (eager u) G)"
  unfolding eager_bind using assms lazy_parse_inv [of u] by (cases "lazy_parse u") auto

lemma reading_rel:
  assumes "rel_exec (\<lambda>(x, a) y. mk x = y \<and> eager a = eager u) (f u) (exec_bind (eager u) g)"
  shows "map_prod id eager (reading mk f u) = asking g (eager u)"
  using assms by (auto simp: reading_def asking_def eager_left split: exec.splits)

lemma writing_rel:
  assumes "rel_exec made (f u) (exec_bind (eager u) g)"
  shows "map_prod id eager (writing r f u) = changing g (eager u)"
  using assms by (auto simp: writing_def changing_def eager_left made_def eager_parsed split: exec.splits)

text \<open>The calls that read a part, and the texts.\<close>

lemma get_rel:
  assumes "url_inv u" "\<And>w. part (core w) = part w"
  shows "rel_exec (\<lambda>(x, a) y. mk x = y \<and> eager a = eager u) (get part u)
    (exec_bind (eager u) (\<lambda>w. Ret (mk (part w))))"
  unfolding get_def using assms(2)
  by (intro bind_rel [OF _ assms(1)]) (simp add: eager_def lazy_parse_def)

lemma query_at_rel:
  assumes "url_inv u"
  shows "rel_exec (\<lambda>(x, a) y. Entry x = y \<and> eager a = eager u) (query_at i u)
    (exec_bind (eager u) (\<lambda>w. if i < length (m_query w) then Ret (Entry (m_query w ! i)) else bad_index i))"
  unfolding query_at_def
  by (intro bind_rel [OF _ assms]) (simp add: eager_def lazy_parse_def bad_index_def)

lemma lazy_parse_parses: "lazy_parse u = Ret w \<Longrightarrow> m_parse w"
  by (auto simp: lazy_parse_def clear_def split: if_splits elim!: parse_url_cases)

lemma build_lazy: "build_url u = exec_bind (lazy_parse u) build_url"
proof (cases "lazy_parse u")
  case (Ret w)
  then have "lazy_parse w = Ret w" using lazy_parse_parses [of u w] by (simp add: lazy_parse_def)
  with Ret show ?thesis by (simp add: build_url_def)
qed (simp_all add: build_url_def)

lemma build_core:
  assumes "m_parse w"
  shows "build_url w = exec_bind (url_text (core w)) (\<lambda>t. Ret (w\<lparr>m_built := False, m_url := t\<rparr>))"
proof -
  have parts: "build_authority (core w) = build_authority w" "build_path (core w) = build_path w"
    "build_query (core w) = build_query w" "build_fragment (core w) = build_fragment w"
    unfolding build_authority_def build_path_def build_query_def build_fragment_def
      http_default_port_def core_simps by (rule refl)+
  have "lazy_parse w = Ret w" "lazy_parse (core w) = Ret (core w)"
    using assms by (simp_all add: lazy_parse_def)
  then show ?thesis
    by (simp add: url_text_def build_url_def parts Let_def exec_bind_assoc)
qed

lemma built_text: "url_empty w \<Longrightarrow> url_text (core w) = Ret []"
  by (simp add: url_text_def build_url_def url_empty_def lazy_parse_def build_authority_def
      build_path_def build_query_def build_fragment_def)

lemma str_rel:
  assumes "url_inv u"
  shows "rel_exec (\<lambda>(x, a) y. Text x = y \<and> eager a = eager u) (str u)
    (exec_bind (eager u) (\<lambda>w. exec_bind (url_text w) (\<lambda>t. Ret (Text t))))"
proof (cases "m_built u")
  case True
  then have "url_empty u" "m_url u = []" "lazy_parse u = Ret u"
    using assms by (auto simp: url_inv_def url_empty_def lazy_parse_def)
  then show ?thesis using True by (simp add: str_def eager_def built_text)
next
  case False
  have "rel_exec (\<lambda>(x, a) y. Text x = y \<and> eager a = eager u)
     (exec_bind (build_url w) (\<lambda>u. Ret (m_url u, u))) (exec_bind (url_text (core w)) (\<lambda>t. Ret (Text t)))"
    if "lazy_parse u = Ret w" "m_parse w" for w
    using that
    by (cases "url_text (core w)") (simp_all add: build_core eager_def lazy_parse_def core_def)
  then have "rel_exec (\<lambda>(x, a) y. Text x = y \<and> eager a = eager u)
     (exec_bind (lazy_parse u) (\<lambda>w. exec_bind (build_url w) (\<lambda>u. Ret (m_url u, u))))
     (exec_bind (eager u) (\<lambda>w. exec_bind (url_text w) (\<lambda>t. Ret (Text t))))"
    by (intro bind_rel [OF _ assms])
  moreover have "str u = exec_bind (lazy_parse u) (\<lambda>w. exec_bind (build_url w) (\<lambda>u. Ret (m_url u, u)))"
    using False build_lazy [of u] by (simp add: str_def exec_bind_assoc)
  ultimately show ?thesis by simp
qed

lemma show_core: "show_url ((core w)\<lparr>m_url := t\<rparr>) = show_url (w\<lparr>m_built := b, m_url := t\<rparr>)"
  by (simp add: show_url_def)

lemma output_rel:
  assumes "url_inv u"
  shows "rel_exec (\<lambda>(x, a) y. Text x = y \<and> eager a = eager u) (output_url u)
    (exec_bind (eager u) (\<lambda>w. exec_bind (url_text w) (\<lambda>t. Ret (Text (show_url (w\<lparr>m_url := t\<rparr>))))))"
  unfolding output_url_def
proof (rule bind_rel [OF _ assms])
  fix w
  assume w: "lazy_parse u = Ret w" "m_parse w" "url_inv w"
  then have same: "eager u = Ret (core w)" by (simp add: eager_def)
  show "rel_exec (\<lambda>(x, a) y. Text x = y \<and> eager a = eager u)
      (exec_bind (if \<not> m_built w then build_url w else Ret w) (\<lambda>u. Ret (show_url u, u)))
      (exec_bind (url_text (core w)) (\<lambda>t. Ret (Text (show_url ((core w)\<lparr>m_url := t\<rparr>)))))"
  proof (cases "m_built w")
    case True
    then have "url_empty w" "w\<lparr>m_built := True, m_url := []\<rparr> = w"
      using w(3) by (auto simp: url_inv_def url_empty_def)
    then show ?thesis
      using True w(2) by (simp add: same eager_parsed built_text show_core [where b = True])
  next
    case False
    then show ?thesis
      using w(2) by (cases "url_text (core w)")
        (simp_all add: build_core same eager_parsed show_core [where b = False], simp add: core_def)
  qed
qed

text \<open>The setters: storing an equal value changes nothing.\<close>

lemma setter_rels:
  assumes "url_inv u"
  shows "length s \<le> 256 \<Longrightarrow> rel_exec made (set_user_info s u) (exec_bind (eager u) (\<lambda>w. Ret (w\<lparr>m_user := s\<rparr>)))"
    and "length s \<le> 256 \<Longrightarrow> rel_exec made (set_fragment s u) (exec_bind (eager u) (\<lambda>w. Ret (w\<lparr>m_fragment := s\<rparr>)))"
    and "length s \<le> 8000 \<Longrightarrow>
      rel_exec made (set_path s u) (exec_bind (eager u) (\<lambda>w. Ret (w\<lparr>m_path := normalize_path s\<rparr>)))"
    and "is_port s \<Longrightarrow>
      rel_exec made (set_port s u) (exec_bind (eager u) (\<lambda>w. Ret (drop_default_port (w\<lparr>m_port := s\<rparr>))))"
    and "is_scheme s \<Longrightarrow>
      rel_exec made (set_scheme s u) (exec_bind (eager u) (\<lambda>w. Ret (if to_lower s = m_scheme w then w
                           else drop_default_port (w\<lparr>m_scheme := to_lower s\<rparr>))))"
    and "rel_exec made (set_query q u) (exec_bind (eager u) (\<lambda>w. Ret (w\<lparr>m_query := q\<rparr>)))"
    and "rel_exec made (set_query_with g u) (exec_bind (eager u) (\<lambda>w. Ret (w\<lparr>m_query := g (m_query w)\<rparr>)))"
    and "rel_exec made (set_query_at i f u) (exec_bind (eager u) (\<lambda>w.
      if i < length (m_query w) then Ret (w\<lparr>m_query := (m_query w)[i := f (m_query w ! i)]\<rparr>) else bad_index i))"
    and "rel_exec made (add_query kv u) (exec_bind (eager u) (\<lambda>w. Ret (w\<lparr>m_query := m_query w @ [kv]\<rparr>)))"
  unfolding set_user_info_def set_fragment_def set_path_def set_port_def set_scheme_def set_query_def
    set_query_with_def set_query_at_def add_query_def
  by (simp_all, (rule bind_rel [OF _ assms], simp add: made_def core_def drop_default_port_def
        http_default_port_def bad_index_def Let_def)+)

lemma host_rel:
  assumes "url_inv u" "length h \<le> 253"
  shows "rel_exec made (set_host h ip_v u)
    (exec_bind (eager u) (\<lambda>w. exec_bind (check_host h ip_v) (\<lambda>(v, t). Ret (w\<lparr>m_host := t, m_ip_v := v\<rparr>))))"
  unfolding set_host_def using assms(2)
  by (simp, intro bind_rel [OF _ assms(1)], cases "check_host h ip_v")
     (auto simp: made_def core_def dest!: same_word intro!: url.equality)

subsection \<open>Refinement\<close>

lemma url_inv_after:
  assumes "url_inv u" "url_do c u = (x, v)"
  shows "url_inv v"
proof -
  have left: "url_inv (left_by r u)" for r
    using assms(1) lazy_parse_inv by (auto simp: left_by_def split: exec.split)
  have reads: "url_inv (snd (reading mk f u))"
    if "\<And>y w. f u = Ret (y, w) \<Longrightarrow> url_inv w" for mk and f :: "url \<Rightarrow> ('a \<times> url) exec"
    using that left assms(1) by (auto simp: reading_def split: exec.split)
  have writes: "url_inv (snd (writing r f u))" if "\<And>w. f u = Ret w \<Longrightarrow> url_inv u \<Longrightarrow> url_inv w" for r f
    using that left assms(1) by (auto simp: writing_def split: exec.split)
  have getting: "url_inv w" if "get part u = Ret (y, w)" for part :: "url \<Rightarrow> 'a" and y w
    using that assms(1) lazy_parse_inv by (auto simp: get_def)
  have built: "url_inv w" if "(if \<not> m_built a then build_url a else Ret a) = Ret w" "url_inv a" for a w
    using that build_url_inv by (auto split: if_splits)
  have "url_inv (snd (url_do c u))"
  proof (cases c)
    case Clear then show ?thesis by (simp add: clear_inv)
  next
    case (Set_str s) then show ?thesis by (simp add: inv_defs set_str_def)
  next
    case (Copy p b) then show ?thesis using assms(1) by (simp add: copy_url_def assign_inv)
  next
    case (Move p b left) then show ?thesis using assms(1) by (simp add: move_url_def move_assigned assign_inv)
  next
    case (Set_port_number n) then show ?thesis
      by (simp, intro writes) (auto simp: set_port_number_def intro: set_port_inv)
  next
    case Str then show ?thesis
      by (simp, intro reads) (use built assms(1) in \<open>auto simp: str_def\<close>)
  next
    case Output then show ?thesis
      by (simp, intro reads) (use built lazy_parse_inv assms(1) in \<open>auto simp: output_url_def\<close>)
  next
    case (Query_at i) then show ?thesis
      by (simp, intro reads) (use lazy_parse_inv assms(1) in \<open>auto simp: query_at_def bad_index_def split: if_splits\<close>)
  qed (simp_all add: get_scheme_def get_user_info_def get_host_def get_ip_version_def get_port_def
      get_path_def get_query_def get_fragment_def reads writes getting url_step)
  with assms(2) show ?thesis by simp
qed

lemma port_number_ok: "is_port (to_string (unat (n :: 16 word)))"
proof -
  have "unat n \<le> 65535" using unsigned_less [of n, where 'a = nat] by simp
  then show ?thesis by (auto simp: is_port_iff)
qed

lemma all_fields:
  "this\<lparr>m_scheme := a, m_user := b, m_host := c, m_ip_v := d, m_port := e, m_path := f, m_query := g,
     m_fragment := h, m_parse := i, m_url := j, m_built := k\<rparr>
   = \<lparr>m_scheme = a, m_user = b, m_host = c, m_port = e, m_path = f, m_query = g, m_fragment = h,
      m_url = j, m_parse = i, m_built = k, m_ip_v = d\<rparr>"
  by (cases this) simp

lemma eager_assign: "eager (assign u this) = eager u"
  by (cases "m_parse u"; cases "m_built u"; cases u; cases this)
     (simp_all add: assign_def eager_def lazy_parse_def parse_url_def core_def clear_def exec_bind_assoc
       Let_def all_fields)

lemma eager_set_str: "eager (set_str s u) = eager (url_of_string s)"
  by (cases u) (simp add: set_str_def url_of_string_def new_url_def eager_def lazy_parse_def parse_url_def
      core_def clear_def exec_bind_assoc Let_def all_fields)

lemma checked:
  assumes "\<And>w. c \<Longrightarrow> f w = Throw (parse_error what)"
    and "\<not> c \<Longrightarrow> rel_exec made (f u) (exec_bind (eager u) g)"
  shows "map_prod id eager (writing c f u) = refusing c what (changing g (eager u)) (eager u)"
proof (cases c)
  case True
  with assms(1) [of u] show ?thesis by (simp add: writing_def left_by_def refusing_def)
next
  case False
  then have "map_prod id eager (writing c f u) = changing g (eager u)" by (intro writing_rel assms(2))
  with False show ?thesis by (simp add: refusing_def)
qed

lemma url_do_refines:
  assumes "url_inv u"
  shows "map_prod id eager (url_do c u) = spec_do c (eager u)"
proof -
  have gets: "map_prod id eager (reading mk (get part) u) = asking (\<lambda>w. Ret (mk (part w))) (eager u)"
    if "\<And>w. part (core w) = part w" for mk and part :: "url \<Rightarrow> 'a"
    using that by (intro reading_rel get_rel assms)
  show ?thesis
  proof (cases c)
    case (Set_scheme s) then show ?thesis unfolding Set_scheme url_do.simps spec_do.simps
      by (intro checked setter_rels assms) (simp_all add: set_scheme_def)
  next
    case (Set_user_info s) then show ?thesis unfolding Set_user_info url_do.simps spec_do.simps
      by (intro checked setter_rels assms) (simp_all add: set_user_info_def)
  next
    case (Set_fragment s) then show ?thesis unfolding Set_fragment url_do.simps spec_do.simps
      by (intro checked setter_rels assms) (simp_all add: set_fragment_def)
  next
    case (Set_path s) then show ?thesis unfolding Set_path url_do.simps spec_do.simps
      by (intro checked setter_rels assms) (simp_all add: set_path_def)
  next
    case (Set_port s) then show ?thesis unfolding Set_port url_do.simps spec_do.simps
      by (intro checked setter_rels assms) (simp_all add: set_port_def)
  next
    case (Set_host h v) then show ?thesis unfolding Set_host url_do.simps spec_do.simps
      by (intro checked host_rel assms) (simp_all add: set_host_def)
  next
    case (Set_port_number n)
    have "rel_exec made (set_port_number n u)
      (exec_bind (eager u) (\<lambda>w. Ret (drop_default_port (w\<lparr>m_port := to_string (unat n)\<rparr>))))"
      unfolding set_port_number_def using assms port_number_ok by (rule setter_rels(4))
    then show ?thesis unfolding Set_port_number url_do.simps spec_do.simps by (rule writing_rel)
  next
    case (Set_query q) then show ?thesis unfolding Set_query url_do.simps spec_do.simps
      by (intro writing_rel setter_rels assms)
  next
    case (Set_query_with f) then show ?thesis unfolding Set_query_with url_do.simps spec_do.simps
      by (intro writing_rel setter_rels assms)
  next
    case (Set_query_at i f) then show ?thesis unfolding Set_query_at url_do.simps spec_do.simps
      by (intro writing_rel setter_rels assms)
  next
    case (Add_query kv) then show ?thesis unfolding Add_query url_do.simps spec_do.simps
      by (intro writing_rel setter_rels assms)
  next
    case (Set_str s) then show ?thesis
      by (simp add: eager_set_str)
  next
    case (Query_at i) then show ?thesis by (simp add: reading_rel query_at_rel assms)
  next
    case Str then show ?thesis by (simp add: reading_rel str_rel assms)
  next
    case Output then show ?thesis by (simp add: reading_rel output_rel assms)
  next
    case Clear then show ?thesis
      by (simp add: eager_parsed clear_def core_def new_url_def)
  qed (simp_all add: get_scheme_def get_user_info_def get_host_def get_ip_version_def get_port_def
      get_path_def get_query_def get_fragment_def gets copy_url_def move_url_def move_assigned eager_assign)
qed

lemma answers_refine: "url_inv u \<Longrightarrow> answers cs u = spec_answers cs (eager u)"
proof (induction cs arbitrary: u)
  case (Cons c cs)
  obtain x v where step: "url_do c u = (x, v)" by force
  then have "spec_do c (eager u) = (x, eager v)" "url_inv v"
    using url_do_refines [OF Cons.prems, of c] url_inv_after [OF Cons.prems step] by simp_all
  with step Cons.IH [of v] show ?case by (cases x) simp_all
qed simp

text \<open>
  C12. A Url object answers every sequence of getters, setters, copies and moves,
  exceptions included, as an abstract URL that parses its text when it is set, keeps
  nothing but the parts and marks nothing: when the class parses, what it marks as valid
  and what it compares before storing never shows.
\<close>

theorem laziness_unobservable:
  assumes "url_reach u"
  shows "answers cs u = spec_answers cs (eager u)"
  using assms by (intro answers_refine url_reach_inv)

theorem copies_alike:
  assumes "url_reach u"
  shows "answers cs (assign u this) = answers cs u \<and> answers cs (fst (move_assign left u this)) = answers cs u
    \<and> answers cs (copy_url p b u) = answers cs u \<and> answers cs (fst (move_url p b left u)) = answers cs u"
proof -
  have "url_inv u" using assms by (rule url_reach_inv)
  then show ?thesis
    by (simp add: answers_refine assign_inv eager_assign copy_url_def move_url_def move_assigned)
qed

definition url_calls :: "url_call list" where
  "url_calls = [Scheme, Copy False True, Set_host ''a b'' 0, Set_host ''::1'' 0, Move True False new_url,
     Set_query_with (\<lambda>q. q @ [key_only ''x'']), Set_query_at 0 (set_val ''v''), Str,
     Set_str ''ws://a b'', Copy True True, Port]"

theorem laziness_unobservable_witness:
  "answers url_calls (url_of_string ws_text) = spec_answers url_calls (eager (url_of_string ws_text))
   \<and> spec_answers url_calls (eager (url_of_string ws_text)) =
     [Text ''ws'', Returned, Threw (parse_error (''Invalid host '' @ quoted ''a b'')), Returned, Returned,
      Returned, Returned, Text ''ws://[::1]:81/b?k=v&w&x'', Returned, Returned,
      Threw (parse_error (''Host address in '' @ quoted ''ws://a b'' @ '' is invalid''))]"
proof
  show "answers url_calls (url_of_string ws_text) = spec_answers url_calls (eager (url_of_string ws_text))"
    by (rule laziness_unobservable [OF reach_string])
  show "spec_answers url_calls (eager (url_of_string ws_text)) =
     [Text ''ws'', Returned, Threw (parse_error (''Invalid host '' @ quoted ''a b'')), Returned, Returned,
      Returned, Returned, Text ''ws://[::1]:81/b?k=v&w&x'', Returned, Returned,
      Threw (parse_error (''Host address in '' @ quoted ''ws://a b'' @ '' is invalid''))]"
    by code_simp
qed

theorem copies_alike_witness:
  "answers url_calls (assign (url_of_string ws_text) sample_url) = answers url_calls (url_of_string ws_text)"
  using copies_alike [OF reach_string] by blast

end
