(* ===== verification/Http_Fields.thy ===== *)
theory Http_Fields
  imports GWSocket_Base Url_Chars
begin

text \<open>
  The cookies and headers of a socket (GWSocket.cpp): \<open>setCookie\<close>, \<open>setHeader\<close> and the
  decorator that \<open>socketConnected\<close> gives to the handshake. The character tests of
  Boost.Beast, \<open>is_token_char\<close> and \<open>is_text\<close>, are parameters; what is used of them is what
  RFC 7230 says of the two classes. The maps are unordered in the sources, so the order in
  which the decorator meets their entries is an argument too.
\<close>

subsection \<open>Which texts are accepted\<close>

definition isToken :: "(char \<Rightarrow> bool) \<Rightarrow> string \<Rightarrow> bool" where
  "isToken is_token_char str = (str \<noteq> [] \<and> list_all is_token_char str)"

definition isFieldValue :: "(char \<Rightarrow> bool) \<Rightarrow> string \<Rightarrow> bool" where
  "isFieldValue is_text str = list_all is_text str"

definition isCookieValue :: "string \<Rightarrow> bool" where
  "isCookieValue str =
     list_all (\<lambda>c. code c \<ge> 0x21 \<and> code c \<le> 0x7E \<and> c \<noteq> CHR 0x22 \<and> c \<noteq> CHR '','' \<and> c \<noteq> CHR '';''
       \<and> c \<noteq> CHR 0x5C) str"

definition setCookie ::
  "(char \<Rightarrow> bool) \<Rightarrow> string \<Rightarrow> string \<Rightarrow> 'a gwsocket_scheme \<Rightarrow> bool \<times> 'a gwsocket_scheme" where
  "setCookie is_token_char key val s =
     (if \<not> isToken is_token_char key \<or> \<not> isCookieValue val then (False, s)
      else if state s \<noteq> STATE_DISCONNECTED then (False, s)
      else (True, s\<lparr>cookies := (cookies s)(key \<mapsto> val)\<rparr>))"

definition setHeader ::
  "(char \<Rightarrow> bool) \<Rightarrow> (char \<Rightarrow> bool) \<Rightarrow> string \<Rightarrow> string \<Rightarrow> 'a gwsocket_scheme \<Rightarrow> bool \<times> 'a gwsocket_scheme" where
  "setHeader is_token_char is_text key val s =
     (if \<not> isToken is_token_char key \<or> \<not> isFieldValue is_text val then (False, s)
      else if state s \<noteq> STATE_DISCONNECTED then (False, s)
      else (True, s\<lparr>headers := (headers s)(key \<mapsto> val)\<rparr>))"

subsection \<open>The request\<close>

definition entries_of :: "('k \<rightharpoonup> 'v) \<Rightarrow> ('k \<times> 'v) list \<Rightarrow> bool" where
  \<comment> \<open>an order in which a loop over the map may meet its entries\<close>
  "entries_of m es = (distinct (map fst es) \<and> map_of es = m)"

fun cookie_loop :: "bool \<Rightarrow> (string \<times> string) list \<Rightarrow> string" where
  "cookie_loop first [] = []"
| "cookie_loop first ((key, val) # es) =
     (if \<not> first then ''; '' else []) @ key @ ''='' @ val @ cookie_loop False es"

definition decorator :: "(string \<times> string) list \<Rightarrow> (string \<times> string) list \<Rightarrow> (string \<times> string) list" where
  \<comment> \<open>the fields that are inserted into the request, in order\<close>
  "decorator cookie_entries header_entries =
     (if cookie_entries \<noteq> [] then [(''Cookie'', cookie_loop True cookie_entries)] else []) @ header_entries"

subsection \<open>Reading a cookie header\<close>

text \<open>How a server takes a header apart (RFC 6265): pairs end at a semicolon and a blank.\<close>

fun cookie_pair :: "string \<Rightarrow> string \<times> string" where
  "cookie_pair p = (takeWhile (\<lambda>c. c \<noteq> CHR ''='') p, drop 1 (dropWhile (\<lambda>c. c \<noteq> CHR ''='') p))"

function parse_cookies :: "string \<Rightarrow> (string \<times> string) list" where
  "parse_cookies s =
     (let (p, r) = find_char CHR '';'' s in
      cookie_pair p # (if r = [] then [] else parse_cookies (drop 2 r)))"
  by pat_completeness auto
termination
proof (relation "measure length", goal_cases)
  case 1
  show ?case by simp
next
  case (2 s x p r)
  then have "length r \<le> length s" by (metis find_char_def length_dropWhile_le prod.inject)
  with 2 show ?case by (cases r) auto
qed

declare parse_cookies.simps [simp del]

definition cookie_ok :: "(char \<Rightarrow> bool) \<Rightarrow> string \<times> string \<Rightarrow> bool" where
  "cookie_ok is_token_char = (\<lambda>(k, v). isToken is_token_char k \<and> isCookieValue v)"

lemma cookie_value_chars: "isCookieValue v \<Longrightarrow> CHR '';'' \<notin> set v"
  by (auto simp: isCookieValue_def list_all_iff)

lemma cookie_entry:
  assumes "cookie_ok tc (k, v)" "\<not> tc CHR '';''" "\<not> tc CHR ''=''"
  shows "CHR '';'' \<notin> set (k @ ''='' @ v)" "cookie_pair (k @ ''='' @ v) = (k, v)"
proof -
  have k: "CHR '';'' \<notin> set k" "CHR ''='' \<notin> set k"
    using assms by (auto simp: cookie_ok_def isToken_def list_all_iff)
  then show "CHR '';'' \<notin> set (k @ ''='' @ v)"
    using assms(1) cookie_value_chars by (auto simp: cookie_ok_def)
  have "\<forall>c\<in>set k. c \<noteq> CHR ''=''" using k(2) by auto
  then show "cookie_pair (k @ ''='' @ v) = (k, v)" by simp
qed

lemma parse_cookie_loop:
  assumes "list_all (cookie_ok tc) es" "es \<noteq> []" "\<not> tc CHR '';''" "\<not> tc CHR ''=''"
  shows "parse_cookies (cookie_loop True es) = es"
  using assms(1,2)
proof (induction es)
  case (Cons e es)
  obtain k v where e: "e = (k, v)" by (cases e)
  have ok: "cookie_ok tc (k, v)" using Cons.prems e by simp
  note ce = cookie_entry [OF ok assms(3,4)]
  show ?case
  proof (cases es)
    case Nil
    then show ?thesis using ce e by (simp add: parse_cookies.simps [of "k @ _"] find_char_none del: cookie_pair.simps)
  next
    case (Cons e' es')
    obtain k' v' where e': "e' = (k', v')" by (cases e')
    have "cookie_loop False es = CHR '';'' # CHR '' '' # cookie_loop True es" by (simp add: Cons e')
    then have loop: "cookie_loop True (e # es) = (k @ ''='' @ v) @ CHR '';'' # CHR '' '' # cookie_loop True es"
      by (simp add: e)
    have "parse_cookies (cookie_loop True (e # es)) = (k, v) # parse_cookies (cookie_loop True es)"
      unfolding loop parse_cookies.simps [of "(k @ ''='' @ v) @ _"]
        find_char_append [OF ce(1), of "CHR '';'' # _", unfolded list.sel, OF disjI2, OF refl]
      by (simp add: ce(2) [simplified])
    with Cons.IH Cons.prems Cons e show ?thesis by simp
  qed
qed simp

subsection \<open>What the requests of a socket contain\<close>

text \<open>Which cookies and headers a socket has after any calls of the two setters.\<close>

datatype field_call = CallCookie string string | CallHeader string string

fun field_step :: "(char \<Rightarrow> bool) \<Rightarrow> (char \<Rightarrow> bool) \<Rightarrow> field_call \<Rightarrow> 'a gwsocket_scheme \<Rightarrow> 'a gwsocket_scheme" where
  "field_step tc tx (CallCookie k v) s = snd (setCookie tc k v s)"
| "field_step tc tx (CallHeader k v) s = snd (setHeader tc tx k v s)"

definition fields_ok :: "(char \<Rightarrow> bool) \<Rightarrow> (char \<Rightarrow> bool) \<Rightarrow> 'a gwsocket_scheme \<Rightarrow> bool" where
  "fields_ok tc tx s \<longleftrightarrow> (\<forall>k v. cookies s k = Some v \<longrightarrow> cookie_ok tc (k, v))
     \<and> (\<forall>k v. headers s k = Some v \<longrightarrow> isToken tc k \<and> isFieldValue tx v)"

lemma field_step_ok: "fields_ok tc tx s \<Longrightarrow> fields_ok tc tx (field_step tc tx c s)"
  by (cases c) (auto simp: fields_ok_def setCookie_def setHeader_def cookie_ok_def)

lemma new_fields_ok: "fields_ok tc tx (new_gwsocket h p pt)"
  by (simp add: fields_ok_def new_gwsocket_def)

lemma fold_fields_ok: "fields_ok tc tx s \<Longrightarrow> fields_ok tc tx (fold (field_step tc tx) cs s)"
  by (induction cs arbitrary: s) (auto intro: field_step_ok)

lemma entries_of_in: "entries_of m es \<Longrightarrow> (k, v) \<in> set es \<Longrightarrow> m k = Some v"
  by (auto simp: entries_of_def)


definition token_class :: "(char \<Rightarrow> bool) \<Rightarrow> bool" where
  \<comment> \<open>RFC 7230: no separator and no control character is in a token\<close>
  "token_class tc \<longleftrightarrow> (\<forall>c\<in>set ''=;: ''. \<not> tc c) \<and> (\<forall>c. code c < 32 \<longrightarrow> \<not> tc c)"

definition text_class :: "(char \<Rightarrow> bool) \<Rightarrow> bool" where
  \<comment> \<open>RFC 7230: no control character but the tab is in a field value\<close>
  "text_class tx \<longleftrightarrow> (\<forall>c. code c < 32 \<longrightarrow> c \<noteq> CHR 0x09 \<longrightarrow> \<not> tx c)"

definition one_line :: "string \<Rightarrow> bool" where
  "one_line t \<longleftrightarrow> (\<forall>c\<in>set t. c \<noteq> CHR 0x0D \<and> c \<noteq> CHR 0x0A \<and> c \<noteq> CHR 0x00)"

lemma one_line_append [simp]: "one_line (s @ t) \<longleftrightarrow> one_line s \<and> one_line t"
  by (auto simp: one_line_def)

lemma one_line_Cons [simp]: "one_line (c # t) \<longleftrightarrow> c \<noteq> CHR 0x0D \<and> c \<noteq> CHR 0x0A \<and> c \<noteq> CHR 0x00 \<and> one_line t"
  by (auto simp: one_line_def)

lemma one_line_Nil [simp]: "one_line []"
  by (simp add: one_line_def)

lemma token_one_line: "token_class tc \<Longrightarrow> isToken tc k \<Longrightarrow> one_line k \<and> CHR '':'' \<notin> set k"
  by (fastforce simp: token_class_def isToken_def one_line_def list_all_iff)

lemma field_one_line: "text_class tx \<Longrightarrow> isFieldValue tx v \<Longrightarrow> one_line v"
  by (fastforce simp: text_class_def isFieldValue_def one_line_def list_all_iff)

lemma cookie_one_line: "isCookieValue v \<Longrightarrow> one_line v"
  by (fastforce simp: isCookieValue_def one_line_def list_all_iff)

lemma cookie_loop_one_line:
  "token_class tc \<Longrightarrow> list_all (cookie_ok tc) es \<Longrightarrow> one_line (cookie_loop b es)"
  by (induction es arbitrary: b) (auto simp: cookie_ok_def token_one_line cookie_one_line)

subsection \<open>Properties\<close>

definition cookie_field :: "string \<times> string \<Rightarrow> bool" where
  \<comment> \<open>the names of fields do not depend on case\<close>
  "cookie_field f \<longleftrightarrow> to_lower (fst f) = ''cookie''"

text \<open>
  C25. Read back by the rules of RFC 6265, the Cookie fields of the handshake yield
  exactly the cookies that were set, whatever was passed to setCookie and setHeader,
  followed by what headers named Cookie (in any case) hold; with no such header they are
  exactly the cookies that were set, none included.
\<close>

theorem cookies_read_back:
  assumes "token_class tc" "entries_of (cookies s) es"
    and "s = fold (field_step tc tx) calls (new_gwsocket h p pt)"
  shows "concat (map (parse_cookies \<circ> snd) (filter cookie_field (decorator es hs))) =
      es @ concat (map (parse_cookies \<circ> snd) (filter cookie_field hs))
    \<and> map_of es = cookies s
    \<and> ((\<forall>f\<in>set hs. \<not> cookie_field f) \<longrightarrow>
         concat (map (parse_cookies \<circ> snd) (filter cookie_field (decorator es hs))) = es)"
proof -
  have "fields_ok tc tx s" unfolding assms(3) by (intro fold_fields_ok new_fields_ok)
  then have "list_all (cookie_ok tc) es"
    using assms(2) entries_of_in by (fastforce simp: list_all_iff fields_ok_def)
  then have "es \<noteq> [] \<Longrightarrow> parse_cookies (cookie_loop True es) = es"
    using assms(1) by (intro parse_cookie_loop [of tc]) (auto simp: token_class_def)
  moreover have "to_lower ''Cookie'' = ''cookie''" by code_simp
  ultimately show ?thesis using assms(2) by (auto simp: decorator_def entries_of_def filter_empty_conv cookie_field_def)
qed

definition sample_token :: "char \<Rightarrow> bool" where
  "sample_token c \<longleftrightarrow> is_alnum c \<or> c = CHR ''-''"

lemma sample_token_class: "token_class sample_token"
  by (auto simp: token_class_def sample_token_def is_alnum_def is_alpha_def is_num_def)

theorem cookies_read_back_witness:
  "concat (map (parse_cookies \<circ> snd) (filter cookie_field (decorator [(''a'', ''1''), (''b'', [])] [(''cookie'', ''c=3'')]))) =
     [(''a'', ''1''), (''b'', [])] @ concat (map (parse_cookies \<circ> snd) (filter cookie_field [(''cookie'', ''c=3'')]))"
proof -
  let ?calls = "[CallCookie ''b'' [], CallCookie ''a'' ''1'', CallCookie ''x;'' ''2'', CallCookie ''c'' '',,'']"
  define s where "s = fold (field_step sample_token (\<lambda>_. True)) ?calls (new_gwsocket ''h'' 80 ''/'')"
  have "cookies s = [''b'' \<mapsto> [], ''a'' \<mapsto> ''1'']"
    by (simp add: s_def setCookie_def new_gwsocket_def isToken_def sample_token_def isCookieValue_def
        is_alnum_def is_alpha_def is_num_def)
  then have "entries_of (cookies s) [(''a'', ''1''), (''b'', [])]" by (simp add: entries_of_def fun_upd_twist)
  from cookies_read_back [OF sample_token_class this s_def] show ?thesis by blast
qed

text \<open>
  C26. No sequence of setCookie and setHeader calls puts a line break or a NUL into the
  handshake request or a colon into the name of a field.
\<close>

theorem request_fields_one_line:
  assumes "token_class tc" "text_class tx"
    and "entries_of (cookies s) es" "entries_of (headers s) hs"
    and "s = fold (field_step tc tx) calls (new_gwsocket h p pt)"
  shows "list_all (\<lambda>(name, val). one_line name \<and> CHR '':'' \<notin> set name \<and> one_line val) (decorator es hs)"
proof -
  have ok: "fields_ok tc tx s" unfolding assms(5) by (intro fold_fields_ok new_fields_ok)
  then have "list_all (cookie_ok tc) es"
    using assms(3) entries_of_in by (fastforce simp: list_all_iff fields_ok_def)
  then have "one_line (cookie_loop True es)" using assms(1) cookie_loop_one_line by blast
  moreover have "\<forall>(k, v)\<in>set hs. isToken tc k \<and> isFieldValue tx v"
    using ok assms(4) entries_of_in by (fastforce simp: fields_ok_def)
  ultimately show ?thesis
    using token_one_line [OF assms(1)] field_one_line [OF assms(2)] by (auto simp: decorator_def list_all_iff)
qed

theorem request_fields_one_line_witness:
  "list_all (\<lambda>(name, val). one_line name \<and> CHR '':'' \<notin> set name \<and> one_line val)
     (decorator [(''a'', ''1'')] [(''x-y'', ''z'')])"
proof -
  let ?calls = "[CallCookie ''a'' ''1'', CallHeader ''x-y'' ''z'', CallHeader ''evil'' [CHR 0x0D, CHR 0x0A]]"
  let ?tx = "\<lambda>c. code c \<ge> 32"
  define s where "s = fold (field_step sample_token ?tx) ?calls (new_gwsocket ''h'' 80 ''/'')"
  have s: "cookies s = [''a'' \<mapsto> ''1'']" "headers s = [''x-y'' \<mapsto> ''z'']"
    by (simp_all add: s_def setCookie_def setHeader_def new_gwsocket_def isToken_def sample_token_def
        isCookieValue_def isFieldValue_def is_alnum_def is_alpha_def is_num_def)
  show ?thesis
    by (rule request_fields_one_line [OF sample_token_class _ _ _ s_def])
       (simp_all add: s entries_of_def text_class_def)
qed

end
