(* ===== verification/Update_Checker.thy ===== *)
theory Update_Checker
  imports Url_Path
begin

text \<open>
  The version check of UpdateChecker.h: how two version texts are compared and what the
  answer to the request for the latest version leads to. A \<open>long\<close> has 64 bits on one
  platform and 32 on the others the module is built for, so its width \<open>w\<close> is an argument.
\<close>

subsection \<open>Numbers\<close>

definition is_space :: "char \<Rightarrow> bool" where
  "is_space c = (c = CHR '' '' \<or> (9 \<le> code c \<and> code c \<le> 13))"

definition clamp :: "nat \<Rightarrow> int \<Rightarrow> int" where
  "clamp w v = max (- (2 ^ (w - 1))) (min (2 ^ (w - 1) - 1) v)"

definition strtol :: "nat \<Rightarrow> string \<Rightarrow> int" where
  \<comment> \<open>base ten: blanks, a sign, digits; the bounds of \<open>long\<close> where the value exceeds them\<close>
  "strtol w s =
     (let t = dropWhile is_space s;
          (neg, t) = (case t of [] \<Rightarrow> (False, []) | c # u \<Rightarrow>
             if c = CHR ''-'' then (True, u) else if c = CHR ''+'' then (False, u) else (False, t));
          v = int (dec_value (takeWhile is_digit t))
      in clamp w (if neg then - v else v))"

definition to_int :: "int \<Rightarrow> int" where
  \<comment> \<open>a \<open>long\<close> stored in an \<open>int\<close>\<close>
  "to_int v = signed_take_bit 31 v"

subsection \<open>Comparing versions\<close>

function split_loop :: "nat \<Rightarrow> string \<Rightarrow> nat \<Rightarrow> nat \<Rightarrow> int list" where
  \<comment> \<open>the values pushed from index \<open>i\<close> on; the second branch of the loop is never taken, since
     the first covers the last index\<close>
  "split_loop w versionString start i =
     (if i < length versionString then
        (if versionString ! i = CHR ''.'' \<or> i + 1 = length versionString then
           (let subStr = (if i + 1 = length versionString then drop start versionString
                          else take (i - start) (drop start versionString))
            in to_int (strtol w subStr) # split_loop w versionString (i + 1) (i + 1))
         else split_loop w versionString start (i + 1))
      else [])"
  by pat_completeness auto
termination
  by (relation "measure (\<lambda>(w, s, start, i). length s - i)") auto

declare split_loop.simps [simp del]

definition splitVersions :: "nat \<Rightarrow> string \<Rightarrow> int list" where
  "splitVersions w versionString = split_loop w versionString 0 0"

fun compare_loop :: "int list \<Rightarrow> int list \<Rightarrow> int" where
  \<comment> \<open>a round takes the next component of each side, 0 where a side has none left\<close>
  "compare_loop [] [] = 0"
| "compare_loop (l # ls) [] = (if l \<noteq> 0 then (if l < 0 then -1 else 1) else compare_loop ls [])"
| "compare_loop [] (r # rs) = (if 0 \<noteq> r then (if 0 < r then -1 else 1) else compare_loop [] rs)"
| "compare_loop (l # ls) (r # rs) =
     (if l \<noteq> r then (if l < r then -1 else 1) else compare_loop ls rs)"

definition compareVersions :: "nat \<Rightarrow> string \<Rightarrow> string \<Rightarrow> int" where
  "compareVersions w left right = compare_loop (splitVersions w left) (splitVersions w right)"

definition MODULE_VERSION :: string where
  "MODULE_VERSION = ''1.3.0''"

datatype fetch_action = CallFetchFailed | CallPrintOutdated | PrintLatest

definition fetchSuccessful :: "nat \<Rightarrow> string \<Rightarrow> int \<Rightarrow> fetch_action" where
  "fetchSuccessful w version httpCode =
     (if httpCode \<noteq> 200 then CallFetchFailed
      else if compareVersions w MODULE_VERSION version < 0 then CallPrintOutdated
      else PrintLatest)"

subsection \<open>The order of component lists\<close>

text \<open>Lists of components with zeros after their end, compared from the front.\<close>

definition comp :: "int list \<Rightarrow> nat \<Rightarrow> int" where
  "comp xs i = (if i < length xs then xs ! i else 0)"

definition newer :: "int list \<Rightarrow> int list \<Rightarrow> bool" where
  "newer xs ys \<longleftrightarrow> (\<exists>i. comp xs i < comp ys i \<and> (\<forall>j<i. comp xs j = comp ys j))"

lemma comp_simps [simp]: "comp [] i = 0" "comp (x # xs) 0 = x" "comp (x # xs) (Suc i) = comp xs i"
  by (simp_all add: comp_def)

lemma newer_step:
  assumes "\<And>i. comp xs' i = comp xs (Suc i)" "\<And>i. comp ys' i = comp ys (Suc i)"
  shows "newer xs ys \<longleftrightarrow> comp xs 0 < comp ys 0 \<or> comp xs 0 = comp ys 0 \<and> newer xs' ys'"
proof
  assume "newer xs ys"
  then obtain i where i: "comp xs i < comp ys i" "\<forall>j<i. comp xs j = comp ys j" by (auto simp: newer_def)
  show "comp xs 0 < comp ys 0 \<or> comp xs 0 = comp ys 0 \<and> newer xs' ys'"
  proof (cases i)
    case (Suc k)
    with i assms show ?thesis by (auto simp: newer_def intro!: exI [of _ k])
  qed (use i in simp)
next
  assume r: "comp xs 0 < comp ys 0 \<or> comp xs 0 = comp ys 0 \<and> newer xs' ys'"
  show "newer xs ys"
  proof (cases "comp xs 0 < comp ys 0")
    case False
    with r obtain i where "comp xs 0 = comp ys 0" "comp xs' i < comp ys' i" "\<forall>j<i. comp xs' j = comp ys' j"
      by (auto simp: newer_def)
    with assms show ?thesis
      unfolding newer_def by (intro exI [of _ "Suc i"]) (auto simp: less_Suc_eq_0_disj)
  qed (auto simp: newer_def)
qed

lemma newer_simps [simp]:
  "\<not> newer [] []"
  "newer (x # xs) [] \<longleftrightarrow> x < 0 \<or> x = 0 \<and> newer xs []"
  "newer [] (y # ys) \<longleftrightarrow> 0 < y \<or> y = 0 \<and> newer [] ys"
  "newer (x # xs) (y # ys) \<longleftrightarrow> x < y \<or> x = y \<and> newer xs ys"
  using newer_step [of xs "x # xs" "[]" "[]"] newer_step [of "[]" "[]" ys "y # ys"]
    newer_step [of xs "x # xs" ys "y # ys"]
  by (auto simp: newer_def)

lemma compare_loop_newer:
  "compare_loop xs ys = (if newer xs ys then - 1 else if newer ys xs then 1 else 0)"
  by (induction xs ys rule: compare_loop.induct) auto

lemma newer_irrefl: "\<not> newer xs xs"
  by (auto simp: newer_def)

lemma newer_trans:
  assumes "newer xs ys" "newer ys zs"
  shows "newer xs zs"
proof -
  obtain i j where i: "comp xs i < comp ys i" "\<forall>k<i. comp xs k = comp ys k"
    and j: "comp ys j < comp zs j" "\<forall>k<j. comp ys k = comp zs k"
    using assms by (auto simp: newer_def)
  consider "i < j" | "i = j" | "j < i" by linarith
  then show ?thesis
  proof cases
    case 1
    with i j show ?thesis unfolding newer_def by (intro exI [of _ i]) auto
  next
    case 2
    with i j show ?thesis unfolding newer_def by (intro exI [of _ i]) auto
  next
    case 3
    with i j show ?thesis unfolding newer_def by (intro exI [of _ j]) auto
  qed
qed

lemma newer_asym: "newer xs ys \<Longrightarrow> \<not> newer ys xs"
  using newer_irrefl newer_trans by blast

lemma not_newer_both:
  assumes "\<not> newer xs ys" "\<not> newer ys xs"
  shows "comp xs = comp ys"
proof
  fix i
  show "comp xs i = comp ys i"
  proof (induction i rule: less_induct)
    case (less i)
    then have "\<forall>j<i. comp xs j = comp ys j" "\<forall>j<i. comp ys j = comp xs j" by simp_all
    then have "\<not> comp xs i < comp ys i" "\<not> comp ys i < comp xs i"
      using assms unfolding newer_def by blast+
    then show ?case by simp
  qed
qed

lemma newer_cong: "comp xs = comp xs' \<Longrightarrow> comp ys = comp ys' \<Longrightarrow> newer xs ys = newer xs' ys'"
  by (simp add: newer_def)

subsection \<open>Printed versions\<close>

fun print_version :: "nat list \<Rightarrow> string" where
  "print_version [] = []"
| "print_version [n] = to_string n"
| "print_version (n # ns) = to_string n @ CHR ''.'' # print_version ns"


lemma split_loop_piece:
  assumes "v = pre @ p @ CHR ''.'' # rest" "CHR ''.'' \<notin> set p" "rest \<noteq> []" "k \<le> length p"
  shows "split_loop w v (length pre) (length pre + k) =
    to_int (strtol w p) # split_loop w v (length pre + length p + 1) (length pre + length p + 1)"
  using assms(4)
proof (induction "length p - k" arbitrary: k)
  case 0
  then show ?case using assms(1,3) by (subst split_loop.simps) (simp add: nth_append)
next
  case (Suc d)
  then have k: "k < length p" by simp
  then have "v ! (length pre + k) = p ! k" using assms(1) by (simp add: nth_append)
  then have "v ! (length pre + k) \<noteq> CHR ''.''" using assms(2) k nth_mem by metis
  then have "split_loop w v (length pre) (length pre + k) = split_loop w v (length pre) (length pre + Suc k)"
    using k assms(1) by (subst split_loop.simps) simp
  with Suc.hyps(1) [of "Suc k"] Suc.hyps(2) k show ?case by simp
qed

lemma split_loop_last:
  assumes "v = pre @ p" "CHR ''.'' \<notin> set p" "k < length p"
  shows "split_loop w v (length pre) (length pre + k) = [to_int (strtol w p)]"
  using assms(3)
proof (induction "length p - Suc k" arbitrary: k)
  case 0
  then have "Suc (length pre + k) = length v" using assms(1) by simp
  then show ?case using assms(1)
    by (subst split_loop.simps) (simp add: split_loop.simps [of w "pre @ p" "Suc _"])
next
  case (Suc d)
  then have k: "Suc k < length p" by simp
  then have "v ! (length pre + k) = p ! k" using assms(1) by (simp add: nth_append)
  then have "v ! (length pre + k) \<noteq> CHR ''.''" using assms(2) k nth_mem Suc_lessD by metis
  then have "split_loop w v (length pre) (length pre + k) = split_loop w v (length pre) (length pre + Suc k)"
    using k assms(1) by (subst split_loop.simps) simp
  with Suc.hyps(1) [of "Suc k"] Suc.hyps(2) k show ?case by simp
qed

lemma digits_not_space: "is_digit c \<Longrightarrow> \<not> is_space c \<and> c \<noteq> CHR ''-'' \<and> c \<noteq> CHR ''+'' \<and> c \<noteq> CHR ''.''"
  by (auto simp: is_digit_def is_space_def)

lemma strtol_to_string: "strtol w (to_string n) = clamp w (int n)"
proof -
  obtain c t where ct: "to_string n = c # t" using to_string_nonempty [of n] by (cases "to_string n") auto
  have d: "\<forall>c\<in>set (to_string n). is_digit c" using list_all_to_string [of n] by (simp add: list_all_iff)
  then have tw: "takeWhile is_digit (to_string n) = to_string n" by (simp add: takeWhile_eq_all_conv)
  have "is_digit c" using d ct by simp
  then have "dropWhile is_space (to_string n) = to_string n" using ct digits_not_space by simp
  moreover have "dec_value (c # t) = n" using dec_value_to_string [of n] ct by simp
  ultimately show ?thesis
    using tw digits_not_space [OF \<open>is_digit c\<close>] by (simp add: strtol_def Let_def ct)
qed

lemma to_int_small: "n < 2 ^ 31 \<Longrightarrow> w \<ge> 32 \<Longrightarrow> to_int (clamp w (int n)) = int n"
proof -
  assume n: "n < 2 ^ 31" and w: "w \<ge> 32"
  have "(2 :: int) ^ 31 \<le> 2 ^ (w - 1)" using w by (intro power_increasing) simp_all
  with n have "clamp w (int n) = int n" by (simp add: clamp_def)
  moreover have "int n < 2 ^ 31" using n by simp
  ultimately show ?thesis by (simp add: to_int_def signed_take_bit_int_eq_self)
qed

lemma no_dot: "CHR ''.'' \<notin> set (to_string n)"
  using list_all_to_string [of n] digits_not_space by (auto simp: list_all_iff)

lemma split_print_from:
  "ns \<noteq> [] \<Longrightarrow> list_all (\<lambda>n. n < 2 ^ 31) ns \<Longrightarrow> w \<ge> 32 \<Longrightarrow> v = pre @ print_version ns \<Longrightarrow>
   split_loop w v (length pre) (length pre) = map int ns"
proof (induction ns arbitrary: pre rule: print_version.induct)
  case (2 n)
  then show ?case
    using split_loop_last [of v pre "to_string n" 0 w] no_dot to_string_nonempty [of n]
    by (simp add: strtol_to_string to_int_small)
next
  case (3 n m ns)
  let ?pre = "pre @ to_string n @ ''.''"
  have "print_version (m # ns) \<noteq> []" using to_string_nonempty by (cases ns) auto
  then have "split_loop w v (length pre) (length pre) =
      to_int (strtol w (to_string n)) # split_loop w v (length pre + length (to_string n) + 1) (length pre + length (to_string n) + 1)"
    using split_loop_piece [of v pre "to_string n" "print_version (m # ns)" 0 w] 3(5) no_dot by simp
  moreover have "split_loop w v (length ?pre) (length ?pre) = map int (m # ns)"
    using 3 by (intro "3.IH") simp_all
  ultimately show ?case using 3(3,4) by (simp add: strtol_to_string to_int_small)
qed simp

lemma split_print:
  "ns \<noteq> [] \<Longrightarrow> list_all (\<lambda>n. n < 2 ^ 31) ns \<Longrightarrow> w \<ge> 32 \<Longrightarrow> splitVersions w (print_version ns) = map int ns"
  using split_print_from [of ns w _ "[]"] by (simp add: splitVersions_def)

subsection \<open>Properties\<close>

theorem version_order:
  "compareVersions w s s = 0 \<and> compareVersions w s t = - compareVersions w t s
   \<and> (compareVersions w s t \<le> 0 \<and> compareVersions w t u \<le> 0 \<longrightarrow> compareVersions w s u \<le> 0)"
proof -
  have "compare_loop xs zs \<le> 0" if "compare_loop xs ys \<le> 0" "compare_loop ys zs \<le> 0" for xs ys zs
  proof -
    have le: "\<not> newer ys xs" "\<not> newer zs ys"
      using that newer_asym by (fastforce simp: compare_loop_newer split: if_split_asm)+
    have "\<not> newer zs xs"
    proof
      assume zx: "newer zs xs"
      show False
      proof (cases "newer xs ys")
        case True
        with zx le(2) newer_trans show False by blast
      next
        case False
        then have "comp xs = comp ys" using le(1) not_newer_both by blast
        with zx le(2) newer_cong show False by blast
      qed
    qed
    then show ?thesis by (simp add: compare_loop_newer)
  qed
  moreover have "compare_loop xs ys = - compare_loop ys xs" for xs ys
    using newer_asym by (simp add: compare_loop_newer)
  moreover have "compare_loop xs xs = 0" for xs
    by (simp add: compare_loop_newer newer_irrefl)
  ultimately show ?thesis unfolding compareVersions_def by blast
qed

theorem version_order_witness:
  "compareVersions 32 ''3'' ''10'' = - 1 \<and> compareVersions 32 ''10'' ''10.0'' = 0
   \<and> compareVersions 32 ''3'' ''10.0'' \<le> 0"
proof -
  have "compareVersions 32 ''3'' ''10'' = - 1" "compareVersions 32 ''10'' ''10.0'' = 0" by code_simp+
  moreover from this version_order [of 32 "''3''" "''10''" "''10.0''"]
  have "compareVersions 32 ''3'' ''10.0'' \<le> 0" by simp
  ultimately show ?thesis by simp
qed

lemma split_module_version: "w \<ge> 32 \<Longrightarrow> splitVersions w MODULE_VERSION = [1, 3, 0]"
proof -
  have "MODULE_VERSION = print_version [1, 3, 0]" by code_simp
  then show "w \<ge> 32 \<Longrightarrow> ?thesis" using split_print [of "[1, 3, 0]" w] by simp
qed

text \<open>
  C36. For a printed version with components below 2^31, splitVersions reads the
  components back, and the module calls itself outdated exactly when they are newer in the
  order from the front.
\<close>

theorem outdated_iff_newer:
  assumes "ns \<noteq> []" "list_all (\<lambda>n. n < 2 ^ 31) ns" "w \<ge> 32"
  shows "splitVersions w (print_version ns) = map int ns
    \<and> (fetchSuccessful w (print_version ns) 200 = CallPrintOutdated \<longleftrightarrow> newer [1, 3, 0] (map int ns))"
proof -
  note split_module_version [OF assms(3)]
  with split_print [OF assms] show ?thesis
    by (simp add: fetchSuccessful_def compareVersions_def compare_loop_newer)
qed

theorem outdated_iff_newer_witness:
  "splitVersions 64 (print_version [1, 4]) = [1, 4]
    \<and> (fetchSuccessful 64 (print_version [1, 4]) 200 = CallPrintOutdated \<longleftrightarrow> newer [1, 3, 0] [1, 4])"
  using outdated_iff_newer [of "[1, 4]" 64] by simp

lemma strtol_no_digit: "list_all (\<lambda>c. \<not> is_digit c) s \<Longrightarrow> strtol w s = 0"
proof -
  assume nd: "list_all (\<lambda>c. \<not> is_digit c) s"
  have tw: "takeWhile is_digit t = []" if "set t \<subseteq> set s" for t
    using nd that by (cases t) (auto simp: list_all_iff)
  have sub: "set (dropWhile is_space s) \<subseteq> set s" by (meson set_dropWhileD subsetI)
  have "clamp w 0 = 0" by (simp add: clamp_def)
  then show ?thesis
  proof (cases "dropWhile is_space s")
    case (Cons c u)
    have "takeWhile is_digit (c # u) = []" "takeWhile is_digit u = []"
      by (rule tw, use sub Cons in simp)+
    with \<open>clamp w 0 = 0\<close> show ?thesis
      unfolding strtol_def Let_def Cons list.case by (simp add: dec_value_def del: takeWhile.simps)
  next
    case Nil
    with \<open>clamp w 0 = 0\<close> show ?thesis unfolding strtol_def Let_def Nil by (simp add: dec_value_def)
  qed
qed

lemma split_no_digit:
  assumes "list_all (\<lambda>c. \<not> is_digit c) s"
  shows "\<forall>x\<in>set (split_loop w s start i). x = 0"
  using assms
proof (induction w s start i rule: split_loop.induct)
  case (1 w s start i)
  have "list_all (\<lambda>c. \<not> is_digit c) (drop start s)" "list_all (\<lambda>c. \<not> is_digit c) (take (i - start) (drop start s))"
    using 1(3) by (auto simp: list_all_iff dest!: in_set_dropD in_set_takeD)
  then have "strtol w (drop start s) = 0" "strtol w (take (i - start) (drop start s)) = 0"
    by (simp_all add: strtol_no_digit)
  with 1 show ?case
    by (subst split_loop.simps) (auto simp: to_int_def)
qed

theorem no_digits_is_latest:
  assumes "list_all (\<lambda>c. \<not> is_digit c) answer" "w \<ge> 32"
  shows "fetchSuccessful w answer 200 = PrintLatest"
proof -
  have "comp (splitVersions w answer) 0 = 0"
    using split_no_digit [OF assms(1), of w 0 0] by (auto simp: comp_def splitVersions_def)
  then have "\<not> newer [1, 3, 0] (splitVersions w answer)"
    by (cases "splitVersions w answer") simp_all
  then show ?thesis
    by (simp add: fetchSuccessful_def compareVersions_def split_module_version [OF assms(2)] compare_loop_newer)
qed

theorem no_digits_is_latest_witness: "fetchSuccessful 64 ''Not found'' 200 = PrintLatest"
  by (rule no_digits_is_latest) (simp_all add: is_digit_def)

end
