(* ===== verification/Lua_Module.thy ===== *)
theory Lua_Module
  imports Sockets Http_Fields Url_Build Update_Checker
begin

text \<open>
  The module itself (GLua.cpp): the sockets it allocates, the tables that keep track of
  them, the functions that Lua calls and the timer that delivers the events.
\<close>

subsection \<open>Creating a socket\<close>

definition stoi :: "string \<Rightarrow> int exec" where
  \<comment> \<open>\<open>parse_error\<close> stands for any \<open>std::invalid_argument\<close>, which it is derived from\<close>
  "stoi s =
     (let t = dropWhile is_space s;
          t = (if t \<noteq> [] \<and> (hd t = CHR ''-'' \<or> hd t = CHR ''+'') then tl t else t) in
      if takeWhile is_digit t = [] then Throw (parse_error ''stoi'')
      else
        let n = dec_value (takeWhile is_digit t);
            v = (if hd (dropWhile is_space s) = CHR ''-'' then - int n else int n) in
        if v < - (2 ^ 31) \<or> v > 2 ^ 31 - 1 then Throw (out_of_range ''stoi'') else Ret v)"

definition createWebSocketFromURL :: "string \<Rightarrow> bool \<Rightarrow> socket_obj exec" where
  "createWebSocketFromURL urlString verifyCert =
     exec_bind (get_host (url_of_string urlString)) (\<lambda>(h, url).
     exec_bind (get_path url) (\<lambda>(p, url).
     let pth = (if p = [] then ''/'' else p) in
     exec_bind (get_scheme url) (\<lambda>(scheme, url).
     let useSSL = (scheme = ''https'' \<or> scheme = ''wss'') in
     exec_bind (get_port url) (\<lambda>(prt, url).
     exec_bind (if prt = [] then Ret (if useSSL then 443 else 80) else stoi prt) (\<lambda>n.
     let port' = (word_of_int n :: 16 word) in
     if h = [] then Throw (parse_error ''Invalid url passed. Make sure it includes a scheme'')
     else Ret (make_socket useSSL verifyCert h port' pth))))))"

subsection \<open>The state\<close>

text \<open>
  Addresses stand for the pointers that \<open>new\<close> returns. \<open>heap\<close> has the objects that are
  allocated; using an address without one is undefined (\<open>None\<close>). \<open>registry\<close> is the
  part of Lua's registry that the module's references are in, each with the socket whose
  table it keeps; \<open>userdata\<close> are the sockets whose userdata Lua has not collected. When a
  socket is deleted, the handlers it has pending stay with the io_context: \<open>orphans\<close>.
\<close>

type_synonym ptr = nat

datatype stage =
    Idle
  | Polling
  | Dispatching "(ptr \<times> int) list" "(ptr \<times> int \<times> GWSocketMessageIn list) option"
  | Closing
  | Closed

record lua_module =
  heap :: "ptr \<rightharpoonup> socket_obj"
  allSockets :: "ptr set"
  gcedSockets :: "ptr set"
  socketTableReferences :: "ptr \<rightharpoonup> int"
  moduleOpen :: bool
  registry :: "int \<rightharpoonup> ptr"
  userdata :: "ptr set"
  orphans :: "(ptr \<times> 32 word \<times> async_op) list"
  stage :: stage

datatype mod_out =
    LuaError string
  | NoHalt string
  | Returned bool
  | Created ptr
  | Uncaught url_exn
  | Callback ptr GWSMessageInType string

type_synonym mod_res = "(lua_module \<times> mod_out list) option"

definition module_opened :: lua_module where
  "module_opened =
     \<lparr>heap = Map.empty, allSockets = {}, gcedSockets = {}, socketTableReferences = Map.empty,
      moduleOpen = True, registry = Map.empty, userdata = {}, orphans = [], stage = Idle\<rparr>"

subsection \<open>Access to a socket\<close>

definition on_socket :: "ptr \<Rightarrow> (socket_obj \<Rightarrow> (socket_obj \<times> 'r) option) \<Rightarrow> lua_module \<Rightarrow>
  (lua_module \<times> 'r) option" where
  \<comment> \<open>a call through a pointer\<close>
  "on_socket p f m =
     (case heap m p of None \<Rightarrow> None
      | Some x \<Rightarrow> map_option (\<lambda>(x, r). (m\<lparr>heap := (heap m)(p \<mapsto> x)\<rparr>, r)) (f x))"

definition read_state :: "ptr \<Rightarrow> lua_module \<Rightarrow> SocketState option" where
  "read_state p m = map_option (\<lambda>x. state (base_of x)) (heap m p)"

fun obj_set_cookie :: "(char \<Rightarrow> bool) \<Rightarrow> string \<Rightarrow> string \<Rightarrow> socket_obj \<Rightarrow> socket_obj \<times> bool" where
  "obj_set_cookie tc k v (Plain s) = (let (ok, s) = setCookie tc k v s in (Plain s, ok))"
| "obj_set_cookie tc k v (Tls s) = (let (ok, s) = setCookie tc k v s in (Tls s, ok))"

fun obj_set_header ::
  "(char \<Rightarrow> bool) \<Rightarrow> (char \<Rightarrow> bool) \<Rightarrow> string \<Rightarrow> string \<Rightarrow> socket_obj \<Rightarrow> socket_obj \<times> bool" where
  "obj_set_header tc tx k v (Plain s) = (let (ok, s) = setHeader tc tx k v s in (Plain s, ok))"
| "obj_set_header tc tx k v (Tls s) = (let (ok, s) = setHeader tc tx k v s in (Tls s, ok))"

subsection \<open>The functions that Lua calls\<close>

text \<open>
  What a script may pass. A number passed for a string is its text, as \<open>CheckString\<close>
  converts it, so it is an \<open>LString\<close> here. A text read without its length ends at the first
  NUL.
\<close>

datatype lua_val = LNil | LBool bool | LString string | LSocket ptr | LOther

definition c_str :: "string \<Rightarrow> string" where
  "c_str s = takeWhile (\<lambda>c. c \<noteq> CHR 0x00) s"

definition opt_bool :: "bool \<Rightarrow> lua_val \<Rightarrow> bool" where
  \<comment> \<open>\<open>IsType(i, Type::Bool) ? GetBool(i) : d\<close>\<close>
  "opt_bool d v = (case v of LBool b \<Rightarrow> b | _ \<Rightarrow> d)"

definition lua_error :: "string \<Rightarrow> lua_module \<Rightarrow> mod_res" where
  "lua_error msg m = Some (m, [LuaError msg])"

definition getCppObject :: "lua_val \<Rightarrow> (ptr \<Rightarrow> lua_module \<Rightarrow> mod_res) \<Rightarrow> lua_module \<Rightarrow> mod_res" where
  "getCppObject self k m =
     (case self of LSocket p \<Rightarrow> k p m | _ \<Rightarrow> lua_error ''[GWSockets] Expected GWSocket table'' m)"

definition checkString :: "lua_val \<Rightarrow> (string \<Rightarrow> lua_module \<Rightarrow> mod_res) \<Rightarrow> lua_module \<Rightarrow> mod_res" where
  "checkString v k m = (case v of LString s \<Rightarrow> k s m | _ \<Rightarrow> lua_error ''string expected'' m)"

definition checkBool :: "lua_val \<Rightarrow> (bool \<Rightarrow> lua_module \<Rightarrow> mod_res) \<Rightarrow> lua_module \<Rightarrow> mod_res" where
  "checkBool v k m = (case v of LBool b \<Rightarrow> k b m | _ \<Rightarrow> lua_error ''bool expected'' m)"

definition call_socket :: "sock_event \<Rightarrow> ptr \<Rightarrow> lua_module \<Rightarrow> mod_res" where
  \<comment> \<open>a member function whose result is not used\<close>
  "call_socket e p m = map_option (\<lambda>(m, _). (m, [])) (on_socket p (obj_step e) m)"

definition socketCloseNow :: "lua_val \<Rightarrow> lua_module \<Rightarrow> mod_res" where
  "socketCloseNow self = getCppObject self (call_socket EvCloseNow)"

definition socketClose :: "bool \<Rightarrow> lua_val \<Rightarrow> lua_module \<Rightarrow> mod_res" where
  "socketClose spurious self = getCppObject self (call_socket (EvClose spurious))"

definition socketWrite :: "bool \<Rightarrow> lua_val \<Rightarrow> lua_val \<Rightarrow> lua_val \<Rightarrow> lua_module \<Rightarrow> mod_res" where
  "socketWrite spurious self arg2 arg3 =
     checkString arg2 (\<lambda>str. getCppObject self (call_socket (EvWrite spurious str (opt_bool False arg3))))"

definition if_disconnected :: "string \<Rightarrow> (ptr \<Rightarrow> lua_module \<Rightarrow> mod_res) \<Rightarrow> ptr \<Rightarrow> lua_module \<Rightarrow> mod_res" where
  \<comment> \<open>\<open>if (socket->state != STATE_DISCONNECTED) LUA->ThrowError(...)\<close>\<close>
  "if_disconnected msg k p m =
     (case read_state p m of None \<Rightarrow> None
      | Some st \<Rightarrow> if st \<noteq> STATE_DISCONNECTED then lua_error msg m else k p m)"

definition socketOpen :: "int \<Rightarrow> lua_val \<Rightarrow> lua_val \<Rightarrow> lua_module \<Rightarrow> mod_res" where
  \<comment> \<open>\<open>r\<close> is what \<open>ReferenceCreate\<close> returns\<close>
  "socketOpen r self arg2 =
     getCppObject self (if_disconnected ''Cannot open socket that is already connected'' (\<lambda>p m.
       let m = (if socketTableReferences m p = None
                then m\<lparr>registry := (registry m)(r \<mapsto> p),
                       socketTableReferences := (socketTableReferences m)(p \<mapsto> r)\<rparr>
                else m)
       in call_socket (EvOpen (opt_bool True arg2)) p m))"

definition socketClearQueue :: "lua_val \<Rightarrow> lua_module \<Rightarrow> mod_res" where
  "socketClearQueue self = getCppObject self (call_socket EvClearQueue)"

definition set_field :: "string \<Rightarrow> (socket_obj \<Rightarrow> socket_obj \<times> bool) \<Rightarrow> ptr \<Rightarrow> lua_module \<Rightarrow> mod_res" where
  "set_field msg f p m =
     (case on_socket p (\<lambda>x. Some (f x)) m of None \<Rightarrow> None
      | Some (m, ok) \<Rightarrow> if \<not> ok then lua_error msg m else Some (m, []))"

definition socketSetCookie :: "(char \<Rightarrow> bool) \<Rightarrow> lua_val \<Rightarrow> lua_val \<Rightarrow> lua_val \<Rightarrow> lua_module \<Rightarrow> mod_res" where
  "socketSetCookie tc self arg2 arg3 =
     getCppObject self (if_disconnected ''Cannot set a cookie for an already connected websocket'' (\<lambda>p.
       checkString arg2 (\<lambda>k. checkString arg3 (\<lambda>v.
         set_field ''Invalid cookie name or value'' (obj_set_cookie tc (c_str k) (c_str v)) p))))"

definition socketSetHeader ::
  "(char \<Rightarrow> bool) \<Rightarrow> (char \<Rightarrow> bool) \<Rightarrow> lua_val \<Rightarrow> lua_val \<Rightarrow> lua_val \<Rightarrow> lua_module \<Rightarrow> mod_res" where
  "socketSetHeader tc tx self arg2 arg3 =
     getCppObject self (if_disconnected ''Cannot set header for an already connected websocket'' (\<lambda>p.
       checkString arg2 (\<lambda>k. checkString arg3 (\<lambda>v.
         set_field ''Invalid header name or value'' (obj_set_header tc tx (c_str k) (c_str v)) p))))"

definition socketSetMessageCompression :: "lua_val \<Rightarrow> lua_val \<Rightarrow> lua_module \<Rightarrow> mod_res" where
  "socketSetMessageCompression self arg2 =
     getCppObject self (if_disconnected ''Cannot set message compression for an already connected websocket''
       (\<lambda>p. checkBool arg2 (\<lambda>b. call_socket (EvSetDeflate b) p)))"

definition socketSetDisableContextTakeover :: "lua_val \<Rightarrow> lua_val \<Rightarrow> lua_module \<Rightarrow> mod_res" where
  "socketSetDisableContextTakeover self arg2 =
     getCppObject self (if_disconnected ''Cannot set compression takeover for an already connected websocket''
       (\<lambda>p. checkBool arg2 (\<lambda>b. call_socket (EvSetTakeover b) p)))"

definition socketIsConnected :: "lua_val \<Rightarrow> lua_module \<Rightarrow> mod_res" where
  "socketIsConnected self =
     getCppObject self (\<lambda>p m.
       map_option (\<lambda>st. (m, [Returned (st = STATE_CONNECTED)])) (read_state p m))"

definition bad_url_message :: string where
  "bad_url_message = ''Unable to create WebSocket! Invalid URL. Refer to the documentation for the proper URL format.''"

definition createWebSocket :: "ptr \<Rightarrow> lua_val \<Rightarrow> lua_val \<Rightarrow> lua_module \<Rightarrow> mod_res" where
  \<comment> \<open>\<open>p\<close> is the address that \<open>new\<close> returns\<close>
  "createWebSocket p arg1 arg2 =
     checkString arg1 (\<lambda>urlString m.
       case createWebSocketFromURL (c_str urlString) (opt_bool True arg2) of
         Ret x \<Rightarrow>
           (let m = m\<lparr>heap := (heap m)(p \<mapsto> x)\<rparr>;
                m = m\<lparr>allSockets := insert p (allSockets m)\<rparr>;
                m = m\<lparr>userdata := insert p (userdata m)\<rparr>
            in Some (m, [Created p]))
       | Throw (parse_error _) \<Rightarrow> Some (m, [NoHalt bad_url_message])
       | Throw e \<Rightarrow> Some (m, [Uncaught e])
       | UB \<Rightarrow> None)"

definition socketGCFunction :: "ptr \<Rightarrow> lua_module \<Rightarrow> mod_res" where
  "socketGCFunction p m =
     (if \<not> moduleOpen m then Some (m, [])
      else
        let m = (if socketTableReferences m p \<noteq> None
                 then m\<lparr>socketTableReferences := (socketTableReferences m)(p := None)\<rparr> else m);
            m = m\<lparr>gcedSockets := insert p (gcedSockets m)\<rparr>
        in call_socket EvCloseNow p m)"


subsection \<open>The timer\<close>

text \<open>
  \<open>webSocketThink\<close> polls the io_context, deletes the collected sockets that are
  disconnected, and hands the queued events to the callbacks. The callbacks run Lua code,
  which calls the functions above; so the dispatch is cut into steps: the next entry of the
  copied list, and the next event of that entry. The unordered containers are met in an
  order that is an argument.
\<close>

definition delete_socket :: "ptr \<Rightarrow> lua_module \<Rightarrow> lua_module option" where
  \<comment> \<open>the handlers the object has pending stay with the io_context\<close>
  "delete_socket p m =
     (case heap m p of None \<Rightarrow> None
      | Some x \<Rightarrow> Some (m\<lparr>heap := (heap m)(p := None),
                          orphans := orphans m @ map (\<lambda>(g, op). (p, g, op)) (pending (base_of x))\<rparr>))"

fun sweep :: "ptr list \<Rightarrow> lua_module \<Rightarrow> lua_module option" where
  \<comment> \<open>the loop over \<open>gcedSockets\<close>\<close>
  "sweep [] m = Some m"
| "sweep (p # ps) m =
     (case read_state p m of None \<Rightarrow> None
      | Some st \<Rightarrow>
          if st = STATE_DISCONNECTED then
            (case delete_socket p (m\<lparr>allSockets := allSockets m - {p}\<rparr>) of None \<Rightarrow> None
             | Some m \<Rightarrow> sweep ps (m\<lparr>gcedSockets := gcedSockets m - {p}\<rparr>))
          else sweep ps m)"

definition next_entry :: "ptr \<Rightarrow> int \<Rightarrow> (ptr \<times> int) list \<Rightarrow> lua_module \<Rightarrow> mod_res" where
  \<comment> \<open>the body of the loop up to the callbacks; without events there are none, and the end of
     the body follows at once\<close>
  "next_entry p r es m =
     (case on_socket p (obj_step EvPoll) m of None \<Rightarrow> None
      | Some (m, messages) \<Rightarrow>
          (case read_state p m of None \<Rightarrow> None
           | Some st \<Rightarrow>
               if messages = [] \<and> st \<noteq> STATE_DISCONNECTED then Some (m\<lparr>stage := Dispatching es None\<rparr>, [])
               else if registry m r \<noteq> Some p then None
               else if messages \<noteq> [] then Some (m\<lparr>stage := Dispatching es (Some (p, r, messages))\<rparr>, [])
               else Some (m\<lparr>registry := (registry m)(r := None),
                            socketTableReferences := (socketTableReferences m)(p := None),
                            stage := Dispatching es None\<rparr>, [])))"

definition dispatch :: "lua_module \<Rightarrow> mod_res" where
  "dispatch m =
     (case stage m of
        Dispatching es (Some (p, r, msgs)) \<Rightarrow>
          (case msgs of
             [] \<Rightarrow> \<comment> \<open>the state is read, but an entry with events stays\<close>
               (case read_state p m of None \<Rightarrow> None | Some _ \<Rightarrow> Some (m\<lparr>stage := Dispatching es None\<rparr>, []))
           | msg # msgs \<Rightarrow>
               Some (m\<lparr>stage := Dispatching es (Some (p, r, msgs))\<rparr>, [Callback p (in_type msg) (in_message msg)]))
      | Dispatching es None \<Rightarrow>
          (case es of
             [] \<Rightarrow> Some (m\<lparr>stage := Idle\<rparr>, [])
           | (p, r) # es \<Rightarrow> next_entry p r es m)
      | _ \<Rightarrow> Some (m, []))"

subsection \<open>Unloading\<close>

fun for_all_sockets :: "sock_event \<Rightarrow> ptr list \<Rightarrow> lua_module \<Rightarrow> lua_module option" where
  "for_all_sockets e [] m = Some m"
| "for_all_sockets e (p # ps) m =
     (case on_socket p (obj_step e) m of None \<Rightarrow> None | Some (m, _) \<Rightarrow> for_all_sockets e ps m)"

fun close_and_delete :: "ptr list \<Rightarrow> lua_module \<Rightarrow> lua_module option" where
  "close_and_delete [] m = Some m"
| "close_and_delete (p # ps) m =
     (case on_socket p (obj_step EvCloseNow) m of None \<Rightarrow> None
      | Some (m, _) \<Rightarrow>
          (case delete_socket p m of None \<Rightarrow> None | Some m \<Rightarrow> close_and_delete ps m))"

definition module_close_begin :: "bool \<Rightarrow> ptr list \<Rightarrow> lua_module \<Rightarrow> lua_module option" where
  "module_close_begin spurious ps m =
     for_all_sockets (EvClose spurious) ps (m\<lparr>moduleOpen := False, stage := Closing\<rparr>)"

definition module_close_end :: "ptr list \<Rightarrow> lua_module \<Rightarrow> lua_module option" where
  \<comment> \<open>after \<open>run_for\<close>; \<open>deinitialize\<close> destroys the io_context with its handlers, which
     are not called\<close>
  "module_close_end ps m =
     map_option (\<lambda>m. m\<lparr>allSockets := {}, socketTableReferences := Map.empty, gcedSockets := {},
                       orphans := [], stage := Closed\<rparr>)
       (close_and_delete ps m)"

subsection \<open>The module at work\<close>

datatype lua_call =
    CreateWebSocket ptr lua_val lua_val
  | CallOpen int lua_val lua_val
  | CallClose bool lua_val
  | CallCloseNow lua_val
  | CallWrite bool lua_val lua_val lua_val
  | CallClearQueue lua_val
  | CallSetCookie lua_val lua_val lua_val
  | CallSetHeader lua_val lua_val lua_val
  | CallSetCompression lua_val lua_val
  | CallSetTakeover lua_val lua_val
  | CallIsConnected lua_val

fun lua_step :: "(char \<Rightarrow> bool) \<Rightarrow> (char \<Rightarrow> bool) \<Rightarrow> lua_call \<Rightarrow> lua_module \<Rightarrow> mod_res" where
  "lua_step tc tx (CreateWebSocket p a b) = createWebSocket p a b"
| "lua_step tc tx (CallOpen r s a) = socketOpen r s a"
| "lua_step tc tx (CallClose spurious s) = socketClose spurious s"
| "lua_step tc tx (CallCloseNow s) = socketCloseNow s"
| "lua_step tc tx (CallWrite spurious s a b) = socketWrite spurious s a b"
| "lua_step tc tx (CallClearQueue s) = socketClearQueue s"
| "lua_step tc tx (CallSetCookie s a b) = socketSetCookie tc s a b"
| "lua_step tc tx (CallSetHeader s a b) = socketSetHeader tc tx s a b"
| "lua_step tc tx (CallSetCompression s a) = socketSetMessageCompression s a"
| "lua_step tc tx (CallSetTakeover s a) = socketSetDisableContextTakeover s a"
| "lua_step tc tx (CallIsConnected s) = socketIsConnected s"

datatype mod_event =
    Call lua_call
  | Collect ptr
  | Think
  | IO ptr sock_event
  | RunOrphan nat
  | Sweep "ptr list" "(ptr \<times> int) list"
  | Dispatch
  | Abort
  | CloseBegin bool "ptr list"
  | CloseEnd "ptr list"

text \<open>
  \<open>Abort\<close> is a Lua error that leaves \<open>webSocketThink\<close> in the middle of the dispatch.
  A step at a moment when it cannot happen changes nothing. A handler whose socket is gone
  reads the generation through a pointer to a deleted object, which is undefined.
\<close>

definition lua_running :: "lua_module \<Rightarrow> bool" where
  "lua_running m = (case stage m of Idle \<Rightarrow> True | Dispatching _ (Some _) \<Rightarrow> True | _ \<Rightarrow> False)"

definition io_event :: "sock_event \<Rightarrow> bool" where
  "io_event e = (case e of EvComplete _ _ _ _ \<Rightarrow> True | EvReceive _ \<Rightarrow> True | EvPeerClosed _ \<Rightarrow> True
     | EvVerify _ \<Rightarrow> True | _ \<Rightarrow> False)"

fun mod_step :: "(char \<Rightarrow> bool) \<Rightarrow> (char \<Rightarrow> bool) \<Rightarrow> mod_event \<Rightarrow> lua_module \<Rightarrow> mod_res" where
  "mod_step tc tx (Call c) m = (if lua_running m then lua_step tc tx c m else Some (m, []))"
| "mod_step tc tx (Collect p) m =
     (if (lua_running m \<or> stage m = Closed) \<and> p \<in> userdata m
      then socketGCFunction p (m\<lparr>userdata := userdata m - {p}\<rparr>) else Some (m, []))"
| "mod_step tc tx Think m = Some (if stage m = Idle then m\<lparr>stage := Polling\<rparr> else m, [])"
| "mod_step tc tx (IO p e) m =
     (if (stage m = Polling \<or> stage m = Closing) \<and> io_event e \<and> heap m p \<noteq> None
      then call_socket e p m else Some (m, []))"
| "mod_step tc tx (RunOrphan i) m =
     (if (stage m = Polling \<or> stage m = Closing) \<and> i < length (orphans m) then None else Some (m, []))"
| "mod_step tc tx (Sweep ps es) m =
     (if stage m = Polling
      then map_option (\<lambda>m. (m\<lparr>stage := Dispatching es None\<rparr>, [])) (sweep ps m) else Some (m, []))"
| "mod_step tc tx Dispatch m = dispatch m"
| "mod_step tc tx Abort m = Some (case stage m of Dispatching _ _ \<Rightarrow> m\<lparr>stage := Idle\<rparr> | _ \<Rightarrow> m, [])"
| "mod_step tc tx (CloseBegin spurious ps) m =
     (if stage m = Idle then map_option (\<lambda>m. (m, [])) (module_close_begin spurious ps m) else Some (m, []))"
| "mod_step tc tx (CloseEnd ps) m =
     (if stage m = Closing then map_option (\<lambda>m. (m, [])) (module_close_end ps m) else Some (m, []))"

subsection \<open>What the environment guarantees\<close>

text \<open>What Lua, the allocator and the containers guarantee.\<close>

definition self_ok :: "lua_val \<Rightarrow> lua_module \<Rightarrow> bool" where
  \<comment> \<open>a script can only pass a userdata that was not collected\<close>
  "self_ok v m = (case v of LSocket p \<Rightarrow> p \<in> userdata m | _ \<Rightarrow> True)"

definition write_ok :: "lua_val \<Rightarrow> lua_module \<Rightarrow> bool" where
  \<comment> \<open>the one call that a script must not make: a write after \<open>close\<close> while connecting\<close>
  "write_ok v m =
     (case v of
        LSocket p \<Rightarrow> (case heap m p of None \<Rightarrow> True | Some x \<Rightarrow> client_ok (EvWrite False [] False) (base_of x))
      | _ \<Rightarrow> True)"

definition url_ok_arg :: "lua_val \<Rightarrow> bool" where
  \<comment> \<open>a URL whose parsing is defined\<close>
  "url_ok_arg v = (case v of LString s \<Rightarrow> parse_url (url_of_string (c_str s)) \<noteq> UB | _ \<Rightarrow> True)"

fun call_ok :: "lua_call \<Rightarrow> lua_module \<Rightarrow> bool" where
  "call_ok (CreateWebSocket p a b) m = (heap m p = None \<and> p \<notin> userdata m \<and> url_ok_arg a)"
| "call_ok (CallOpen r s a) m = (self_ok s m \<and> registry m r = None)"
| "call_ok (CallClose spurious s) m = self_ok s m"
| "call_ok (CallCloseNow s) m = self_ok s m"
| "call_ok (CallWrite spurious s a b) m = (self_ok s m \<and> write_ok s m)"
| "call_ok (CallClearQueue s) m = self_ok s m"
| "call_ok (CallSetCookie s a b) m = self_ok s m"
| "call_ok (CallSetHeader s a b) m = self_ok s m"
| "call_ok (CallSetCompression s a) m = self_ok s m"
| "call_ok (CallSetTakeover s a) m = self_ok s m"
| "call_ok (CallIsConnected s) m = self_ok s m"

definition drained :: "lua_module \<Rightarrow> bool" where
  \<comment> \<open>no collected socket that is disconnected has a handler left in the io_context\<close>
  "drained m = (\<forall>p\<in>gcedSockets m. case heap m p of None \<Rightarrow> True
     | Some x \<Rightarrow> state (base_of x) = STATE_DISCONNECTED \<longrightarrow> pending (base_of x) = [])"

fun ev_ok :: "mod_event \<Rightarrow> lua_module \<Rightarrow> bool" where
  "ev_ok (Call c) m = call_ok c m"
| "ev_ok (Collect p) m = (p \<notin> ran (registry m) \<or> stage m = Closed)"
| "ev_ok (Sweep ps es) m =
     (distinct ps \<and> set ps = gcedSockets m \<and> entries_of (socketTableReferences m) es \<and> drained m)"
| "ev_ok (CloseBegin spurious ps) m = (distinct ps \<and> set ps = dom (socketTableReferences m))"
| "ev_ok (CloseEnd ps) m = (distinct ps \<and> set ps = allSockets m)"
| "ev_ok _ m = True"

fun counted :: "mod_event \<Rightarrow> nat" where
  \<comment> \<open>the steps that can start or end a connection of a socket, and so use up a generation\<close>
  "counted Think = 0"
| "counted (Sweep ps es) = 0"
| "counted Dispatch = 0"
| "counted Abort = 0"
| "counted e = 1"

inductive mod_reach :: "(char \<Rightarrow> bool) \<Rightarrow> (char \<Rightarrow> bool) \<Rightarrow> nat \<Rightarrow> lua_module \<Rightarrow> bool" for tc tx where
  mod_init: "mod_reach tc tx 0 module_opened"
| mod_next: "mod_reach tc tx n m \<Longrightarrow> ev_ok e m \<Longrightarrow> mod_step tc tx e m = Some (m', out) \<Longrightarrow>
             mod_reach tc tx (n + counted e) m'"


end
