(* ===== verification/Lua_Stack.thy ===== *)
theory Lua_Stack
  imports Lua_Module
begin

text \<open>
  The side of the module that faces Lua: what its functions push, call and pop. The
  operations of \<open>ILuaBase\<close> (LuaBase.h) act on the stack of the running C function as their
  comments say; what a Lua function does when it is called, and what a metamethod yields for
  a field that a table does not have, is the business of the Lua state and an argument of
  the model: \<open>lua_env\<close>.
\<close>

subsection \<open>Values and the Lua state\<close>

datatype cfun =
    C_createWebSocket | C_addVerifyPath | C_webSocketThink
  | C_socketOpen | C_socketWrite | C_socketClose | C_socketCloseNow | C_socketSetCookie
  | C_socketSetHeader | C_socketSetMessageCompression | C_socketSetDisableContextTakeover
  | C_socketIsConnected | C_socketClearQueue | C_socketToString | C_socketGCFunction
  | C_printOutdatatedVersion | C_fetchFailed | C_fetchSuccessful | C_checkVersion | C_doVersionCheck

datatype lua_value =
    VNil
  | VBool bool
  | VNumber int \<comment> \<open>the numbers the module handles are whole\<close>
  | VString string
  | VTable nat
  | VFunction nat
  | VCFunction cfun
  | VUserdata "8 word" ptr \<comment> \<open>\<open>struct UserData\<close>: the type is an \<open>unsigned char\<close>\<close>

record 'w lua_world =
  table_fields :: "nat \<Rightarrow> string \<rightharpoonup> lua_value"
  metatables :: "nat \<rightharpoonup> nat"
  next_table :: nat
  refs :: "int \<rightharpoonup> lua_value"
  type_names :: "string \<rightharpoonup> int"
  types :: "int \<rightharpoonup> nat"
  rest :: 'w \<comment> \<open>everything else\<close>

record 'w lua =
  stack :: "lua_value list" \<comment> \<open>the top is the head\<close>
  world :: "'w lua_world"

datatype ('a, 'w) outcome = Done 'a "'w lua" | Raised lua_value "'w lua_world" | Undefined

record 'w lua_env =
  index :: "lua_value \<Rightarrow> string \<Rightarrow> 'w lua_world \<Rightarrow> (lua_value + lua_value) \<times> 'w lua_world"
  newindex :: "lua_value \<Rightarrow> string \<Rightarrow> lua_value \<Rightarrow> 'w lua_world \<Rightarrow> (lua_value + unit) \<times> 'w lua_world"
  invoke :: "lua_value \<Rightarrow> lua_value list \<Rightarrow> 'w lua_world \<Rightarrow> (lua_value + lua_value list) \<times> 'w lua_world"
  new_ref :: "'w lua_world \<Rightarrow> int"
  new_type :: "'w lua_world \<Rightarrow> int"

subsection \<open>Sequencing\<close>

fun outcome_bind :: "('a, 'w) outcome \<Rightarrow> ('a \<Rightarrow> 'w lua \<Rightarrow> ('b, 'w) outcome) \<Rightarrow> ('b, 'w) outcome" where
  "outcome_bind (Done x L) f = f x L"
| "outcome_bind (Raised e w) f = Raised e w"
| "outcome_bind Undefined f = Undefined"

definition lua_bind ::
  "('w lua \<Rightarrow> ('a, 'w) outcome) \<Rightarrow> ('a \<Rightarrow> 'w lua \<Rightarrow> ('b, 'w) outcome) \<Rightarrow> 'w lua \<Rightarrow> ('b, 'w) outcome" where
  "lua_bind f g L = outcome_bind (f L) g"

definition lua_return :: "'a \<Rightarrow> 'w lua \<Rightarrow> ('a, 'w) outcome" where
  "lua_return x L = Done x L"

fun lua_seq :: "('w lua \<Rightarrow> (unit, 'w) outcome) list \<Rightarrow> 'w lua \<Rightarrow> (unit, 'w) outcome" where
  "lua_seq [] = lua_return ()"
| "lua_seq (f # fs) = lua_bind f (\<lambda>_. lua_seq fs)"

subsection \<open>Operations of the interface\<close>

definition at :: "int \<Rightarrow> 'w lua \<Rightarrow> lua_value option" where
  \<comment> \<open>a positive index counts from the bottom, a negative one from the top\<close>
  "at i L =
     (let n = length (stack L) in
      if 1 \<le> i \<and> i \<le> int n then Some (stack L ! (n - nat i))
      else if i \<le> - 1 \<and> - int n \<le> i then Some (stack L ! (nat (- i) - 1))
      else None)"

definition with_value :: "int \<Rightarrow> (lua_value \<Rightarrow> 'w lua \<Rightarrow> ('a, 'w) outcome) \<Rightarrow> 'w lua \<Rightarrow> ('a, 'w) outcome" where
  "with_value i f L = (case at i L of None \<Rightarrow> Undefined | Some v \<Rightarrow> f v L)"

definition push_value :: "lua_value \<Rightarrow> 'w lua \<Rightarrow> (unit, 'w) outcome" where
  "push_value v L = Done () (L\<lparr>stack := v # stack L\<rparr>)"

definition Top :: "'w lua \<Rightarrow> (int, 'w) outcome" where
  "Top L = Done (int (length (stack L))) L"

definition Push :: "int \<Rightarrow> 'w lua \<Rightarrow> (unit, 'w) outcome" where
  "Push i = with_value i push_value"

definition Pop :: "nat \<Rightarrow> 'w lua \<Rightarrow> (unit, 'w) outcome" where
  "Pop n L = (if n \<le> length (stack L) then Done () (L\<lparr>stack := drop n (stack L)\<rparr>) else Undefined)"

definition glob :: nat where
  "glob = 0"

definition PushSpecial_GLOB :: "'w lua \<Rightarrow> (unit, 'w) outcome" where
  "PushSpecial_GLOB = push_value (VTable glob)"

definition PushString :: "string \<Rightarrow> 'w lua \<Rightarrow> (unit, 'w) outcome" where
  \<comment> \<open>without a length, or with length 0, the text ends at the first NUL\<close>
  "PushString s = push_value (VString (c_str s))"

definition PushString_len :: "string \<Rightarrow> 'w lua \<Rightarrow> (unit, 'w) outcome" where
  "PushString_len s = (if length s = 0 then PushString s else push_value (VString s))"

definition PushNumber :: "int \<Rightarrow> 'w lua \<Rightarrow> (unit, 'w) outcome" where
  "PushNumber n = push_value (VNumber n)"

definition PushCFunction :: "cfun \<Rightarrow> 'w lua \<Rightarrow> (unit, 'w) outcome" where
  "PushCFunction f = push_value (VCFunction f)"

definition get_field :: "'w lua_env \<Rightarrow> lua_value \<Rightarrow> string \<Rightarrow> 'w lua_world \<Rightarrow> (lua_value + lua_value) \<times> 'w lua_world" where
  "get_field E v k w =
     (case v of
        VTable t \<Rightarrow>
          (case table_fields w t k of
             Some x \<Rightarrow> (Inr x, w)
           | None \<Rightarrow> if metatables w t = None then (Inr VNil, w) else index E v k w)
      | _ \<Rightarrow> index E v k w)"

definition GetField :: "'w lua_env \<Rightarrow> int \<Rightarrow> string \<Rightarrow> 'w lua \<Rightarrow> (unit, 'w) outcome" where
  "GetField E i k = with_value i (\<lambda>v L.
     (case get_field E v k (world L) of
        (Inl e, w) \<Rightarrow> Raised e w
      | (Inr x, w) \<Rightarrow> push_value x (L\<lparr>world := w\<rparr>)))"

definition store_field :: "'w lua_env \<Rightarrow> lua_value \<Rightarrow> string \<Rightarrow> lua_value \<Rightarrow> 'w lua_world \<Rightarrow> (lua_value + unit) \<times> 'w lua_world" where
  "store_field E v k x w =
     (case v of
        VTable t \<Rightarrow>
          (if table_fields w t k \<noteq> None \<or> metatables w t = None
           then (Inr (), w\<lparr>table_fields := (table_fields w)(t := (table_fields w t)(k \<mapsto> x))\<rparr>)
           else newindex E v k x w)
      | _ \<Rightarrow> newindex E v k x w)"

definition SetField :: "'w lua_env \<Rightarrow> int \<Rightarrow> string \<Rightarrow> 'w lua \<Rightarrow> (unit, 'w) outcome" where
  "SetField E i k = with_value i (\<lambda>v. with_value (- 1) (\<lambda>x L.
     (case store_field E v k x (world L) of
        (Inl e, w) \<Rightarrow> Raised e w
      | (Inr _, w) \<Rightarrow> Pop 1 (L\<lparr>world := w\<rparr>))))"

definition new_table_in :: "'w lua_world \<Rightarrow> nat \<times> 'w lua_world" where
  "new_table_in w =
     (next_table w, w\<lparr>table_fields := (table_fields w)(next_table w := Map.empty),
                      metatables := (metatables w)(next_table w := None), next_table := next_table w + 1\<rparr>)"

definition CreateTable :: "'w lua \<Rightarrow> (unit, 'w) outcome" where
  "CreateTable L = (let (t, w) = new_table_in (world L) in push_value (VTable t) (L\<lparr>world := w\<rparr>))"

definition SetMetaTable :: "int \<Rightarrow> 'w lua \<Rightarrow> (unit, 'w) outcome" where
  \<comment> \<open>the module sets metatables of tables only\<close>
  "SetMetaTable i = with_value i (\<lambda>v. with_value (- 1) (\<lambda>x L.
     (case (v, x) of
        (VTable t, VTable mt) \<Rightarrow>
          Pop 1 (L\<lparr>world := (world L)\<lparr>metatables := (metatables (world L))(t \<mapsto> mt)\<rparr>\<rparr>)
      | (VTable t, VNil) \<Rightarrow>
          Pop 1 (L\<lparr>world := (world L)\<lparr>metatables := (metatables (world L))(t := None)\<rparr>\<rparr>)
      | _ \<Rightarrow> Undefined)))"

definition CreateMetaTable :: "'w lua_env \<Rightarrow> string \<Rightarrow> 'w lua \<Rightarrow> (int, 'w) outcome" where
  "CreateMetaTable E name L =
     (let w = world L in
      case type_names w name of
        Some ty \<Rightarrow>
          outcome_bind (push_value (case types w ty of None \<Rightarrow> VNil | Some mt \<Rightarrow> VTable mt) L) (\<lambda>_. lua_return ty)
      | None \<Rightarrow>
          (let ty = new_type E w; (mt, w) = new_table_in w;
               w = w\<lparr>type_names := (type_names w)(name \<mapsto> ty), types := (types w)(ty \<mapsto> mt)\<rparr>
           in outcome_bind (push_value (VTable mt) (L\<lparr>world := w\<rparr>)) (\<lambda>_. lua_return ty)))"

definition PushMetaTable :: "int \<Rightarrow> 'w lua \<Rightarrow> (unit, 'w) outcome" where
  \<comment> \<open>nothing is pushed for a type that does not exist\<close>
  "PushMetaTable ty L = (case types (world L) ty of None \<Rightarrow> Done () L | Some mt \<Rightarrow> push_value (VTable mt) L)"

definition PushUserType :: "ptr \<Rightarrow> int \<Rightarrow> 'w lua \<Rightarrow> (unit, 'w) outcome" where
  "PushUserType p ty = push_value (VUserdata (word_of_int ty) p)"

definition GetUserType :: "int \<Rightarrow> int \<Rightarrow> 'w lua \<Rightarrow> (ptr option, 'w) outcome" where
  \<comment> \<open>\<open>None\<close> is \<open>nullptr\<close>, which is the address 0\<close>
  "GetUserType i ty = with_value i (\<lambda>v.
     (case v of
        VUserdata t p \<Rightarrow> lua_return (if p = 0 \<or> uint t \<noteq> ty then None else Some p)
      | _ \<Rightarrow> lua_return None))"

definition ThrowError :: "string \<Rightarrow> 'w lua \<Rightarrow> ('a, 'w) outcome" where
  "ThrowError msg L = Raised (VString msg) (world L)"

definition ReferenceCreate :: "'w lua_env \<Rightarrow> 'w lua \<Rightarrow> (int, 'w) outcome" where
  "ReferenceCreate E = with_value (- 1) (\<lambda>v L.
     let w = world L; r = new_ref E w in
     outcome_bind (Pop 1 (L\<lparr>world := w\<lparr>refs := (refs w)(r \<mapsto> v)\<rparr>\<rparr>)) (\<lambda>_. lua_return r))"

definition ReferenceFree :: "int \<Rightarrow> 'w lua \<Rightarrow> (unit, 'w) outcome" where
  "ReferenceFree r L = Done () (L\<lparr>world := (world L)\<lparr>refs := (refs (world L))(r := None)\<rparr>\<rparr>)"

definition ReferencePush :: "int \<Rightarrow> 'w lua \<Rightarrow> (unit, 'w) outcome" where
  "ReferencePush r L = push_value (case refs (world L) r of None \<Rightarrow> VNil | Some v \<Rightarrow> v) L"

definition is_function :: "lua_value \<Rightarrow> bool" where
  "is_function v = (case v of VFunction _ \<Rightarrow> True | VCFunction _ \<Rightarrow> True | _ \<Rightarrow> False)"

definition IsType_Function :: "int \<Rightarrow> 'w lua \<Rightarrow> (bool, 'w) outcome" where
  "IsType_Function i = with_value i (\<lambda>v. lua_return (is_function v))"

definition IsType_Nil :: "int \<Rightarrow> 'w lua \<Rightarrow> (bool, 'w) outcome" where
  "IsType_Nil i = with_value i (\<lambda>v. lua_return (v = VNil))"

definition string_of :: "lua_value \<Rightarrow> string option" where
  \<comment> \<open>the text of a value, a number being converted; \<open>NULL\<close> otherwise\<close>
  "string_of v = (case v of VString s \<Rightarrow> Some s | VNumber n \<Rightarrow> Some (int_to_string n) | _ \<Rightarrow> None)"

definition GetString :: "int \<Rightarrow> 'w lua \<Rightarrow> (string option, 'w) outcome" where
  "GetString i = with_value i (\<lambda>v. lua_return (string_of v))"

definition GetNumber :: "int \<Rightarrow> 'w lua \<Rightarrow> (int, 'w) outcome" where
  "GetNumber i = with_value i (\<lambda>v. lua_return (case v of VNumber n \<Rightarrow> n | _ \<Rightarrow> 0))"

definition adjust :: "nat \<Rightarrow> lua_value list \<Rightarrow> lua_value list" where
  \<comment> \<open>the results of a call, cut or filled with nil\<close>
  "adjust n vs = take n vs @ replicate (n - length vs) VNil"

definition Call :: "'w lua_env \<Rightarrow> nat \<Rightarrow> nat \<Rightarrow> 'w lua \<Rightarrow> (unit, 'w) outcome" where
  "Call E args results L =
     (if length (stack L) < args + 1 then Undefined
      else
        let below = drop (args + 1) (stack L) in
        case invoke E (stack L ! args) (rev (take args (stack L))) (world L) of
          (Inl e, w) \<Rightarrow> Raised e w
        | (Inr vs, w) \<Rightarrow> Done () (L\<lparr>stack := rev (adjust results vs) @ below, world := w\<rparr>))"

definition PCall :: "'w lua_env \<Rightarrow> nat \<Rightarrow> nat \<Rightarrow> 'w lua \<Rightarrow> (bool, 'w) outcome" where
  \<comment> \<open>true for an error, whose value is pushed in place of the results\<close>
  "PCall E args results L =
     (if length (stack L) < args + 1 then Undefined
      else
        let below = drop (args + 1) (stack L) in
        case invoke E (stack L ! args) (rev (take args (stack L))) (world L) of
          (Inl e, w) \<Rightarrow> Done True (L\<lparr>stack := e # below, world := w\<rparr>)
        | (Inr vs, w) \<Rightarrow> Done False (L\<lparr>stack := rev (adjust results vs) @ below, world := w\<rparr>))"

definition call_c :: "('w lua \<Rightarrow> (unit, 'w) outcome) \<Rightarrow> 'w lua \<Rightarrow> (unit, 'w) outcome" where
  \<comment> \<open>\<open>PushCFunction(f); Call(0, 0)\<close> for a function of the module: it runs on a stack of its own\<close>
  "call_c f L = outcome_bind (f (L\<lparr>stack := []\<rparr>)) (\<lambda>_ L'. Done () (L'\<lparr>stack := stack L\<rparr>))"

subsection \<open>Printing and calling back (GLua.cpp)\<close>

definition luaPrint :: "'w lua_env \<Rightarrow> string \<Rightarrow> 'w lua \<Rightarrow> (unit, 'w) outcome" where
  "luaPrint E msg = lua_seq
     [PushSpecial_GLOB, GetField E (- 1) ''print'', PushString msg, Call E 1 0]"

definition throwErrorNoHalt :: "'w lua_env \<Rightarrow> string \<Rightarrow> 'w lua \<Rightarrow> (unit, 'w) outcome" where
  "throwErrorNoHalt E msg = lua_seq
     [PushSpecial_GLOB, GetField E (- 1) ''ErrorNoHalt'',
      lua_bind (IsType_Function (- 1)) (\<lambda>fn.
        if \<not> fn then Pop 2
        else lua_seq [PushString msg, PushString [CHR 0x0A], Call E 2 0, Pop 1])]"

definition pcall :: "'w lua_env \<Rightarrow> nat \<Rightarrow> 'w lua \<Rightarrow> (unit, 'w) outcome" where
  \<comment> \<open>\<open>NULL\<close> is passed for a \<open>std::string\<close>, which is undefined\<close>
  "pcall E numArgs =
     lua_bind (PCall E numArgs 0) (\<lambda>failed.
       if failed then
         lua_bind (GetString (- 1)) (\<lambda>err. case err of
           None \<Rightarrow> (\<lambda>_. Undefined)
         | Some err \<Rightarrow> lua_seq [throwErrorNoHalt E (c_str err), Pop 1])
       else lua_return ())"

fun handler_name :: "GWSMessageInType \<Rightarrow> string" where
  "handler_name IN_ERROR = ''onError''"
| "handler_name IN_CONNECTED = ''onConnected''"
| "handler_name IN_MESSAGE = ''onMessage''"
| "handler_name IN_DISCONNECTED = ''onDisconnected''"

definition deliver :: "'w lua_env \<Rightarrow> int \<Rightarrow> GWSocketMessageIn \<Rightarrow> 'w lua \<Rightarrow> (unit, 'w) outcome" where
  \<comment> \<open>the body of the loop over the messages in \<open>webSocketThink\<close>\<close>
  "deliver E tableIndex msg = lua_seq
     [GetField E (- 1) (handler_name (in_type msg)), Push tableIndex, PushString_len (in_message msg),
      lua_bind (IsType_Function (- 3)) (\<lambda>fn. if fn then pcall E 2 else Pop 3)]"

definition deliver_all :: "'w lua_env \<Rightarrow> int \<Rightarrow> GWSocketMessageIn list \<Rightarrow> 'w lua \<Rightarrow> (unit, 'w) outcome" where
  "deliver_all E tableReference messages =
     lua_bind (ReferencePush tableReference) (\<lambda>_.
     lua_bind Top (\<lambda>tableIndex.
     lua_seq (map (deliver E tableIndex) messages @ [Pop 1])))"

subsection \<open>Objects\<close>

definition getCppObject_on :: "'w lua_env \<Rightarrow> int \<Rightarrow> int \<Rightarrow> 'w lua \<Rightarrow> (ptr, 'w) outcome" where
  "getCppObject_on E userDataMetatable stackPos =
     lua_bind (GetField E stackPos ''__CppUserData'') (\<lambda>_.
     lua_bind (GetUserType (- 1) userDataMetatable) (\<lambda>returnValue. case returnValue of
       None \<Rightarrow> ThrowError ''[GWSockets] Expected GWSocket table''
     | Some p \<Rightarrow> lua_return p))"

definition push_object :: "'w lua_env \<Rightarrow> int \<Rightarrow> int \<Rightarrow> ptr \<Rightarrow> 'w lua \<Rightarrow> (unit, 'w) outcome" where
  \<comment> \<open>the table that \<open>createWebSocket\<close> returns\<close>
  "push_object E userDataMetatable luaSocketMetaTable socket = lua_seq
     [CreateTable, PushUserType socket userDataMetatable, SetField E (- 2) ''__CppUserData'',
      PushMetaTable luaSocketMetaTable, SetMetaTable (- 2)]"

definition socketToString :: "'w lua_env \<Rightarrow> int \<Rightarrow> (ptr \<Rightarrow> string) \<Rightarrow> 'w lua \<Rightarrow> (nat, 'w) outcome" where
  "socketToString E userDataMetatable show =
     lua_bind (getCppObject_on E userDataMetatable 1) (\<lambda>socket.
     lua_bind (PushString (''GWSocket '' @ show socket)) (\<lambda>_. lua_return 1))"

subsection \<open>Update messages (UpdateChecker.h)\<close>

definition runInTimer :: "'w lua_env \<Rightarrow> int \<Rightarrow> cfun \<Rightarrow> 'w lua \<Rightarrow> (unit, 'w) outcome" where
  "runInTimer E delay func = lua_seq
     [PushSpecial_GLOB, GetField E (- 1) ''timer'',
      lua_bind (IsType_Nil (- 1)) (\<lambda>nil.
        if nil then Pop 2
        else lua_seq
          [GetField E (- 1) ''Simple'',
           lua_bind (IsType_Nil (- 1)) (\<lambda>nil.
             if nil then Pop 3
             else lua_seq [PushNumber delay, PushCFunction func, Call E 2 0, Pop 2])])]"

definition printMessage :: "'w lua_env \<Rightarrow> string \<Rightarrow> int \<Rightarrow> int \<Rightarrow> int \<Rightarrow> 'w lua \<Rightarrow> (unit, 'w) outcome" where
  "printMessage E msg r g b = lua_seq
     [PushSpecial_GLOB, GetField E (- 1) ''Color'', PushNumber r, PushNumber g, PushNumber b, Call E 3 1,
      lua_bind (ReferenceCreate E) (\<lambda>ref. lua_seq
        [GetField E (- 1) ''MsgC'', ReferencePush ref, PushString msg, Call E 2 0, Pop 1,
         ReferenceFree ref])]"

definition MODULE_NAME :: string where "MODULE_NAME = ''GWSockets''"
definition MODULE_RELEASE_URL :: string where
  "MODULE_RELEASE_URL = ''https://github.com/FredyH/GWSockets/releases''"
definition MODULE_VERSION_URL :: string where
  "MODULE_VERSION_URL = ''https://raw.githubusercontent.com/FredyH/GWSockets/master/version.txt''"

definition newline :: string where
  "newline = [CHR 0x0A]"

definition printOutdatatedVersion :: "'w lua_env \<Rightarrow> 'w lua \<Rightarrow> (unit, 'w) outcome" where
  "printOutdatatedVersion E = lua_seq
     [printMessage E (''Your server is using an outdated version of '' @ MODULE_NAME @ newline) 255 0 0,
      printMessage E (''Download the latest version here:'' @ newline) 255 0 0,
      printMessage E (MODULE_RELEASE_URL @ newline) 86 156 214,
      runInTimer E 300 C_printOutdatatedVersion]"

definition fetchFailed :: "'w lua_env \<Rightarrow> 'w lua \<Rightarrow> (unit, 'w) outcome" where
  "fetchFailed E =
     printMessage E (''Failed to retrieve latest version of '' @ MODULE_NAME @ newline) 255 0 0"

definition fetchSuccessful_on :: "'w lua_env \<Rightarrow> nat \<Rightarrow> 'w lua \<Rightarrow> (unit, 'w) outcome" where
  \<comment> \<open>\<open>w\<close> is the width of \<open>long\<close>\<close>
  "fetchSuccessful_on E w =
     lua_bind (GetString 1) (\<lambda>version. case version of
       None \<Rightarrow> (\<lambda>_. Undefined)
     | Some version \<Rightarrow>
         lua_bind (GetNumber 4) (\<lambda>httpCode.
           case fetchSuccessful w (c_str version) httpCode of
             CallFetchFailed \<Rightarrow> call_c (fetchFailed E)
           | CallPrintOutdated \<Rightarrow> call_c (printOutdatatedVersion E)
           | PrintLatest \<Rightarrow>
               printMessage E (''Your server is using the latest version of '' @ MODULE_NAME @ newline) 0 255 0))"

definition checkVersion :: "'w lua_env \<Rightarrow> 'w lua \<Rightarrow> (unit, 'w) outcome" where
  "checkVersion E = lua_seq
     [PushSpecial_GLOB, GetField E (- 1) ''http'', GetField E (- 1) ''Fetch'', PushString MODULE_VERSION_URL,
      PushCFunction C_fetchSuccessful, PushCFunction C_fetchFailed, Call E 3 0, Pop 2]"

definition doVersionCheck :: "'w lua_env \<Rightarrow> 'w lua \<Rightarrow> (unit, 'w) outcome" where
  "doVersionCheck E = runInTimer E 5 C_checkVersion"

subsection \<open>Loading the module (GLua.cpp)\<close>

definition set_functions :: "'w lua_env \<Rightarrow> (cfun \<times> string) list \<Rightarrow> 'w lua \<Rightarrow> (unit, 'w) outcome" where
  \<comment> \<open>\<open>PushCFunction(f); SetField(-2, name)\<close> for each\<close>
  "set_functions E fs = lua_seq (concat (map (\<lambda>(f, name). [PushCFunction f, SetField E (- 2) name]) fs))"

definition library_functions :: "(cfun \<times> string) list" where
  "library_functions = [(C_createWebSocket, ''createWebSocket''), (C_addVerifyPath, ''addVerifyPath'')]"

definition socket_functions :: "(cfun \<times> string) list" where
  "socket_functions =
     [(C_socketOpen, ''open''), (C_socketWrite, ''write''), (C_socketClose, ''close''),
      (C_socketCloseNow, ''closeNow''), (C_socketSetCookie, ''setCookie''), (C_socketSetHeader, ''setHeader''),
      (C_socketSetMessageCompression, ''setMessageCompression''),
      (C_socketSetDisableContextTakeover, ''setDisableContextTakeover''),
      (C_socketIsConnected, ''isConnected''), (C_socketClearQueue, ''clearQueue'')]"

definition add_library :: "'w lua_env \<Rightarrow> 'w lua \<Rightarrow> (unit, 'w) outcome" where
  "add_library E = lua_seq
     [PushSpecial_GLOB, CreateTable, set_functions E library_functions, SetField E (- 2) ''GWSockets'', Pop 1]"

definition add_timer :: "'w lua_env \<Rightarrow> 'w lua \<Rightarrow> (unit, 'w) outcome" where
  "add_timer E = lua_seq
     [PushSpecial_GLOB, GetField E (- 1) ''timer'', GetField E (- 1) ''Create'', PushString ''__GWSocketTimer'',
      PushNumber 0, PushNumber 0, PushCFunction C_webSocketThink, Call E 4 0, Pop 2]"

definition add_metatables :: "'w lua_env \<Rightarrow> 'w lua \<Rightarrow> (int \<times> int, 'w) outcome" where
  \<comment> \<open>\<open>luaSocketMetaTable\<close> and \<open>userDataMetatable\<close>\<close>
  "add_metatables E =
     lua_bind (lua_seq [CreateTable, set_functions E socket_functions]) (\<lambda>_.
     lua_bind (CreateMetaTable E ''WebSocket'') (\<lambda>luaSocketMetaTable.
     lua_bind (lua_seq [Push (- 2), SetField E (- 2) ''__index'',
                        set_functions E [(C_socketToString, ''__tostring'')], Pop 1, Pop 1]) (\<lambda>_.
     lua_bind (CreateMetaTable E ''UserDataMetatable'') (\<lambda>userDataMetatable.
     lua_bind (lua_seq [set_functions E [(C_socketGCFunction, ''__gc'')], Pop 1]) (\<lambda>_.
     lua_return (luaSocketMetaTable, userDataMetatable))))))"

definition gmod13_open :: "'w lua_env \<Rightarrow> 'w lua \<Rightarrow> ((int \<times> int) \<times> nat, 'w) outcome" where
  \<comment> \<open>the two types, and the number of results that the function claims to leave\<close>
  "gmod13_open E =
     lua_bind (lua_seq [add_library E, add_timer E]) (\<lambda>_.
     lua_bind (add_metatables E) (\<lambda>ids.
     lua_bind (call_c (doVersionCheck E)) (\<lambda>_. lua_return (ids, 1))))"

end
