(* ===== verification/Lua_Stack_Props.thy ===== *)
theory Lua_Stack_Props
  imports Lua_Stack
begin

text \<open>
  What holds of the module's side of the Lua stack: no function takes values from below its
  own or leaves any behind, the events of a socket reach its callbacks in order, an object
  made by \<open>createWebSocket\<close> is recognised by the functions it is passed to, and loading the
  module registers all of them.
\<close>

subsection \<open>Stack heights\<close>

fun fits :: "lua_value list \<Rightarrow> ('a \<Rightarrow> nat) \<Rightarrow> ('a, 'w) outcome \<Rightarrow> bool" where
  \<comment> \<open>defined, and \<open>H x\<close> values above the base \<open>s\<close> when the result is \<open>x\<close>\<close>
  "fits s H (Done x L) = (\<exists>vs. stack L = vs @ s \<and> length vs = H x)"
| "fits s H (Raised e w) = True"
| "fits s H Undefined = False"

definition stack_effect :: "nat \<Rightarrow> ('w lua \<Rightarrow> ('a, 'w) outcome) \<Rightarrow> bool" where
  \<comment> \<open>never undefined; when it returns there are \<open>n\<close> values on top of the stack it was called with\<close>
  "stack_effect n f \<longleftrightarrow> (\<forall>L. fits (stack L) (\<lambda>_. n) (f L))"

definition height :: "lua_value list \<Rightarrow> nat \<Rightarrow> ('a \<Rightarrow> nat) \<Rightarrow> ('w lua \<Rightarrow> ('a, 'w) outcome) \<Rightarrow> bool" where
  \<comment> \<open>the same from any stack with \<open>h\<close> values above the base \<open>s\<close>\<close>
  "height s h H f \<longleftrightarrow> (\<forall>L vs. stack L = vs @ s \<longrightarrow> length vs = h \<longrightarrow> fits s H (f L))"

named_theorems heights \<open>how the operations move the height of the stack\<close>

lemma heightI: "(\<And>L vs. stack L = vs @ s \<Longrightarrow> length vs = h \<Longrightarrow> fits s H (f L)) \<Longrightarrow> height s h H f"
  by (simp add: height_def)

lemma heightD: "height s h H f \<Longrightarrow> stack L = vs @ s \<Longrightarrow> length vs = h \<Longrightarrow> fits s H (f L)"
  by (simp add: height_def)

lemma stack_effectI: "(\<And>s. height s 0 (\<lambda>_. n) f) \<Longrightarrow> stack_effect n f"
  by (simp add: stack_effect_def height_def)

lemma stack_effect_height:
  fixes f :: "'w lua \<Rightarrow> ('a, 'w) outcome"
  assumes "stack_effect n f" "H = (\<lambda>_. h + n)"
  shows "height s h H f"
proof (rule heightI)
  fix L :: "'w lua" and vs :: "lua_value list"
  assume L: "stack L = vs @ s" "length vs = h"
  have "fits (stack L) (\<lambda>_. n) (f L)" using assms(1) by (simp add: stack_effect_def)
  with L assms(2) show "fits s H (f L)" by (cases "f L") auto
qed

lemma height_bind [heights]:
  fixes f :: "'w lua \<Rightarrow> ('a, 'w) outcome"
  assumes "height s h H f" "\<And>x. height s (H x) K (g x)"
  shows "height s h K (lua_bind f g)"
proof (rule heightI)
  fix L :: "'w lua" and vs :: "lua_value list"
  assume L: "stack L = vs @ s" "length vs = h"
  with assms(1) have f: "fits s H (f L)" by (rule heightD)
  show "fits s K (lua_bind f g L)"
  proof (cases "f L")
    case (Done x L')
    with f obtain vs' where "stack L' = vs' @ s" "length vs' = H x" by auto
    with assms(2) [of x] Done show ?thesis by (simp add: height_def lua_bind_def)
  qed (use f in \<open>simp_all add: lua_bind_def\<close>)
qed

lemma height_return [heights]: "H x = h \<Longrightarrow> height s h H (lua_return x)"
  by (simp add: height_def lua_return_def)

lemma height_if [heights]:
  "(b \<Longrightarrow> height s h H f) \<Longrightarrow> (\<not> b \<Longrightarrow> height s h H g) \<Longrightarrow> height s h H (if b then f else g)"
  by simp

lemma at_below:
  assumes "stack L = vs @ s" "1 \<le> k" "k \<le> length vs"
  shows "at (- int k) L = Some (vs ! (k - 1))"
proof -
  have "k - 1 < length vs" using assms by simp
  then show ?thesis using assms by (simp add: at_def nth_append)
qed

lemma height_with_value:
  fixes f :: "lua_value \<Rightarrow> 'w lua \<Rightarrow> ('a, 'w) outcome"
  assumes "i \<le> - 1" "nat (- i) \<le> h" "\<And>v. height s h H (f v)"
  shows "height s h H (with_value i f)"
proof (rule heightI)
  fix L :: "'w lua" and vs :: "lua_value list"
  assume L: "stack L = vs @ s" "length vs = h"
  have "at (- int (nat (- i))) L = Some (vs ! (nat (- i) - 1))"
    using L assms(1,2) by (intro at_below) auto
  with L assms(1) assms(3) [of "vs ! (nat (- i) - 1)"] show "fits s H (with_value i f L)"
    by (simp add: with_value_def heightD)
qed

lemma height_push [heights]: "H = (\<lambda>_. Suc h) \<Longrightarrow> height s h H (push_value v)"
  by (auto simp: height_def push_value_def)

lemma height_Pop [heights]:
  assumes "n \<le> h" "H = (\<lambda>_. h - n)"
  shows "height s h H (Pop n)"
  using assms by (auto simp: height_def Pop_def)

lemma height_GetField [heights]:
  assumes "i \<le> - 1" "nat (- i) \<le> h" "H = (\<lambda>_. Suc h)"
  shows "height s h H (GetField E i k)"
  unfolding GetField_def
  by (rule height_with_value) (use assms in \<open>auto simp: height_def push_value_def split: prod.splits sum.splits\<close>)

lemma height_SetField [heights]:
  assumes "i \<le> - 1" "nat (- i) \<le> h" "H = (\<lambda>_. h - 1)"
  shows "height s h H (SetField E i k)"
  unfolding SetField_def
  by (rule height_with_value, use assms in simp, use assms in simp, rule height_with_value)
     (use assms in \<open>auto simp: height_def Pop_def split: prod.splits sum.splits\<close>)

lemma height_Push [heights]:
  assumes "i \<le> - 1" "nat (- i) \<le> h" "H = (\<lambda>_. Suc h)"
  shows "height s h H (Push i)"
  unfolding Push_def by (rule height_with_value) (use assms in \<open>auto intro: height_push\<close>)

lemma height_IsType [heights]:
  assumes "i \<le> - 1" "nat (- i) \<le> h" "H = (\<lambda>_. h)"
  shows "height s h H (IsType_Function i)" "height s h H (IsType_Nil i)"
  unfolding IsType_Function_def IsType_Nil_def
  by (rule height_with_value, use assms in \<open>auto intro: height_return\<close>)+

lemma adjust_length [simp]: "length (adjust n vs) = n"
  by (simp add: adjust_def min_def)

lemma height_Call [heights]:
  fixes E :: "'w lua_env"
  assumes "args + 1 \<le> h" "H = (\<lambda>_. h - (args + 1) + results)"
  shows "height s h H (Call E args results)"
proof (rule heightI)
  fix L :: "'w lua" and vs :: "lua_value list"
  assume L: "stack L = vs @ s" "length vs = h"
  then have "drop (args + 1) (stack L) = drop (args + 1) vs @ s" "\<not> length (stack L) < args + 1"
    using assms(1) by simp_all
  with L assms(2) show "fits s H (Call E args results L)"
    by (auto simp: Call_def Let_def simp del: drop_append split: prod.splits sum.splits)
qed

lemma height_pushes [heights]:
  assumes "H = (\<lambda>_. Suc h)"
  shows "height s h H PushSpecial_GLOB" "height s h H (PushString t)" "height s h H (PushNumber n)"
    "height s h H (PushCFunction f)" "height s h H (ReferencePush r)" "height s h H CreateTable"
  using assms
  by (auto simp: PushSpecial_GLOB_def PushString_def PushNumber_def PushCFunction_def ReferencePush_def
      CreateTable_def height_def push_value_def split: prod.splits)

lemma height_ReferenceCreate [heights]:
  assumes "1 \<le> h" "H = (\<lambda>_. h - 1)"
  shows "height s h H (ReferenceCreate E)"
  unfolding ReferenceCreate_def
  by (rule height_with_value) (use assms in \<open>auto simp: height_def Pop_def lua_return_def Let_def\<close>)

lemma height_ReferenceFree [heights]: "H = (\<lambda>_. h) \<Longrightarrow> height s h H (ReferenceFree r)"
  by (auto simp: height_def ReferenceFree_def)

lemma height_CreateMetaTable [heights]: "H = (\<lambda>_. Suc h) \<Longrightarrow> height s h H (CreateMetaTable E name)"
  by (auto simp: height_def CreateMetaTable_def new_table_in_def push_value_def lua_return_def Let_def
      split: option.splits)

lemma height_call_c:
  assumes "stack_effect n f" "H = (\<lambda>_. h)"
  shows "height s h H (call_c f)"
proof (rule heightI)
  fix L :: "'a lua" and vs :: "lua_value list"
  assume "stack L = vs @ s" "length vs = h"
  moreover have "fits [] (\<lambda>_. n) (f (L\<lparr>stack := []\<rparr>))"
    using assms(1) unfolding stack_effect_def by (metis lua.select_convs(1) lua.surjective lua.update_convs(1))
  ultimately show "fits s H (call_c f L)"
    using assms(2) by (cases "f (L\<lparr>stack := []\<rparr>)") (auto simp: call_c_def)
qed

lemmas lua_functions =
  luaPrint_def throwErrorNoHalt_def runInTimer_def printMessage_def checkVersion_def
  add_library_def add_timer_def add_metatables_def set_functions_def library_functions_def socket_functions_def

lemma function_effects:
  "stack_effect 1 (luaPrint E msg)"
  "stack_effect 0 (throwErrorNoHalt E msg)"
  "stack_effect 0 (runInTimer E d f)"
  "stack_effect 0 (printMessage E msg r g b)"
  "stack_effect 0 (checkVersion E)"
  "stack_effect 0 (add_library E)"
  "stack_effect 0 (add_timer E)"
  "stack_effect 0 (add_metatables E)"
  unfolding lua_functions lua_seq.simps list.map concat.simps append.simps prod.case
  by (rule stack_effectI, (rule heights refl | (simp; fail))+)+

lemma caller_effects:
  "stack_effect 0 (printOutdatatedVersion E)"
  "stack_effect 0 (fetchFailed E)"
  "stack_effect 0 (doVersionCheck E)"
  unfolding printOutdatatedVersion_def fetchFailed_def doVersionCheck_def lua_seq.simps
  by (rule stack_effectI, (rule heights function_effects [THEN stack_effect_height] refl | (simp; fail))+)+

lemma open_effect: "stack_effect 0 (gmod13_open E)"
  unfolding gmod13_open_def lua_seq.simps
  by (rule stack_effectI)
     (rule heights function_effects [THEN stack_effect_height] caller_effects [THEN height_call_c] refl
       | (simp; fail))+

text \<open>
  C37. Whatever the Lua functions do that they call, throwErrorNoHalt, runInTimer,
  printMessage, fetchFailed, printOutdatatedVersion, checkVersion, doVersionCheck and
  GMOD_MODULE_OPEN read nothing below their own values and leave nothing on the stack, and
  luaPrint leaves exactly one value.
\<close>

theorem lua_stack_balanced:
  "stack_effect 0 (throwErrorNoHalt E msg) \<and> stack_effect 0 (runInTimer E d f)
   \<and> stack_effect 0 (printMessage E msg r g b) \<and> stack_effect 0 (fetchFailed E)
   \<and> stack_effect 0 (printOutdatatedVersion E) \<and> stack_effect 0 (checkVersion E)
   \<and> stack_effect 0 (doVersionCheck E) \<and> stack_effect 0 (gmod13_open E) \<and> stack_effect 1 (luaPrint E msg)"
  by (intro conjI function_effects caller_effects open_effect)

subsection \<open>Callbacks\<close>

text \<open>
  The events of a socket without the stack: what they do to the world of the Lua state. The
  outcome is \<open>None\<close> where the module uses the text of an error value that has none, and a
  left summand is the error that leaves the loop.
\<close>

definition report_error :: "'w lua_env \<Rightarrow> string \<Rightarrow> 'w lua_world \<Rightarrow> (lua_value + unit) \<times> 'w lua_world" where
  \<comment> \<open>\<open>ErrorNoHalt\<close> is called with the text up to its first NUL and a newline, if it is a function\<close>
  "report_error E err w =
     (case get_field E (VTable glob) ''ErrorNoHalt'' w of
        (Inl e, w) \<Rightarrow> (Inl e, w)
      | (Inr g, w) \<Rightarrow>
          if \<not> is_function g then (Inr (), w)
          else (case invoke E g [VString (c_str err), VString newline] w of
                  (Inl e, w) \<Rightarrow> (Inl e, w)
                | (Inr _, w) \<Rightarrow> (Inr (), w)))"

definition call_event ::
  "'w lua_env \<Rightarrow> lua_value \<Rightarrow> GWSocketMessageIn \<Rightarrow> 'w lua_world \<Rightarrow> ((lua_value + unit) \<times> 'w lua_world) option" where
  \<comment> \<open>the callback of the event is looked up in the table of the socket and called, if it is a
     function, with the table and all bytes of the message; an error of it is reported\<close>
  "call_event E self msg w =
     (case get_field E self (handler_name (in_type msg)) w of
        (Inl e, w) \<Rightarrow> Some (Inl e, w)
      | (Inr h, w) \<Rightarrow>
          if \<not> is_function h then Some (Inr (), w)
          else (case invoke E h [self, VString (in_message msg)] w of
                  (Inr _, w) \<Rightarrow> Some (Inr (), w)
                | (Inl err, w) \<Rightarrow> map_option (\<lambda>err. report_error E err w) (string_of err)))"

fun call_events ::
  "'w lua_env \<Rightarrow> lua_value \<Rightarrow> GWSocketMessageIn list \<Rightarrow> 'w lua_world \<Rightarrow>
   ((lua_value + unit) \<times> 'w lua_world) option" where
  "call_events E self [] w = Some (Inr (), w)"
| "call_events E self (msg # msgs) w =
     (case call_event E self msg w of
        None \<Rightarrow> None
      | Some (Inl e, w) \<Rightarrow> Some (Inl e, w)
      | Some (Inr _, w) \<Rightarrow> call_events E self msgs w)"

fun on_stack :: "lua_value list \<Rightarrow> ((lua_value + unit) \<times> 'w lua_world) option \<Rightarrow> (unit, 'w) outcome" where
  \<comment> \<open>the same as an outcome that leaves the stack \<open>s\<close>\<close>
  "on_stack s None = Undefined"
| "on_stack s (Some (Inl e, w)) = Raised e w"
| "on_stack s (Some (Inr u, w)) = Done () \<lparr>stack = s, world = w\<rparr>"

lemma c_str_idem [simp]: "c_str (c_str s) = c_str s"
  by (simp add: c_str_def takeWhile_idem)

lemma c_str_newline [simp]: "c_str [CHR 0x0A] = newline"
  by (simp add: c_str_def newline_def)

lemma report_error_c_str [simp]: "report_error E (c_str err) = report_error E err"
  by (rule ext) (unfold report_error_def c_str_idem, rule refl)

lemma at_top [simp]:
  "stack L = v # s \<Longrightarrow> at (- 1) L = Some v"
  "stack L = v # v' # s \<Longrightarrow> at (- 2) L = Some v'"
  "stack L = v # v' # v'' # s \<Longrightarrow> at (- 3) L = Some v''"
  by (simp_all add: at_def)

lemmas stack_steps =
  lua_bind_def push_value_def with_value_def IsType_Function_def Pop_def GetField_def

lemma outcome_bind_return [simp]:
  "outcome_bind m lua_return = m" "outcome_bind m (\<lambda>_. lua_return ()) = m" for m :: "(unit, 'w) outcome"
  by (cases m, simp_all add: lua_return_def)+

lemma throwErrorNoHalt_world:
  "throwErrorNoHalt E err \<lparr>stack = s, world = w\<rparr> = on_stack s (Some (report_error E err w))"
  by (cases "get_field E (VTable glob) ''ErrorNoHalt'' w")
     (auto simp: throwErrorNoHalt_def stack_steps lua_return_def PushSpecial_GLOB_def PushString_def Call_def adjust_def
        report_error_def split: sum.splits prod.splits)

lemma pcall_world:
  "pcall E 2 \<lparr>stack = y # x # h # s, world = w\<rparr> =
     on_stack s (case invoke E h [x, y] w of
         (Inr _, w) \<Rightarrow> Some (Inr (), w)
       | (Inl err, w) \<Rightarrow> map_option (\<lambda>err. report_error E err w) (string_of err))"
proof (cases "invoke E h [x, y] w")
  case (Pair r w')
  show ?thesis
  proof (cases r)
    case (Inr vs)
    with Pair show ?thesis by (simp add: pcall_def stack_steps lua_return_def PCall_def adjust_def)
  next
    case (Inl err)
    show ?thesis
    proof (cases "string_of err")
      case None
      with Pair Inl show ?thesis by (simp add: pcall_def stack_steps lua_return_def PCall_def GetString_def)
    next
      case (Some t)
      with Pair Inl show ?thesis
        by (cases "report_error E t w'"; cases "fst (report_error E t w')")
           (simp_all add: pcall_def stack_steps lua_return_def PCall_def GetString_def throwErrorNoHalt_world)
    qed
  qed
qed

lemma PushString_len_eq: "PushString_len s = push_value (VString s)"
  by (cases s) (simp_all add: PushString_len_def PushString_def c_str_def)

lemma bind_return: "outcome_bind (lua_return x L) f = f x L"
  by (simp add: lua_return_def)

lemma deliver_world:
  assumes "i = int (Suc (length s))"
  shows "deliver E i msg \<lparr>stack = self # s, world = w\<rparr> = on_stack (self # s) (call_event E self msg w)"
proof (cases "get_field E self (handler_name (in_type msg)) w")
  case (Pair r w')
  show ?thesis
  proof (cases r)
    case (Inl e)
    with Pair show ?thesis by (simp add: deliver_def stack_steps lua_return_def call_event_def)
  next
    case (Inr h)
    have "at i \<lparr>stack = h # self # s, world = w'\<rparr> = Some self"
      using assms by (simp add: at_def nat_add_distrib)
    with Pair Inr show ?thesis
      by (cases "is_function h")
         (simp_all add: deliver_def stack_steps bind_return Push_def PushString_len_eq call_event_def pcall_world)
  qed
qed

lemma lua_seq_append: "lua_seq (fs @ gs) L = lua_bind (lua_seq fs) (\<lambda>_. lua_seq gs) L"
proof (induction fs arbitrary: L)
  case (Cons f fs)
  then show ?case by (cases "f L") (simp_all add: lua_bind_def)
qed (simp add: lua_bind_def lua_return_def)

lemma deliver_loop:
  assumes "i = int (Suc (length s))"
  shows "lua_seq (map (deliver E i) msgs) \<lparr>stack = self # s, world = w\<rparr> =
    on_stack (self # s) (call_events E self msgs w)"
proof (induction msgs arbitrary: w)
  case Nil
  then show ?case by (simp add: lua_return_def)
next
  case (Cons msg msgs)
  have d: "deliver E i msg \<lparr>stack = self # s, world = w\<rparr> = on_stack (self # s) (call_event E self msg w)"
    by (rule deliver_world [OF assms])
  show ?case
  proof (cases "call_event E self msg w")
    case None
    with d show ?thesis by (simp add: lua_bind_def)
  next
    case (Some y)
    with d Cons.IH show ?thesis
      by (cases y; cases "fst y") (simp_all add: lua_bind_def)
  qed
qed

text \<open>
  C24. On the Lua stack the events of a socket do exactly what this describes without it,
  for any Lua functions, metamethods and side effects: event by event the callback is
  looked up in the table, skipped when it is no function, and called with the table and
  all bytes of the message; an error of a callback is reported through ErrorNoHalt with
  its text, when that is a function, and the next event follows. The stack is as before; a
  Lua error in a lookup or in ErrorNoHalt ends the loop; an error value of a callback that
  is neither a text nor a number is undefined behaviour.
\<close>

theorem callbacks_called:
  assumes "refs (world L) r = Some self"
  shows "deliver_all E r msgs L = on_stack (stack L) (call_events E self msgs (world L))"
proof -
  let ?r = "call_events E self msgs (world L)"
  have "lua_seq (map (deliver E (1 + int (length (stack L)))) msgs)
      (L\<lparr>stack := self # stack L\<rparr>) = on_stack (self # stack L) ?r"
    using deliver_loop [of "1 + int (length (stack L))" "stack L" E msgs self "world L"] by (cases L) simp
  with assms show ?thesis
    by (cases ?r; cases "fst (the ?r)"; cases "the ?r")
       (simp_all add: deliver_all_def lua_bind_def ReferencePush_def push_value_def Top_def lua_seq_append
          lua_return_def Pop_def)
qed

subsection \<open>Objects\<close>

lemma at_second [simp]: "stack L = [v] \<Longrightarrow> at 1 L = Some v"
  by (simp add: at_def)

lemma push_object_result:
  assumes "types (world L) mt = Some k"
  shows "\<exists>L'. push_object E ut mt p L = Done () L' \<and> stack L' = VTable (next_table (world L)) # stack L
    \<and> table_fields (world L') (next_table (world L)) = [''__CppUserData'' \<mapsto> VUserdata (word_of_int ut) p]
    \<and> metatables (world L') (next_table (world L)) = Some k"
  using assms
  by (simp add: push_object_def lua_bind_def CreateTable_def new_table_in_def push_value_def PushUserType_def
      SetField_def with_value_def store_field_def Pop_def PushMetaTable_def SetMetaTable_def lua_return_def)

lemma getCppObject_userdata:
  assumes "stack L = [VTable t]" "table_fields (world L) t ''__CppUserData'' = Some (VUserdata ty p)"
  shows "getCppObject_on E ut 1 L =
    (if p = 0 \<or> uint ty \<noteq> ut then Raised (VString ''[GWSockets] Expected GWSocket table'') (world L)
     else Done p (L\<lparr>stack := [VUserdata ty p, VTable t]\<rparr>))"
  using assms
  by (simp add: getCppObject_on_def lua_bind_def GetField_def with_value_def get_field_def push_value_def
      GetUserType_def lua_return_def ThrowError_def)

theorem created_object_recognised:
  assumes "types (world L) mt = Some k" "0 \<le> ut" "p \<noteq> 0"
    and "push_object E ut mt p L = Done () L'"
  shows "getCppObject_on E ut 1 (L'\<lparr>stack := [hd (stack L')]\<rparr>) =
    (if ut < 256 then Done p (L'\<lparr>stack := [VUserdata (word_of_int ut) p, hd (stack L')]\<rparr>)
     else Raised (VString ''[GWSockets] Expected GWSocket table'') (world L'))"
proof -
  have "uint (word_of_int ut :: 8 word) = ut \<longleftrightarrow> ut < 256"
    using assms(2) by (auto simp: uint_word_of_int)
  moreover from push_object_result [where E = E and ut = ut and p = p, OF assms(1)] assms(4)
  have "stack L' = VTable (next_table (world L)) # stack L"
    "table_fields (world L') (next_table (world L)) ''__CppUserData'' = Some (VUserdata (word_of_int ut) p)"
    by auto
  ultimately show ?thesis
    using assms(3) getCppObject_userdata [of "L'\<lparr>stack := [hd (stack L')]\<rparr>" "next_table (world L)"] by simp
qed

subsection \<open>Loading the module\<close>

definition tabs :: "'w lua_world \<Rightarrow> (nat \<Rightarrow> string \<rightharpoonup> lua_value) \<times> (nat \<rightharpoonup> nat) \<times> nat \<times> (string \<rightharpoonup> int) \<times> (int \<rightharpoonup> nat)" where
  "tabs w = (table_fields w, metatables w, next_table w, type_names w, types w)"

definition leaves_tables :: "'w lua_env \<Rightarrow> bool" where
  \<comment> \<open>Lua code that the module calls while it is loaded, \<open>timer.Create\<close> and \<open>timer.Simple\<close>, makes
     no table that the module sees and registers no type\<close>
  "leaves_tables E \<longleftrightarrow>
     (\<forall>f args w. tabs (snd (invoke E f args w)) = tabs w) \<and> (\<forall>v k w. tabs (snd (index E v k w)) = tabs w)"

fun same_tabs :: "'w lua_world \<Rightarrow> ('a, 'w) outcome \<Rightarrow> bool" where
  "same_tabs w (Done _ L) = (tabs (world L) = tabs w)"
| "same_tabs w _ = True"

definition calm :: "('w lua \<Rightarrow> ('a, 'w) outcome) \<Rightarrow> bool" where
  "calm f \<longleftrightarrow> (\<forall>L. same_tabs (world L) (f L))"

named_theorems calms \<open>operations that leave the tables alone\<close>

lemma calm_bind [calms]:
  fixes f :: "'w lua \<Rightarrow> ('a, 'w) outcome"
  assumes "calm f" "\<And>x. calm (g x)"
  shows "calm (lua_bind f g)"
  unfolding calm_def
proof
  fix L :: "'w lua"
  show "same_tabs (world L) (lua_bind f g L)"
  proof (cases "f L")
    case (Done x L')
    have "same_tabs (world L) (f L)" "same_tabs (world L') (g x L')" using assms by (simp_all add: calm_def)
    with Done show ?thesis by (cases "g x L'") (simp_all add: lua_bind_def)
  qed (simp_all add: lua_bind_def)
qed

lemma calm_if [calms]: "calm f \<Longrightarrow> calm g \<Longrightarrow> calm (if b then f else g)"
  by simp

lemma calm_with_value: "(\<And>v. calm (f v)) \<Longrightarrow> calm (with_value i f)"
  by (simp add: calm_def with_value_def split: option.split)

lemma calm_basic [calms]:
  "calm (push_value v)" "calm (Pop n)" "calm (lua_return x)" "calm PushSpecial_GLOB" "calm (PushString s)"
  "calm (PushNumber j)" "calm (PushCFunction c)"
  by (simp_all add: calm_def push_value_def Pop_def lua_return_def PushSpecial_GLOB_def PushString_def
      PushNumber_def PushCFunction_def)

lemma calm_IsType [calms]: "calm (IsType_Nil i)"
  unfolding IsType_Nil_def by (intro calm_with_value calms)

lemma calm_GetField [calms]:
  assumes "leaves_tables E"
  shows "calm (GetField E i k)"
  unfolding GetField_def
proof (rule calm_with_value)
  fix v
  have "tabs (snd (get_field E v k w)) = tabs w" for w
    using assms by (auto simp: get_field_def leaves_tables_def split: lua_value.split option.split)
  then show "calm (\<lambda>L. case get_field E v k (world L) of (Inl e, w) \<Rightarrow> Raised e w
      | (Inr x, w) \<Rightarrow> push_value x (L\<lparr>world := w\<rparr>))"
    unfolding calm_def push_value_def by (auto split: prod.split sum.split) (metis snd_conv)
qed

lemma calm_Call [calms]:
  assumes "leaves_tables E"
  shows "calm (Call E args results)"
  using assms unfolding calm_def leaves_tables_def Call_def
  by (auto simp: Let_def split: prod.split sum.split) (metis snd_conv)

lemma calm_call_c:
  assumes "calm f"
  shows "calm (call_c f)"
  unfolding calm_def
proof
  fix L :: "'a lua"
  have "same_tabs (world L) (f (L\<lparr>stack := []\<rparr>))"
    using assms unfolding calm_def by (metis lua.select_convs(2) lua.surjective lua.update_convs(1))
  then show "same_tabs (world L) (call_c f L)" by (cases "f (L\<lparr>stack := []\<rparr>)") (simp_all add: call_c_def)
qed

lemma timer_calm:
  assumes "leaves_tables E"
  shows "calm (add_timer E)" "calm (call_c (doVersionCheck E))"
  unfolding add_timer_def doVersionCheck_def runInTimer_def lua_seq.simps
  by (intro calms assms calm_call_c)+

definition with_functions :: "(cfun \<times> string) list \<Rightarrow> (string \<rightharpoonup> lua_value) \<Rightarrow> string \<rightharpoonup> lua_value" where
  "with_functions fs m = foldl (\<lambda>m (f, name). m(name \<mapsto> VCFunction f)) m fs"

lemma with_functions_simps [simp]:
  "with_functions [] m = m"
  "with_functions ((f, name) # fs) m = with_functions fs (m(name \<mapsto> VCFunction f))"
  by (simp_all add: with_functions_def)

lemmas stack_ops =
  lua_bind_def lua_return_def PushSpecial_GLOB_def PushString_def PushNumber_def PushCFunction_def
  push_value_def Push_def Pop_def with_value_def SetField_def store_field_def

lemma set_functions_result:
  "metatables w t = None \<Longrightarrow>
   set_functions E fs \<lparr>stack = VTable t # s, world = w\<rparr> =
     Done () \<lparr>stack = VTable t # s,
       world = w\<lparr>table_fields := (table_fields w)(t := with_functions fs (table_fields w t))\<rparr>\<rparr>"
proof (induction fs arbitrary: w)
  case Nil
  then show ?case by (simp add: set_functions_def lua_return_def)
next
  case (Cons p fs)
  obtain f name where p: "p = (f, name)" by fastforce
  let ?w = "w\<lparr>table_fields := (table_fields w)(t := (table_fields w t)(name \<mapsto> VCFunction f))\<rparr>"
  have "set_functions E (p # fs) \<lparr>stack = VTable t # s, world = w\<rparr> =
      set_functions E fs \<lparr>stack = VTable t # s, world = ?w\<rparr>"
    using Cons.prems by (simp add: set_functions_def p stack_ops)
  also have "\<dots> = Done () \<lparr>stack = VTable t # s,
      world = ?w\<lparr>table_fields := (table_fields ?w)(t := with_functions fs (table_fields ?w t))\<rparr>\<rparr>"
    using Cons.prems by (intro Cons.IH) simp
  also have "\<dots> = Done () \<lparr>stack = VTable t # s,
      world = w\<lparr>table_fields := (table_fields w)(t := with_functions (p # fs) (table_fields w t))\<rparr>\<rparr>"
    unfolding p by simp
  finally show ?case .
qed

lemma add_library_result:
  assumes "metatables w glob = None" "next_table w \<noteq> glob"
  shows "\<exists>w'. add_library E \<lparr>stack = s, world = w\<rparr> = Done () \<lparr>stack = s, world = w'\<rparr>
    \<and> table_fields w' = (table_fields w)
        (next_table w := with_functions library_functions Map.empty,
         glob := (table_fields w glob)(''GWSockets'' \<mapsto> VTable (next_table w)))
    \<and> next_table w' = Suc (next_table w) \<and> type_names w' = type_names w \<and> types w' = types w"
  using assms
  by (simp add: add_library_def stack_ops CreateTable_def new_table_in_def set_functions_result fun_upd_twist)

lemma add_metatables_result:
  assumes "type_names w ''WebSocket'' = None" "type_names w ''UserDataMetatable'' = None"
    and "finite (dom (types w))" "\<And>w. finite (dom (types w)) \<Longrightarrow> types w (new_type E w) = None"
  shows "\<exists>lt ut w'. add_metatables E \<lparr>stack = s, world = w\<rparr> = Done (lt, ut) \<lparr>stack = s, world = w'\<rparr>
    \<and> table_fields w' = (table_fields w)
        (next_table w := with_functions socket_functions Map.empty,
         next_table w + 1 := [''__index'' \<mapsto> VTable (next_table w), ''__tostring'' \<mapsto> VCFunction C_socketToString],
         next_table w + 2 := [''__gc'' \<mapsto> VCFunction C_socketGCFunction])
    \<and> types w' lt = Some (next_table w + 1) \<and> types w' ut = Some (next_table w + 2) \<and> lt \<noteq> ut"
proof -
  have new: "new_type E w' \<noteq> ty" "ty \<noteq> new_type E w'" if "types w' ty \<noteq> None" "finite (dom (types w'))" for w' ty
    using assms(4) [of w'] that by auto
  show ?thesis
    using assms(1-3)
    by (simp add: new add_metatables_def stack_ops CreateTable_def new_table_in_def set_functions_result
        CreateMetaTable_def Let_def)
qed

definition function_table :: "(cfun \<times> string) list \<Rightarrow> string \<rightharpoonup> lua_value" where
  "function_table fs = map_of (map (\<lambda>(f, name). (name, VCFunction f)) fs)"

lemma with_functions_table:
  "distinct (map snd fs) \<Longrightarrow> with_functions fs m = m ++ function_table fs"
proof (induction fs arbitrary: m)
  case Nil
  then show ?case by (simp add: function_table_def)
next
  case (Cons p fs)
  obtain f name where p: "p = (f, name)" by fastforce
  have "function_table fs name = None"
    using Cons.prems by (force simp: p function_table_def map_of_eq_None_iff)
  then have "m(name \<mapsto> VCFunction f) ++ function_table fs = (m ++ function_table fs)(name \<mapsto> VCFunction f)"
    by (auto simp: fun_eq_iff map_add_def split: option.split)
  moreover have "function_table (p # fs) = (function_table fs)(name \<mapsto> VCFunction f)"
    by (simp only: p function_table_def list.map prod.case map_of.simps fst_conv snd_conv)
  ultimately show ?case
    using Cons by (simp only: p with_functions_simps map_add_upd list.map snd_conv distinct.simps)
qed

lemma functions_distinct: "distinct (map snd library_functions)" "distinct (map snd socket_functions)"
  by (simp_all add: library_functions_def socket_functions_def)

lemma call_c_stack: "call_c f L = Done x L' \<Longrightarrow> stack L' = stack L"
  by (cases "f (L\<lparr>stack := []\<rparr>)") (auto simp: call_c_def)

lemma bind_DoneE:
  assumes "lua_bind f g L = Done y L'"
  obtains x L1 where "f L = Done x L1" "g x L1 = Done y L'"
  using assms by (cases "f L") (auto simp: lua_bind_def)

lemma calmD: "calm f \<Longrightarrow> f L = Done x L' \<Longrightarrow> tabs (world L') = tabs (world L)"
  unfolding calm_def by (metis same_tabs.simps(1))

theorem module_registered:
  assumes "leaves_tables E" "\<And>w. finite (dom (types w)) \<Longrightarrow> types w (new_type E w) = None"
    and "metatables (world L) glob = None" "glob < next_table (world L)"
    and "type_names (world L) ''WebSocket'' = None" "type_names (world L) ''UserDataMetatable'' = None"
    and "finite (dom (types (world L)))" "gmod13_open E L = Done ((lt, ut), n) L'"
  shows "stack L' = stack L \<and> n = 1 \<and> lt \<noteq> ut
    \<and> (\<exists>lib proto mt um. table_fields (world L') glob ''GWSockets'' = Some (VTable lib)
        \<and> table_fields (world L') lib = function_table library_functions
        \<and> types (world L') lt = Some mt \<and> table_fields (world L') mt ''__index'' = Some (VTable proto)
        \<and> table_fields (world L') proto = function_table socket_functions
        \<and> types (world L') ut = Some um \<and> table_fields (world L') um ''__gc'' = Some (VCFunction C_socketGCFunction))"
proof -
  let ?w = "world L" and ?s = "stack L"
  have L: "L = \<lparr>stack = ?s, world = ?w\<rparr>" by simp
  obtain w1 where lib: "add_library E L = Done () \<lparr>stack = ?s, world = w1\<rparr>"
    and w1: "table_fields w1 = (table_fields ?w)(next_table ?w := with_functions library_functions Map.empty,
         glob := (table_fields ?w glob)(''GWSockets'' \<mapsto> VTable (next_table ?w)))"
      "next_table w1 = Suc (next_table ?w)" "type_names w1 = type_names ?w" "types w1 = types ?w"
    using add_library_result [of ?w E ?s] assms(3,4) by (auto simp: L [symmetric])
  obtain L2 where "lua_seq [add_library E, add_timer E] L = Done () L2"
    and open2: "lua_bind (add_metatables E) (\<lambda>ids. lua_bind (call_c (doVersionCheck E)) (\<lambda>_. lua_return (ids, 1))) L2
      = Done ((lt, ut), n) L'"
    using assms(8) unfolding gmod13_open_def by (rule bind_DoneE) simp
  then have timer: "add_timer E \<lparr>stack = ?s, world = w1\<rparr> = Done () L2"
    using lib by (simp add: lua_bind_def)
  have w2: "tabs (world L2) = tabs w1"
    using calmD [OF timer_calm(1) [OF assms(1)] timer] by simp
  have "stack L2 = ?s"
    using function_effects(7) [of E] timer unfolding stack_effect_def
    by (auto dest!: spec [of _ "\<lparr>stack = ?s, world = w1\<rparr>"])
  then have L2: "L2 = \<lparr>stack = ?s, world = world L2\<rparr>" by simp
  obtain lt' ut' w3 where meta: "add_metatables E L2 = Done (lt', ut') \<lparr>stack = ?s, world = w3\<rparr>"
    and w3: "table_fields w3 = (table_fields w1)
        (next_table w1 := with_functions socket_functions Map.empty,
         next_table w1 + 1 := [''__index'' \<mapsto> VTable (next_table w1), ''__tostring'' \<mapsto> VCFunction C_socketToString],
         next_table w1 + 2 := [''__gc'' \<mapsto> VCFunction C_socketGCFunction])"
      "types w3 lt' = Some (next_table w1 + 1)" "types w3 ut' = Some (next_table w1 + 2)" "lt' \<noteq> ut'"
    using add_metatables_result [of "world L2" E ?s] assms(2,5,6,7) w1(3,4) w2
    by (auto simp: tabs_def L2 [symmetric])
  from open2 meta obtain L4 where check: "call_c (doVersionCheck E) \<lparr>stack = ?s, world = w3\<rparr> = Done () L4"
    and ids: "lt = lt'" "ut = ut'" "n = 1" "L' = L4"
    by (auto elim!: bind_DoneE simp: lua_return_def)
  have "stack L4 = ?s" "tabs (world L4) = tabs w3"
    using call_c_stack [OF check] calmD [OF timer_calm(2) [OF assms(1)] check] by simp_all
  then show ?thesis
    using ids w3 w1 assms(4) functions_distinct [THEN with_functions_table, of Map.empty]
    by (auto simp: tabs_def)
qed

subsection \<open>Examples\<close>

type_synonym call_log = "(lua_value \<times> lua_value list) list"

definition sample_res :: "lua_value \<Rightarrow> lua_value list \<Rightarrow> lua_value + lua_value list" where
  \<comment> \<open>function 2 raises a text, function 4 raises a table, the others return\<close>
  "sample_res f args =
     (case f of VFunction n \<Rightarrow> (if n = 2 then Inl (VString ''boom'') else if n = 4 then Inl (VTable 9) else Inr [])
      | _ \<Rightarrow> Inr [])"

definition sample_env :: "call_log lua_env" where
  "sample_env =
     \<lparr>index = (\<lambda>v k w. (Inr VNil, w)), newindex = (\<lambda>v k x w. (Inr (), w)),
      invoke = (\<lambda>f args w. (sample_res f args, w\<lparr>rest := rest w @ [(f, args)]\<rparr>)),
      new_ref = (\<lambda>w. 1), new_type = (\<lambda>w. 1 + Max (insert 44 (dom (types w))))\<rparr>"

definition sample_world :: "call_log lua_world" where
  \<comment> \<open>the global table, the timer library and the table of a socket\<close>
  "sample_world =
     \<lparr>table_fields = (\<lambda>_. Map.empty)
        (0 := [''ErrorNoHalt'' \<mapsto> VFunction 3, ''timer'' \<mapsto> VTable 1],
         1 := [''Create'' \<mapsto> VFunction 5, ''Simple'' \<mapsto> VFunction 6],
         2 := [''onConnected'' \<mapsto> VFunction 1, ''onMessage'' \<mapsto> VFunction 2, ''onError'' \<mapsto> VFunction 4]),
      metatables = Map.empty, next_table = 3, refs = [7 \<mapsto> VTable 2], type_names = Map.empty,
      types = [45 \<mapsto> 2], rest = []\<rparr>"

lemma sample_leaves_tables: "leaves_tables sample_env"
  by (simp add: leaves_tables_def sample_env_def tabs_def)

lemma sample_new_type: "finite (dom (types w)) \<Longrightarrow> types w (new_type sample_env w) = None"
proof (rule ccontr)
  assume f: "finite (dom (types w))" and "types w (new_type sample_env w) \<noteq> None"
  then have "new_type sample_env w \<le> Max (insert 44 (dom (types w)))" by (intro Max_ge) auto
  then show False by (simp add: sample_env_def)
qed

theorem callbacks_called_witness:
  "deliver_all sample_env 7 [\<lparr>in_type = IN_CONNECTED, in_message = []\<rparr>, \<lparr>in_type = IN_MESSAGE, in_message = ''hi''\<rparr>,
      \<lparr>in_type = IN_DISCONNECTED, in_message = ''bye''\<rparr>] \<lparr>stack = [], world = sample_world\<rparr> =
    Done () \<lparr>stack = [], world = sample_world\<lparr>rest :=
      [(VFunction 1, [VTable 2, VString []]), (VFunction 2, [VTable 2, VString ''hi'']),
       (VFunction 3, [VString ''boom'', VString newline])]\<rparr>\<rparr>
   \<and> deliver_all sample_env 7 [\<lparr>in_type = IN_ERROR, in_message = ''x''\<rparr>] \<lparr>stack = [], world = sample_world\<rparr> = Undefined"
proof -
  have "deliver_all sample_env 7 msgs \<lparr>stack = [], world = sample_world\<rparr> =
      on_stack [] (call_events sample_env (VTable 2) msgs sample_world)" for msgs
    using callbacks_called [of "\<lparr>stack = [], world = sample_world\<rparr>" 7 "VTable 2" sample_env msgs]
    by (simp add: sample_world_def)
  then show ?thesis
    by (simp add: call_event_def get_field_def report_error_def sample_env_def sample_world_def sample_res_def
        glob_def is_function_def string_of_def c_str_def)
qed

theorem created_object_recognised_witness:
  "\<exists>L'. push_object sample_env 70 45 9 \<lparr>stack = [], world = sample_world\<rparr> = Done () L'
    \<and> getCppObject_on sample_env 70 1 (L'\<lparr>stack := [hd (stack L')]\<rparr>) = Done 9 (L'\<lparr>stack := [VUserdata 70 9, hd (stack L')]\<rparr>)"
proof -
  let ?L = "\<lparr>stack = [], world = sample_world\<rparr>"
  have t: "types (world ?L) 45 = Some 2" by (simp add: sample_world_def)
  from push_object_result [where E = sample_env and ut = 70 and p = 9, OF t] obtain L'
    where L': "push_object sample_env 70 45 9 ?L = Done () L'" by blast
  then show ?thesis using created_object_recognised [OF t _ _ L'] by auto
qed

theorem module_registered_witness:
  "\<exists>lt ut L' lib proto mt um. gmod13_open sample_env \<lparr>stack = [], world = sample_world\<rparr> = Done ((lt, ut), 1) L'
    \<and> stack L' = [] \<and> lt \<noteq> ut \<and> table_fields (world L') glob ''GWSockets'' = Some (VTable lib)
    \<and> table_fields (world L') lib = function_table library_functions
    \<and> types (world L') lt = Some mt \<and> table_fields (world L') mt ''__index'' = Some (VTable proto)
    \<and> table_fields (world L') proto = function_table socket_functions
    \<and> types (world L') ut = Some um \<and> table_fields (world L') um ''__gc'' = Some (VCFunction C_socketGCFunction)"
proof -
  let ?L = "\<lparr>stack = [], world = sample_world\<rparr>"
  have "\<exists>lt ut n L'. gmod13_open sample_env ?L = Done ((lt, ut), n) L'"
    by (simp add: gmod13_open_def add_library_def add_timer_def add_metatables_def stack_ops CreateTable_def
        new_table_in_def set_functions_result CreateMetaTable_def sample_world_def glob_def GetField_def
        get_field_def library_functions_def Call_def sample_env_def sample_res_def adjust_def call_c_def
        doVersionCheck_def runInTimer_def IsType_Nil_def Let_def)
  then obtain lt ut n L' where r: "gmod13_open sample_env ?L = Done ((lt, ut), n) L'" by blast
  show ?thesis
    using module_registered [OF sample_leaves_tables sample_new_type _ _ _ _ _ r] r
    by (simp add: sample_world_def glob_def)
qed

end
