(* ===== verification/Lua_Functions.thy ===== *)
theory Lua_Functions
  imports Lua_Stack_Props
begin

text \<open>
  The functions that Lua calls (GLua.cpp) as they run on the Lua stack: which arguments they
  check, read and convert in which order, what they push and what they do to the module,
  whose state is in the Lua state here. \<open>Lua_Module\<close> describes the same functions by what
  they do for arguments already taken from the stack; the theorem shows that the two agree.
\<close>

subsection \<open>Arguments\<close>

definition arg :: "int \<Rightarrow> 'w lua \<Rightarrow> lua_value" where
  \<comment> \<open>an index above the top is allowed and stands for nil\<close>
  "arg i L = (case at i L of None \<Rightarrow> VNil | Some v \<Rightarrow> v)"

definition CheckString :: "int \<Rightarrow> 'w lua \<Rightarrow> (unit, 'w) outcome" where
  "CheckString i L = (if string_of (arg i L) = None then ThrowError ''string expected'' L else Done () L)"

definition CheckType_Bool :: "int \<Rightarrow> 'w lua \<Rightarrow> (unit, 'w) outcome" where
  "CheckType_Bool i L = (case arg i L of VBool _ \<Rightarrow> Done () L | _ \<Rightarrow> ThrowError ''bool expected'' L)"

definition IsType_Bool :: "int \<Rightarrow> 'w lua \<Rightarrow> (bool, 'w) outcome" where
  "IsType_Bool i L = Done (case arg i L of VBool _ \<Rightarrow> True | _ \<Rightarrow> False) L"

definition GetBool :: "int \<Rightarrow> 'w lua \<Rightarrow> (bool, 'w) outcome" where
  "GetBool i L = Done (case arg i L of VBool b \<Rightarrow> b | _ \<Rightarrow> False) L"

definition PushBool :: "bool \<Rightarrow> 'w lua \<Rightarrow> (unit, 'w) outcome" where
  "PushBool b = push_value (VBool b)"

definition bool_or :: "bool \<Rightarrow> int \<Rightarrow> 'w lua \<Rightarrow> (bool, 'w) outcome" where
  \<comment> \<open>\<open>IsType(i, Type::Bool) ? GetBool(i) : d\<close>\<close>
  "bool_or d i = lua_bind (IsType_Bool i) (\<lambda>b. if b then GetBool i else lua_return d)"

definition string_arg :: "int \<Rightarrow> (string \<Rightarrow> 'w lua \<Rightarrow> ('a, 'w) outcome) \<Rightarrow> 'w lua \<Rightarrow> ('a, 'w) outcome" where
  \<comment> \<open>a \<open>std::string\<close> made from \<open>GetString(i)\<close>\<close>
  "string_arg i f =
     lua_bind (GetString i) (\<lambda>s. case s of None \<Rightarrow> (\<lambda>_. Undefined) | Some s \<Rightarrow> f s)"

definition addVerifyPath :: "'w lua_env \<Rightarrow> (string \<Rightarrow> string option) \<Rightarrow> 'w lua \<Rightarrow> (nat, 'w) outcome" where
  \<comment> \<open>\<open>add\<close> is \<open>add_verify_path\<close> of the TLS context: the message of the error, if any\<close>
  "addVerifyPath E add =
     lua_bind (CheckString 1) (\<lambda>_.
     string_arg 1 (\<lambda>pth.
     lua_bind
       (case add (c_str pth) of
          Some message \<Rightarrow> throwErrorNoHalt E (''Failed setting SSL verify path: '' @ message)
        | None \<Rightarrow> lua_return ())
       (\<lambda>_. lua_return 0)))"

subsection \<open>The state of the module\<close>

type_synonym 'x mstate = "lua_module \<times> 'x"

definition module_of :: "'x mstate lua \<Rightarrow> lua_module" where
  "module_of L = fst (rest (world L))"

definition with_module :: "lua_module \<Rightarrow> 'x mstate lua_world \<Rightarrow> 'x mstate lua_world" where
  "with_module m w = w\<lparr>rest := (m, snd (rest w))\<rparr>"

definition on_module :: "(lua_module \<Rightarrow> (lua_module \<times> 'r) option) \<Rightarrow> 'x mstate lua \<Rightarrow> ('r, 'x mstate) outcome" where
  "on_module f L =
     (case f (module_of L) of None \<Rightarrow> Undefined
      | Some (m, r) \<Rightarrow> Done r (L\<lparr>world := with_module m (world L)\<rparr>))"

definition read_module :: "(lua_module \<Rightarrow> 'r option) \<Rightarrow> 'x mstate lua \<Rightarrow> ('r, 'x mstate) outcome" where
  "read_module f L = (case f (module_of L) of None \<Rightarrow> Undefined | Some r \<Rightarrow> Done r L)"

definition call_method :: "sock_event \<Rightarrow> ptr \<Rightarrow> 'x mstate lua \<Rightarrow> (nat, 'x mstate) outcome" where
  \<comment> \<open>a member function of the socket, then \<open>return 0\<close>\<close>
  "call_method e p = lua_bind (on_module (on_socket p (obj_step e))) (\<lambda>_. lua_return 0)"

definition must_be_disconnected :: "string \<Rightarrow> ptr \<Rightarrow> 'x mstate lua \<Rightarrow> (unit, 'x mstate) outcome" where
  "must_be_disconnected msg p =
     lua_bind (read_module (read_state p)) (\<lambda>st. if st \<noteq> STATE_DISCONNECTED then ThrowError msg else lua_return ())"

subsection \<open>The functions\<close>

definition socketCloseNow_on :: "'x mstate lua_env \<Rightarrow> int \<Rightarrow> 'x mstate lua \<Rightarrow> (nat, 'x mstate) outcome" where
  "socketCloseNow_on E ut = lua_bind (getCppObject_on E ut 1) (\<lambda>socket. call_method EvCloseNow socket)"

definition socketClose_on :: "'x mstate lua_env \<Rightarrow> int \<Rightarrow> bool \<Rightarrow> 'x mstate lua \<Rightarrow> (nat, 'x mstate) outcome" where
  "socketClose_on E ut spurious =
     lua_bind (getCppObject_on E ut 1) (\<lambda>socket. call_method (EvClose spurious) socket)"

definition socketWrite_on :: "'x mstate lua_env \<Rightarrow> int \<Rightarrow> bool \<Rightarrow> 'x mstate lua \<Rightarrow> (nat, 'x mstate) outcome" where
  "socketWrite_on E ut spurious =
     lua_bind (CheckString 2) (\<lambda>_.
     lua_bind (getCppObject_on E ut 1) (\<lambda>socket.
     string_arg 2 (\<lambda>text.
     lua_bind (bool_or False 3) (\<lambda>isBinary.
     call_method (EvWrite spurious text isBinary) socket))))"

definition socketOpen_on :: "'x mstate lua_env \<Rightarrow> int \<Rightarrow> 'x mstate lua \<Rightarrow> (nat, 'x mstate) outcome" where
  "socketOpen_on E ut =
     lua_bind (getCppObject_on E ut 1) (\<lambda>socket.
     lua_bind (must_be_disconnected ''Cannot open socket that is already connected'' socket) (\<lambda>_.
     lua_bind (bool_or True 2) (\<lambda>shouldClearQueue.
     lua_bind (read_module (\<lambda>m. Some (socketTableReferences m socket = None))) (\<lambda>unreferenced.
     lua_bind
       (if unreferenced then
          lua_bind (Push 1) (\<lambda>_.
          lua_bind (ReferenceCreate E) (\<lambda>r.
          on_module (\<lambda>m. Some (m\<lparr>registry := (registry m)(r \<mapsto> socket),
                                   socketTableReferences := (socketTableReferences m)(socket \<mapsto> r)\<rparr>, ()))))
        else lua_return ()) (\<lambda>_.
     call_method (EvOpen shouldClearQueue) socket)))))"

definition socketClearQueue_on :: "'x mstate lua_env \<Rightarrow> int \<Rightarrow> 'x mstate lua \<Rightarrow> (nat, 'x mstate) outcome" where
  "socketClearQueue_on E ut = lua_bind (getCppObject_on E ut 1) (\<lambda>socket. call_method EvClearQueue socket)"

definition set_or_throw :: "string \<Rightarrow> (socket_obj \<Rightarrow> socket_obj \<times> bool) \<Rightarrow> ptr \<Rightarrow> 'x mstate lua \<Rightarrow> (nat, 'x mstate) outcome" where
  "set_or_throw msg f socket =
     lua_bind (on_module (on_socket socket (\<lambda>x. Some (f x)))) (\<lambda>ok.
       if \<not> ok then ThrowError msg else lua_return 0)"

definition socketSetCookie_on ::
  "(char \<Rightarrow> bool) \<Rightarrow> 'x mstate lua_env \<Rightarrow> int \<Rightarrow> 'x mstate lua \<Rightarrow> (nat, 'x mstate) outcome" where
  "socketSetCookie_on tc E ut =
     lua_bind (getCppObject_on E ut 1) (\<lambda>socket.
     lua_bind (must_be_disconnected ''Cannot set a cookie for an already connected websocket'' socket) (\<lambda>_.
     lua_bind (CheckString 2) (\<lambda>_.
     lua_bind (CheckString 3) (\<lambda>_.
     string_arg 2 (\<lambda>k. string_arg 3 (\<lambda>v.
       set_or_throw ''Invalid cookie name or value'' (obj_set_cookie tc (c_str k) (c_str v)) socket))))))"

definition socketSetHeader_on ::
  "(char \<Rightarrow> bool) \<Rightarrow> (char \<Rightarrow> bool) \<Rightarrow> 'x mstate lua_env \<Rightarrow> int \<Rightarrow> 'x mstate lua \<Rightarrow> (nat, 'x mstate) outcome" where
  "socketSetHeader_on tc tx E ut =
     lua_bind (getCppObject_on E ut 1) (\<lambda>socket.
     lua_bind (must_be_disconnected ''Cannot set header for an already connected websocket'' socket) (\<lambda>_.
     lua_bind (CheckString 2) (\<lambda>_.
     lua_bind (CheckString 3) (\<lambda>_.
     string_arg 2 (\<lambda>k. string_arg 3 (\<lambda>v.
       set_or_throw ''Invalid header name or value'' (obj_set_header tc tx (c_str k) (c_str v)) socket))))))"

definition socketSetMessageCompression_on ::
  "'x mstate lua_env \<Rightarrow> int \<Rightarrow> 'x mstate lua \<Rightarrow> (nat, 'x mstate) outcome" where
  "socketSetMessageCompression_on E ut =
     lua_bind (getCppObject_on E ut 1) (\<lambda>socket.
     lua_bind (must_be_disconnected ''Cannot set message compression for an already connected websocket'' socket) (\<lambda>_.
     lua_bind (CheckType_Bool 2) (\<lambda>_.
     lua_bind (GetBool 2) (\<lambda>b. call_method (EvSetDeflate b) socket))))"

definition socketSetDisableContextTakeover_on ::
  "'x mstate lua_env \<Rightarrow> int \<Rightarrow> 'x mstate lua \<Rightarrow> (nat, 'x mstate) outcome" where
  "socketSetDisableContextTakeover_on E ut =
     lua_bind (getCppObject_on E ut 1) (\<lambda>socket.
     lua_bind (must_be_disconnected ''Cannot set compression takeover for an already connected websocket'' socket) (\<lambda>_.
     lua_bind (CheckType_Bool 2) (\<lambda>_.
     lua_bind (GetBool 2) (\<lambda>b. call_method (EvSetTakeover b) socket))))"

definition socketIsConnected_on :: "'x mstate lua_env \<Rightarrow> int \<Rightarrow> 'x mstate lua \<Rightarrow> (nat, 'x mstate) outcome" where
  "socketIsConnected_on E ut =
     lua_bind (getCppObject_on E ut 1) (\<lambda>socket.
     lua_bind (read_module (read_state socket)) (\<lambda>st.
     lua_bind (PushBool (st = STATE_CONNECTED)) (\<lambda>_. lua_return 1)))"

definition createWebSocket_on ::
  "'x mstate lua_env \<Rightarrow> int \<Rightarrow> int \<Rightarrow> ptr \<Rightarrow> 'x mstate lua \<Rightarrow> (nat, 'x mstate) outcome" where
  \<comment> \<open>\<open>ut\<close> and \<open>mt\<close> are \<open>userDataMetatable\<close> and \<open>luaSocketMetaTable\<close>, \<open>p\<close> is the address that \<open>new\<close>
     returns. An exception that is no \<open>std::invalid_argument\<close> leaves the C function, which is
     undefined.\<close>
  "createWebSocket_on E ut mt p =
     lua_bind (CheckString 1) (\<lambda>_.
     string_arg 1 (\<lambda>urlString.
     lua_bind (bool_or True 2) (\<lambda>verifyCertificate.
       case createWebSocketFromURL (c_str urlString) verifyCertificate of
         Ret x \<Rightarrow>
           lua_bind (on_module (\<lambda>m. Some (m\<lparr>heap := (heap m)(p \<mapsto> x), allSockets := insert p (allSockets m),
                                             userdata := insert p (userdata m)\<rparr>, ()))) (\<lambda>_.
           lua_bind (push_object E ut mt p) (\<lambda>_. lua_return 1))
       | Throw (parse_error _) \<Rightarrow> lua_bind (throwErrorNoHalt E bad_url_message) (\<lambda>_. lua_return 0)
       | _ \<Rightarrow> (\<lambda>_. Undefined))))"

definition socketGCFunction_on :: "int \<Rightarrow> 'x mstate lua \<Rightarrow> (nat, 'x mstate) outcome" where
  "socketGCFunction_on ut =
     lua_bind (read_module (\<lambda>m. Some (moduleOpen m))) (\<lambda>is_open.
     if \<not> is_open then lua_return 0
     else
       lua_bind (GetUserType 1 ut) (\<lambda>socket. case socket of
         None \<Rightarrow> (\<lambda>_. Undefined)
       | Some socket \<Rightarrow>
           lua_bind (on_module (\<lambda>m. Some
             ((if socketTableReferences m socket \<noteq> None
               then m\<lparr>socketTableReferences := (socketTableReferences m)(socket := None)\<rparr> else m)
              \<lparr>gcedSockets := insert socket (gcedSockets m)\<rparr>, ()))) (\<lambda>_.
           call_method EvCloseNow socket)))"

end
