(* ===== verification/Lua_Functions_Props.thy ===== *)
theory Lua_Functions_Props
  imports Lua_Functions
begin

text \<open>
  The functions of \<open>Lua_Functions\<close>, which run on the Lua stack, do what \<open>Lua_Module\<close> says of
  them: the same change of the module, and the result or the error that it names.
\<close>

subsection \<open>What the arguments mean\<close>

fun val_of :: "lua_value \<Rightarrow> lua_val" where
  "val_of VNil = LNil"
| "val_of (VBool b) = LBool b"
| "val_of (VString s) = LString s"
| "val_of (VNumber n) = LString (int_to_string n)"
| "val_of v = LOther"

definition lua_arg :: "lua_value list \<Rightarrow> nat \<Rightarrow> lua_val" where
  \<comment> \<open>the argument at position \<open>k\<close>, from 1\<close>
  "lua_arg args k = (if 1 \<le> k \<and> k \<le> length args then val_of (args ! (k - 1)) else LNil)"

definition self_of :: "int \<Rightarrow> lua_value \<Rightarrow> lua_val" where
  \<comment> \<open>the socket behind a table whose \<open>__CppUserData\<close> is \<open>x\<close>\<close>
  "self_of ut x =
     (case x of VUserdata t p \<Rightarrow> (if p = 0 \<or> uint t \<noteq> ut then LOther else LSocket p) | _ \<Rightarrow> LOther)"

lemma arg_rev:
  assumes "stack L = rev args" "1 \<le> i"
  shows "arg i L = (if nat i \<le> length args then args ! (nat i - 1) else VNil)"
  using assms by (auto simp: arg_def at_def rev_nth nat_le_iff)

lemma string_of_val: "string_of v = (case val_of v of LString s \<Rightarrow> Some s | _ \<Rightarrow> None)"
  by (cases v) (simp_all add: string_of_def)

lemma val_of_no_socket [simp]: "val_of v \<noteq> LSocket p"
  by (cases v) simp_all

lemma bool_or_arg:
  assumes "stack L = rev args" "1 \<le> i"
  shows "bool_or d i L = Done (opt_bool d (lua_arg args (nat i))) L"
  using arg_rev [OF assms] assms(2)
  by (auto simp: bool_or_def lua_bind_def IsType_Bool_def GetBool_def lua_return_def opt_bool_def lua_arg_def
      split: lua_value.split)

lemma CheckString_arg:
  assumes "stack L = rev args" "1 \<le> i"
  shows "CheckString i L =
    (case lua_arg args (nat i) of LString s \<Rightarrow> Done () L | _ \<Rightarrow> ThrowError ''string expected'' L)"
  using arg_rev [OF assms] assms(2)
  by (auto simp: CheckString_def lua_arg_def string_of_val split: lua_val.split)

lemma CheckType_Bool_arg:
  assumes "stack L = rev args" "1 \<le> i"
  shows "CheckType_Bool i L =
    (case lua_arg args (nat i) of LBool b \<Rightarrow> Done () L | _ \<Rightarrow> ThrowError ''bool expected'' L)"
  using arg_rev [OF assms] assms(2)
  by (auto simp: CheckType_Bool_def lua_arg_def split: lua_value.split)

lemma GetBool_arg:
  assumes "stack L = rev args" "1 \<le> i" "lua_arg args (nat i) = LBool b"
  shows "GetBool i L = Done b L"
  using arg_rev [OF assms(1,2)] assms(2,3)
  by (auto simp: GetBool_def lua_arg_def split: lua_value.splits if_splits)

lemma string_arg_arg:
  assumes "stack L = rev args" "1 \<le> i" "lua_arg args (nat i) = LString s"
  shows "string_arg i f L = f s L"
proof -
  have n: "nat i \<le> length args" "val_of (args ! (nat i - 1)) = LString s"
    using assms(3) by (auto simp: lua_arg_def split: if_splits)
  then have "at i L = Some (args ! (nat i - 1))"
    using assms(1,2) by (auto simp: at_def rev_nth Let_def nat_le_iff)
  with n show ?thesis
    by (simp add: string_arg_def lua_bind_def GetString_def with_value_def lua_return_def string_of_val)
qed

lemma lua_arg_push:
  "lua_arg (args @ [VUserdata t p]) k = (if k = Suc (length args) then LOther else lua_arg args k)"
  by (auto simp: lua_arg_def nth_append)

lemma lua_arg_end: "lua_arg args (Suc (length args)) = LNil"
  by (simp add: lua_arg_def)

lemma getCppObject_arg:
  assumes "stack L = rev (self # params)" "get_field E self ''__CppUserData'' (world L) = (Inr x, world L)"
  shows "getCppObject_on E ut 1 L =
    (case self_of ut x of
       LSocket p \<Rightarrow> Done p (L\<lparr>stack := x # stack L\<rparr>)
     | _ \<Rightarrow> Raised (VString ''[GWSockets] Expected GWSocket table'') (world L))"
proof -
  have "at 1 L = Some self" using assms(1) by (simp add: at_def nth_append)
  with assms(2) show ?thesis
    by (auto simp: getCppObject_on_def lua_bind_def GetField_def with_value_def push_value_def
        GetUserType_def lua_return_def ThrowError_def self_of_def split: lua_value.split)
qed

lemma self_of_userdata: "self_of ut x = LSocket p \<Longrightarrow> \<exists>t. x = VUserdata t p"
  by (auto simp: self_of_def split: lua_value.splits if_splits)

subsection \<open>Agreement\<close>

definition open_refs :: "lua_value \<Rightarrow> lua_call \<Rightarrow> 'x mstate lua \<Rightarrow> int \<rightharpoonup> lua_value" where
  \<comment> \<open>the references after a call that returned: \<open>open\<close> makes one to its first argument\<close>
  "open_refs self c L =
     (case c of
        CallOpen r (LSocket p) _ \<Rightarrow>
          (if socketTableReferences (module_of L) p = None then (refs (world L))(r \<mapsto> self) else refs (world L))
      | _ \<Rightarrow> refs (world L))"

definition agrees ::
  "'x mstate lua_env \<Rightarrow> int \<Rightarrow> int \<Rightarrow> (int \<rightharpoonup> lua_value) \<Rightarrow> 'x mstate lua \<Rightarrow> mod_res \<Rightarrow> (nat, 'x mstate) outcome \<Rightarrow> bool" where
  "agrees E ut mt R L res out =
     (case res of
        None \<Rightarrow> out = Undefined
      | Some (m, outs) \<Rightarrow>
          let w = with_module m (world L) in
          (case outs of
             [] \<Rightarrow> (\<exists>s. out = Done 0 \<lparr>stack = s, world = w\<lparr>refs := R\<rparr>\<rparr>)
           | [LuaError msg] \<Rightarrow> out = Raised (VString msg) w
           | [Returned b] \<Rightarrow> (\<exists>s. out = Done 1 \<lparr>stack = VBool b # s, world = w\<rparr>)
           | [Created p] \<Rightarrow>
               out = outcome_bind (push_object E ut mt p (L\<lparr>world := w\<rparr>)) (\<lambda>_. lua_return 1)
           | [NoHalt msg] \<Rightarrow> out = outcome_bind (throwErrorNoHalt E msg (L\<lparr>world := w\<rparr>)) (\<lambda>_. lua_return 0)
           | [Uncaught e] \<Rightarrow> out = Undefined
           | _ \<Rightarrow> False))"

lemma lua_eq: "L = \<lparr>stack = stack L, world = world L\<rparr>"
  by simp

lemma with_module_same: "m = fst (rest w) \<Longrightarrow> with_module m w = w"
  by (cases w) (simp add: with_module_def)

lemma agrees_error:
  "module_of L = m \<Longrightarrow> agrees E ut mt R L (lua_error msg m) (ThrowError msg (L\<lparr>stack := s\<rparr>))"
  by (simp add: agrees_def lua_error_def ThrowError_def with_module_same module_of_def)

lemma agrees_raised:
  "module_of L = m \<Longrightarrow> w = world L \<Longrightarrow> agrees E ut mt R L (lua_error msg m) (Raised (VString msg) w)"
  by (simp add: agrees_def lua_error_def with_module_same module_of_def)

lemma agrees_method:
  assumes "R = refs (world L)"
  shows "agrees E ut mt R L (call_socket e p (module_of L)) (call_method e p (L\<lparr>stack := s\<rparr>))"
  using assms
  by (cases L) (auto simp: agrees_def call_socket_def call_method_def lua_bind_def on_module_def module_of_def
      lua_return_def with_module_def split: option.split)

lemma agrees_getCppObject:
  assumes "stack L = rev (self # params)" "get_field E self ''__CppUserData'' (world L) = (Inr x, world L)"
    and "\<And>t p. self_of ut x = LSocket p \<Longrightarrow> agrees E ut mt R L (k p (module_of L)) (f p (L\<lparr>stack := rev (self # params @ [VUserdata t p])\<rparr>))"
  shows "agrees E ut mt R L (getCppObject (self_of ut x) k (module_of L)) (lua_bind (getCppObject_on E ut 1) f L)"
proof (cases "self_of ut x")
  case (LSocket p)
  with self_of_userdata obtain t where "x = VUserdata t p" by blast
  with LSocket assms show ?thesis
    by (simp add: lua_bind_def getCppObject_arg [OF assms(1,2)] getCppObject_def)
qed (simp_all add: lua_bind_def getCppObject_arg [OF assms(1,2)] getCppObject_def agrees_raised)

lemma agrees_disconnected:
  assumes "agrees E ut mt R L (k p (module_of L)) (f (L\<lparr>stack := s\<rparr>))"
  shows "agrees E ut mt R L (if_disconnected msg k p (module_of L)) (lua_bind (must_be_disconnected msg p) (\<lambda>_. f) (L\<lparr>stack := s\<rparr>))"
proof -
  have [simp]: "module_of (L\<lparr>stack := s\<rparr>) = module_of L" by (simp add: module_of_def)
  show ?thesis
  proof (cases "read_state p (module_of L)")
    case None
    then show ?thesis
      by (simp add: if_disconnected_def must_be_disconnected_def lua_bind_def read_module_def agrees_def)
  next
    case (Some st)
    with assms show ?thesis
      by (simp add: if_disconnected_def must_be_disconnected_def lua_bind_def read_module_def lua_return_def
          ThrowError_def agrees_raised)
  qed
qed

lemma agrees_CheckString:
  assumes "s = rev args" "1 \<le> i" "lua_arg args (nat i) = v \<or> (lua_arg args (nat i) = LOther \<and> v = LNil)"
    and "\<And>t. v = LString t \<Longrightarrow> agrees E ut mt R L (k t (module_of L)) (f (L\<lparr>stack := s\<rparr>))"
  shows "agrees E ut mt R L (checkString v k (module_of L)) (lua_bind (CheckString i) (\<lambda>_. f) (L\<lparr>stack := s\<rparr>))"
proof -
  have "CheckString i (L\<lparr>stack := s\<rparr>) =
    (case lua_arg args (nat i) of LString s' \<Rightarrow> Done () (L\<lparr>stack := s\<rparr>)
     | _ \<Rightarrow> ThrowError ''string expected'' (L\<lparr>stack := s\<rparr>))"
    by (rule CheckString_arg) (use assms(1,2) in simp_all)
  then show ?thesis
    using assms(3,4) by (cases v) (auto simp: lua_bind_def checkString_def ThrowError_def agrees_raised)
qed

lemma agrees_CheckType_Bool:
  assumes "s = rev args" "1 \<le> i" "lua_arg args (nat i) = v \<or> (lua_arg args (nat i) = LOther \<and> v = LNil)"
    and "\<And>b. agrees E ut mt R L (k b (module_of L)) (f b (L\<lparr>stack := s\<rparr>))"
  shows "agrees E ut mt R L (checkBool v k (module_of L))
    (lua_bind (CheckType_Bool i) (\<lambda>_. lua_bind (GetBool i) f) (L\<lparr>stack := s\<rparr>))"
proof -
  have c: "CheckType_Bool i (L\<lparr>stack := s\<rparr>) =
    (case lua_arg args (nat i) of LBool b \<Rightarrow> Done () (L\<lparr>stack := s\<rparr>)
     | _ \<Rightarrow> ThrowError ''bool expected'' (L\<lparr>stack := s\<rparr>))"
    by (rule CheckType_Bool_arg) (use assms(1,2) in simp_all)
  have "GetBool i (L\<lparr>stack := s\<rparr>) = Done b (L\<lparr>stack := s\<rparr>)" if "lua_arg args (nat i) = LBool b" for b
    by (rule GetBool_arg) (use assms(1,2) that in simp_all)
  with c show ?thesis
    using assms(3,4) by (cases v) (auto simp: lua_bind_def checkBool_def ThrowError_def agrees_raised)
qed

subsection \<open>The functions of a socket\<close>

lemma lua_arg_pushed:
  "lua_arg (args @ [VUserdata t p]) k = lua_arg args k
   \<or> (lua_arg (args @ [VUserdata t p]) k = LOther \<and> lua_arg args k = LNil)"
  by (auto simp: lua_arg_push lua_arg_end)

lemma opt_bool_pushed: "opt_bool d (lua_arg (args @ [VUserdata t p]) k) = opt_bool d (lua_arg args k)"
  by (auto simp: lua_arg_push lua_arg_end opt_bool_def)

lemma lua_arg_string: "lua_arg args k = LString s \<Longrightarrow> lua_arg (args @ [VUserdata t p]) k = LString s"
  by (auto simp: lua_arg_push lua_arg_end)

lemma bool_or_pushed:
  assumes "1 \<le> i"
  shows "bool_or d i (L\<lparr>stack := rev (args @ [VUserdata t p])\<rparr>) =
    Done (opt_bool d (lua_arg args (nat i))) (L\<lparr>stack := rev (args @ [VUserdata t p])\<rparr>)"
proof -
  have "bool_or d i (L\<lparr>stack := rev (args @ [VUserdata t p])\<rparr>) =
    Done (opt_bool d (lua_arg (args @ [VUserdata t p]) (nat i))) (L\<lparr>stack := rev (args @ [VUserdata t p])\<rparr>)"
    by (rule bool_or_arg) (use assms in simp_all)
  then show ?thesis by (simp add: opt_bool_pushed)
qed

lemma bind_bool_or_pushed:
  assumes "1 \<le> i"
  shows "lua_bind (bool_or d i) f (L\<lparr>stack := rev (args @ [VUserdata t p])\<rparr>) =
    f (opt_bool d (lua_arg args (nat i))) (L\<lparr>stack := rev (args @ [VUserdata t p])\<rparr>)"
  by (simp only: lua_bind_def bool_or_pushed [OF assms] outcome_bind.simps)

lemma agrees_method':
  assumes "world L' = (with_module m (world L))\<lparr>refs := R\<rparr>"
  shows "agrees E ut mt R L (call_socket e p m) (call_method e p L')"
  using assms
  by (cases L; cases L') (auto simp: agrees_def call_socket_def call_method_def lua_bind_def on_module_def module_of_def
      lua_return_def with_module_def split: option.split)

lemma string_arg_pushed:
  assumes "1 \<le> i" "lua_arg args (nat i) = LString s"
  shows "string_arg i f (L\<lparr>stack := rev (args @ [VUserdata t p])\<rparr>) = f s (L\<lparr>stack := rev (args @ [VUserdata t p])\<rparr>)"
  by (rule string_arg_arg [where args = "args @ [VUserdata t p]"]) (use assms lua_arg_string in auto)

lemma agrees_set_field:
  "agrees E ut mt (refs (world L)) L (Lua_Module.set_field msg f p (module_of L)) (set_or_throw msg f p (L\<lparr>stack := s\<rparr>))"
  by (cases L) (auto simp: agrees_def Lua_Module.set_field_def set_or_throw_def lua_bind_def on_module_def module_of_def
      lua_return_def with_module_def lua_error_def ThrowError_def split: option.split)

lemma bool_setter_agrees:
  assumes "stack L = rev (self # params)" "get_field E self ''__CppUserData'' (world L) = (Inr x, world L)"
    and "R = refs (world L)"
  shows "agrees E ut mt R L
    (getCppObject (self_of ut x) (if_disconnected msg (\<lambda>p. checkBool (lua_arg (self # params) 2) (\<lambda>b. call_socket (e b) p)))
      (module_of L))
    (lua_bind (getCppObject_on E ut 1) (\<lambda>socket. lua_bind (must_be_disconnected msg socket) (\<lambda>_.
      lua_bind (CheckType_Bool 2) (\<lambda>_. lua_bind (GetBool 2) (\<lambda>b. call_method (e b) socket)))) L)"
proof (rule agrees_getCppObject [OF assms(1,2)], rule agrees_disconnected)
  fix t p
  let ?s = "rev (self # params @ [VUserdata t p])"
  show "agrees E ut mt R L (checkBool (lua_arg (self # params) 2) (\<lambda>b. call_socket (e b) p) (module_of L))
    (lua_bind (CheckType_Bool 2) (\<lambda>_. lua_bind (GetBool 2) (\<lambda>b. call_method (e b) p)) (L\<lparr>stack := ?s\<rparr>))"
    using lua_arg_pushed [of "self # params" t p 2]
    by (intro agrees_CheckType_Bool [of _ "(self # params) @ [VUserdata t p]"] agrees_method [OF assms(3)]) auto
qed

lemma string_setter_agrees:
  assumes "stack L = rev (self # params)" "get_field E self ''__CppUserData'' (world L) = (Inr x, world L)"
    and "R = refs (world L)"
  shows "agrees E ut mt R L
    (getCppObject (self_of ut x) (if_disconnected msg (\<lambda>p. checkString (lua_arg (self # params) 2) (\<lambda>k.
      checkString (lua_arg (self # params) 3) (\<lambda>v. Lua_Module.set_field err (f k v) p)))) (module_of L))
    (lua_bind (getCppObject_on E ut 1) (\<lambda>socket. lua_bind (must_be_disconnected msg socket) (\<lambda>_.
      lua_bind (CheckString 2) (\<lambda>_. lua_bind (CheckString 3) (\<lambda>_.
      string_arg 2 (\<lambda>k. string_arg 3 (\<lambda>v. set_or_throw err (f k v) socket)))))) L)"
proof (rule agrees_getCppObject [OF assms(1,2)], rule agrees_disconnected)
  fix t p
  let ?a = "(self # params) @ [VUserdata t p]"
  let ?s = "rev (self # params @ [VUserdata t p])"
  have last: "agrees E ut mt R L (Lua_Module.set_field err (f k v) p (module_of L))
      (string_arg 2 (\<lambda>k. string_arg 3 (\<lambda>v. set_or_throw err (f k v) p)) (L\<lparr>stack := ?s\<rparr>))"
    if "lua_arg (self # params) 2 = LString k" "lua_arg (self # params) 3 = LString v" for k v
  proof -
    note pushed = string_arg_pushed [of _ "self # params", unfolded append_Cons]
    have "string_arg 2 (\<lambda>k. string_arg 3 (\<lambda>v. set_or_throw err (f k v) p)) (L\<lparr>stack := ?s\<rparr>)
        = string_arg 3 (\<lambda>v. set_or_throw err (f k v) p) (L\<lparr>stack := ?s\<rparr>)"
      by (rule pushed) (use that in simp_all)
    also have "\<dots> = set_or_throw err (f k v) p (L\<lparr>stack := ?s\<rparr>)"
      by (rule pushed) (use that in simp_all)
    finally show ?thesis by (simp only: agrees_set_field assms(3))
  qed
  show "agrees E ut mt R L
    (checkString (lua_arg (self # params) 2) (\<lambda>k. checkString (lua_arg (self # params) 3) (\<lambda>v.
      Lua_Module.set_field err (f k v) p)) (module_of L))
    (lua_bind (CheckString 2) (\<lambda>_. lua_bind (CheckString 3) (\<lambda>_.
      string_arg 2 (\<lambda>k. string_arg 3 (\<lambda>v. set_or_throw err (f k v) p)))) (L\<lparr>stack := ?s\<rparr>))"
    using lua_arg_pushed [of "self # params" t p 2] lua_arg_pushed [of "self # params" t p 3]
    by (intro agrees_CheckString [of _ ?a] last) auto
qed

lemma methods_agree:
  assumes L: "stack L = rev (self # params)" "get_field E self ''__CppUserData'' (world L) = (Inr x, world L)"
    and R: "R = refs (world L)"
    and s: "s = self_of ut x" and a: "a = lua_arg (self # params)" and m: "m = module_of L"
  shows "agrees E ut mt R L (socketClose spurious s m) (socketClose_on E ut spurious L)"
    and "agrees E ut mt R L (socketCloseNow s m) (socketCloseNow_on E ut L)"
    and "agrees E ut mt R L (socketClearQueue s m) (socketClearQueue_on E ut L)"
    and "agrees E ut mt R L (socketSetCookie tc s (a 2) (a 3) m) (socketSetCookie_on tc E ut L)"
    and "agrees E ut mt R L (socketSetHeader tc tx s (a 2) (a 3) m) (socketSetHeader_on tc tx E ut L)"
    and "agrees E ut mt R L (socketSetMessageCompression s (a 2) m) (socketSetMessageCompression_on E ut L)"
    and "agrees E ut mt R L (socketSetDisableContextTakeover s (a 2) m) (socketSetDisableContextTakeover_on E ut L)"
    and "agrees E ut mt R L (socketIsConnected s m) (socketIsConnected_on E ut L)"
proof -
  note step = agrees_method [OF R]
  note start = agrees_getCppObject [OF L]
  show "agrees E ut mt R L (socketClose spurious s m) (socketClose_on E ut spurious L)"
    "agrees E ut mt R L (socketCloseNow s m) (socketCloseNow_on E ut L)"
    "agrees E ut mt R L (socketClearQueue s m) (socketClearQueue_on E ut L)"
    unfolding socketClose_def socketClose_on_def socketCloseNow_def socketCloseNow_on_def
      socketClearQueue_def socketClearQueue_on_def s m
    by (rule start, rule step)+
  show "agrees E ut mt R L (socketSetMessageCompression s (a 2) m) (socketSetMessageCompression_on E ut L)"
    "agrees E ut mt R L (socketSetDisableContextTakeover s (a 2) m) (socketSetDisableContextTakeover_on E ut L)"
    unfolding socketSetMessageCompression_def socketSetMessageCompression_on_def
      socketSetDisableContextTakeover_def socketSetDisableContextTakeover_on_def s m a
    by (rule bool_setter_agrees [OF L R])+
  show "agrees E ut mt R L (socketSetCookie tc s (a 2) (a 3) m) (socketSetCookie_on tc E ut L)"
    "agrees E ut mt R L (socketSetHeader tc tx s (a 2) (a 3) m) (socketSetHeader_on tc tx E ut L)"
    unfolding socketSetCookie_def socketSetCookie_on_def socketSetHeader_def socketSetHeader_on_def s m a
    by (rule string_setter_agrees [OF L R])+
  show "agrees E ut mt R L (socketIsConnected s m) (socketIsConnected_on E ut L)"
    unfolding socketIsConnected_def socketIsConnected_on_def s m
  proof (rule start)
    fix t p
    show "agrees E ut mt R L (map_option (\<lambda>st. (module_of L, [Returned (st = STATE_CONNECTED)])) (read_state p (module_of L)))
      (lua_bind (read_module (read_state p)) (\<lambda>st. lua_bind (PushBool (st = STATE_CONNECTED)) (\<lambda>_. lua_return 1))
        (L\<lparr>stack := rev (self # params @ [VUserdata t p])\<rparr>))"
      by (cases L) (auto simp: agrees_def lua_bind_def read_module_def module_of_def PushBool_def push_value_def
          lua_return_def with_module_same split: option.split)
  qed
qed

lemma socketWrite_agrees:
  assumes L: "stack L = rev (self # params)" "get_field E self ''__CppUserData'' (world L) = (Inr x, world L)"
    and R: "R = refs (world L)"
  shows "agrees E ut mt R L
    (socketWrite spurious (self_of ut x) (lua_arg (self # params) 2) (lua_arg (self # params) 3) (module_of L))
    (socketWrite_on E ut spurious L)"
proof -
  let ?a = "self # params"
  have L': "L\<lparr>stack := rev ?a\<rparr> = L" using L(1) by simp
  have "agrees E ut mt R L
      (checkString (lua_arg ?a 2) (\<lambda>str. getCppObject (self_of ut x)
        (call_socket (EvWrite spurious str (opt_bool False (lua_arg ?a 3))))) (module_of L))
      (lua_bind (CheckString 2) (\<lambda>_. lua_bind (getCppObject_on E ut 1) (\<lambda>socket.
        string_arg 2 (\<lambda>text. lua_bind (bool_or False 3) (\<lambda>isBinary.
        call_method (EvWrite spurious text isBinary) socket)))) (L\<lparr>stack := rev ?a\<rparr>))"
  proof (rule agrees_CheckString [of _ ?a])
    fix s assume s: "lua_arg ?a 2 = LString s"
    show "agrees E ut mt R L
        (getCppObject (self_of ut x) (call_socket (EvWrite spurious s (opt_bool False (lua_arg ?a 3)))) (module_of L))
        (lua_bind (getCppObject_on E ut 1) (\<lambda>socket. string_arg 2 (\<lambda>text. lua_bind (bool_or False 3) (\<lambda>isBinary.
          call_method (EvWrite spurious text isBinary) socket))) (L\<lparr>stack := rev ?a\<rparr>))"
      unfolding L'
    proof (rule agrees_getCppObject [OF L])
      fix t p
      let ?L = "L\<lparr>stack := rev (self # params @ [VUserdata t p])\<rparr>"
      have "string_arg 2 (\<lambda>text. lua_bind (bool_or False 3) (\<lambda>isBinary. call_method (EvWrite spurious text isBinary) p)) ?L
          = lua_bind (bool_or False 3) (\<lambda>isBinary. call_method (EvWrite spurious s isBinary) p) ?L"
        by (rule string_arg_pushed [of _ ?a, unfolded append_Cons]) (use s in simp_all)
      also have "\<dots> = call_method (EvWrite spurious s (opt_bool False (lua_arg ?a (nat 3)))) p ?L"
        by (rule bind_bool_or_pushed [of _ _ _ ?a, unfolded append_Cons]) simp
      finally have run: "string_arg 2 (\<lambda>text. lua_bind (bool_or False 3) (\<lambda>isBinary.
            call_method (EvWrite spurious text isBinary) p)) ?L
          = call_method (EvWrite spurious s (opt_bool False (lua_arg ?a 3))) p ?L" by simp
      show "agrees E ut mt R L (call_socket (EvWrite spurious s (opt_bool False (lua_arg ?a 3))) p (module_of L))
          (string_arg 2 (\<lambda>text. lua_bind (bool_or False 3) (\<lambda>isBinary. call_method (EvWrite spurious text isBinary) p)) ?L)"
        by (simp only: run agrees_method [OF R])
    qed
  qed simp_all
  then show ?thesis unfolding socketWrite_def socketWrite_on_def L' .
qed

lemma socketOpen_agrees:
  assumes L: "stack L = rev (self # params)" "get_field E self ''__CppUserData'' (world L) = (Inr x, world L)"
    and r: "r = new_ref E (world L)"
    and R: "\<And>p. self_of ut x = LSocket p \<Longrightarrow>
      R = (if socketTableReferences (module_of L) p = None then (refs (world L))(r \<mapsto> self) else refs (world L))"
  shows "agrees E ut mt R L
    (socketOpen r (self_of ut x) (lua_arg (self # params) 2) (module_of L)) (socketOpen_on E ut L)"
  unfolding socketOpen_def socketOpen_on_def
proof (rule agrees_getCppObject [OF L], rule agrees_disconnected)
  fix t p
  let ?a = "self # params"
  let ?L = "L\<lparr>stack := rev (self # params @ [VUserdata t p])\<rparr>"
  let ?m = "module_of L"
  let ?rest = "\<lambda>shouldClearQueue. lua_bind (read_module (\<lambda>m. Some (socketTableReferences m p = None))) (\<lambda>unreferenced.
     lua_bind
       (if unreferenced then
          lua_bind (Push 1) (\<lambda>_.
          lua_bind (ReferenceCreate E) (\<lambda>r.
          on_module (\<lambda>m. Some (m\<lparr>registry := (registry m)(r \<mapsto> p),
                                   socketTableReferences := (socketTableReferences m)(p \<mapsto> r)\<rparr>, ()))))
        else lua_return ()) (\<lambda>_.
     call_method (EvOpen shouldClearQueue) p))"
  assume p: "self_of ut x = LSocket p"
  have b: "lua_bind (bool_or True 2) ?rest ?L = ?rest (opt_bool True (lua_arg ?a (nat 2))) ?L"
    by (rule bind_bool_or_pushed [of _ _ _ ?a, unfolded append_Cons]) simp
  have one: "at 1 ?L = Some self" by (simp add: at_def nth_append)
  let ?m' = "?m\<lparr>registry := (registry ?m)(r \<mapsto> p), socketTableReferences := (socketTableReferences ?m)(p \<mapsto> r)\<rparr>"
  have rest: "?rest d ?L = call_method (EvOpen d) p
      (if socketTableReferences ?m p = None
       then ?L\<lparr>world := (with_module ?m' (world L))\<lparr>refs := (refs (world L))(r \<mapsto> self)\<rparr>\<rparr> else ?L)" for d
    using one
    by (cases L; cases "world L"; cases "socketTableReferences ?m p")
      (simp_all add: lua_bind_def read_module_def module_of_def Push_def with_value_def push_value_def
        ReferenceCreate_def at_def Pop_def on_module_def with_module_def lua_return_def Let_def r)
  show "agrees E ut mt R L
      (let m = if socketTableReferences ?m p = None then ?m' else ?m
       in call_socket (EvOpen (opt_bool True (lua_arg ?a 2))) p m)
      (lua_bind (bool_or True 2) ?rest ?L)"
    unfolding b rest Let_def using R [OF p] agrees_method [of R L]
    by (auto intro: agrees_method')
qed

lemma createWebSocket_agrees:
  assumes L: "stack L = rev args"
  shows "agrees E ut mt (refs (world L)) L
    (createWebSocket p (lua_arg args 1) (lua_arg args 2) (module_of L)) (createWebSocket_on E ut mt p L)"
proof -
  have L': "L\<lparr>stack := rev args\<rparr> = L" using L by simp
  show ?thesis
    unfolding createWebSocket_def createWebSocket_on_def
  proof (subst (2) L' [symmetric], rule agrees_CheckString [of _ args])
    fix s assume s: "lua_arg args 1 = LString s"
    have b: "lua_bind (bool_or True 2) g L = g (opt_bool True (lua_arg args 2)) L" for g :: "bool \<Rightarrow> 'a mstate lua \<Rightarrow> (nat, 'a mstate) outcome"
      using bool_or_arg [OF L, of 2 True] by (simp add: lua_bind_def)
    have a: "string_arg 1 g L = g s L" for g :: "string \<Rightarrow> 'a mstate lua \<Rightarrow> (nat, 'a mstate) outcome"
      by (rule string_arg_arg [OF L]) (use s in simp_all)
    show "agrees E ut mt (refs (world L)) L
       (case createWebSocketFromURL (c_str s) (opt_bool True (lua_arg args 2)) of
          Ret x \<Rightarrow> let m = module_of L\<lparr>heap := (heap (module_of L))(p \<mapsto> x)\<rparr>; m = m\<lparr>allSockets := insert p (allSockets m)\<rparr>;
                  m = m\<lparr>userdata := insert p (userdata m)\<rparr>
              in Some (m, [Created p])
        | Throw (parse_error xs) \<Rightarrow> Some (module_of L, [NoHalt bad_url_message])
        | Throw e \<Rightarrow> Some (module_of L, [Uncaught e])
        | UB \<Rightarrow> None)
       (string_arg 1 (\<lambda>urlString. lua_bind (bool_or True 2) (\<lambda>verifyCertificate.
          case createWebSocketFromURL (c_str urlString) verifyCertificate of
            Ret x \<Rightarrow> lua_bind (on_module (\<lambda>m. Some (m\<lparr>heap := (heap m)(p \<mapsto> x), allSockets := insert p (allSockets m),
                                             userdata := insert p (userdata m)\<rparr>, ()))) (\<lambda>_.
              lua_bind (push_object E ut mt p) (\<lambda>_. lua_return 1))
          | Throw (parse_error xs) \<Rightarrow> lua_bind (throwErrorNoHalt E bad_url_message) (\<lambda>_. lua_return 0)
          | Throw _ \<Rightarrow> (\<lambda>_. Undefined)
          | _ \<Rightarrow> (\<lambda>_. Undefined)))
         (L\<lparr>stack := rev args\<rparr>))"
      unfolding L' a b
      by (cases L) (auto simp: agrees_def lua_bind_def on_module_def module_of_def Let_def with_module_same
          split: exec.split url_exn.split)
  qed simp_all
qed

lemma socketGCFunction_agrees:
  assumes "stack L = rev (VUserdata t p # params)" "uint t = ut" "p \<noteq> 0"
  shows "agrees E ut mt (refs (world L)) L (socketGCFunction p (module_of L)) (socketGCFunction_on ut L)"
proof -
  have one: "at 1 L = Some (VUserdata t p)" using assms(1) by (simp add: at_def nth_append)
  then show ?thesis
  proof (cases "moduleOpen (module_of L)")
    case False
    then show ?thesis
      by (cases L) (auto simp: agrees_def socketGCFunction_def socketGCFunction_on_def lua_bind_def read_module_def
          lua_return_def with_module_same module_of_def)
  next
    case True
    let ?m = "module_of L"
    let ?m' = "(if socketTableReferences ?m p \<noteq> None
               then ?m\<lparr>socketTableReferences := (socketTableReferences ?m)(p := None)\<rparr> else ?m)
              \<lparr>gcedSockets := insert p (gcedSockets ?m)\<rparr>"
    have "socketGCFunction_on ut L = call_method EvCloseNow p (L\<lparr>world := with_module ?m' (world L)\<rparr>)"
      using True one assms(2,3)
      by (simp add: socketGCFunction_on_def lua_bind_def read_module_def GetUserType_def with_value_def lua_return_def
          on_module_def)
    moreover have "socketGCFunction p ?m = call_socket EvCloseNow p ?m'"
      using True by (simp add: socketGCFunction_def Let_def)
    ultimately show ?thesis
      by (simp only: agrees_method' lua.simps) (rule agrees_method', simp add: with_module_def)
  qed
qed

definition socket_methods ::
  "(char \<Rightarrow> bool) \<Rightarrow> (char \<Rightarrow> bool) \<Rightarrow> 'x mstate lua_env \<Rightarrow> int \<Rightarrow> bool \<Rightarrow> int \<Rightarrow> lua_val \<Rightarrow> (nat \<Rightarrow> lua_val) \<Rightarrow>
   (cfun \<times> ('x mstate lua \<Rightarrow> (nat, 'x mstate) outcome) \<times> lua_call) list" where
  \<comment> \<open>the functions of a socket, each with what it runs and the call of \<open>Lua_Module\<close> that it is\<close>
  "socket_methods tc tx E ut spurious r s a =
     [(C_socketOpen, socketOpen_on E ut, CallOpen r s (a 2)),
      (C_socketWrite, socketWrite_on E ut spurious, CallWrite spurious s (a 2) (a 3)),
      (C_socketClose, socketClose_on E ut spurious, CallClose spurious s),
      (C_socketCloseNow, socketCloseNow_on E ut, CallCloseNow s),
      (C_socketSetCookie, socketSetCookie_on tc E ut, CallSetCookie s (a 2) (a 3)),
      (C_socketSetHeader, socketSetHeader_on tc tx E ut, CallSetHeader s (a 2) (a 3)),
      (C_socketSetMessageCompression, socketSetMessageCompression_on E ut, CallSetCompression s (a 2)),
      (C_socketSetDisableContextTakeover, socketSetDisableContextTakeover_on E ut, CallSetTakeover s (a 2)),
      (C_socketIsConnected, socketIsConnected_on E ut, CallIsConnected s),
      (C_socketClearQueue, socketClearQueue_on E ut, CallClearQueue s)]"

lemma socket_methods_registered:
  "map fst (socket_methods tc tx E ut spurious r s a) = map fst socket_functions"
  by (simp add: socket_methods_def socket_functions_def)

text \<open>
  C13. Each of the ten functions that the metatable of a socket offers through __index
  (open, write, close, closeNow, setCookie, setHeader, the two options, isConnected,
  clearQueue) does on the Lua stack what the model of the module says, for any first
  argument in which looking up __CppUserData raises no error and changes nothing, and any
  further arguments: the same error, the same result and the same change of the sockets,
  and open keeps a reference to the socket's table exactly when there is none. __tostring
  is not among them.
\<close>

theorem methods_refine:
  assumes L: "stack L = rev (self # params)" "get_field E self ''__CppUserData'' (world L) = (Inr x, world L)"
  shows "list_all (\<lambda>(f, run, c).
      agrees E ut mt (open_refs self c L) L (lua_step tc tx c (module_of L)) (run L))
    (socket_methods tc tx E ut spurious (new_ref E (world L)) (self_of ut x) (lua_arg (self # params)))"
proof -
  have "agrees E ut mt
      (open_refs self (CallOpen (new_ref E (world L)) (self_of ut x) (lua_arg (self # params) 2)) L) L
      (socketOpen (new_ref E (world L)) (self_of ut x) (lua_arg (self # params) 2) (module_of L)) (socketOpen_on E ut L)"
    by (rule socketOpen_agrees [OF L refl]) (simp add: open_refs_def)
  then show ?thesis
    using methods_agree [OF L refl refl refl refl] socketWrite_agrees [OF L refl]
    by (simp add: socket_methods_def open_refs_def)
qed

text \<open>
  C30. createWebSocket and the garbage collector's finalizer do on the Lua stack what the
  model of the module says, for any arguments and any collected socket.
\<close>

theorem constructor_and_finalizer_refine:
  assumes "stack L = rev args" "uint t = ut" "q \<noteq> 0"
  shows "agrees E ut mt (refs (world L)) L
      (lua_step tc tx (CreateWebSocket p (lua_arg args 1) (lua_arg args 2)) (module_of L)) (createWebSocket_on E ut mt p L)
    \<and> agrees E ut mt (refs (world L)) (L\<lparr>stack := [VUserdata t q]\<rparr>) (socketGCFunction q (module_of L))
        (socketGCFunction_on ut (L\<lparr>stack := [VUserdata t q]\<rparr>))"
proof -
  let ?L = "L\<lparr>stack := [VUserdata t q]\<rparr>"
  have "agrees E ut mt (refs (world ?L)) ?L (socketGCFunction q (module_of ?L)) (socketGCFunction_on ut ?L)"
    by (rule socketGCFunction_agrees [of _ _ _ "[]"]) (use assms(2,3) in simp_all)
  then show ?thesis
    using createWebSocket_agrees [OF assms(1)] by (simp add: module_of_def)
qed

subsection \<open>Witnesses\<close>

definition quiet_env :: "'w lua_env" where
  "quiet_env =
     \<lparr>index = (\<lambda>v k w. (Inr VNil, w)), newindex = (\<lambda>v k x w. (Inr (), w)),
      invoke = (\<lambda>f args w. (Inr [], w)), new_ref = (\<lambda>w. 1), new_type = (\<lambda>w. 45)\<rparr>"

definition sample_module :: lua_module where
  \<comment> \<open>one socket, at address 9\<close>
  "sample_module = module_opened
     \<lparr>heap := [9 \<mapsto> make_socket False True ''h'' 80 ''/''], allSockets := {9}, userdata := {9}\<rparr>"

definition sample_state :: "lua_value list \<Rightarrow> unit mstate lua" where
  \<comment> \<open>its table has address 1\<close>
  "sample_state args =
     \<lparr>stack = rev args,
      world = \<lparr>table_fields = (\<lambda>t. if t = 1 then [''__CppUserData'' \<mapsto> VUserdata 7 9] else Map.empty),
               metatables = Map.empty, next_table = 2, refs = Map.empty, type_names = Map.empty,
               types = Map.empty, rest = (sample_module, ())\<rparr>\<rparr>"

theorem methods_refine_witness:
  "list_all (\<lambda>(f, run, c).
      agrees quiet_env 7 8 (open_refs (VTable 1) c (sample_state [VTable 1, VBool True])) (sample_state [VTable 1, VBool True])
        (lua_step (\<lambda>c. True) (\<lambda>c. True) c sample_module) (run (sample_state [VTable 1, VBool True])))
    (socket_methods (\<lambda>c. True) (\<lambda>c. True) quiet_env 7 False 1 (LSocket 9) (lua_arg [VTable 1, VBool True]))"
proof -
  let ?L = "sample_state [VTable 1, VBool True]"
  have "get_field quiet_env (VTable 1) ''__CppUserData'' (world ?L) = (Inr (VUserdata 7 9), world ?L)"
    by (simp add: get_field_def sample_state_def)
  moreover have "stack ?L = rev (VTable 1 # [VBool True])" by (simp add: sample_state_def)
  ultimately show ?thesis
    using methods_refine [of ?L "VTable 1" "[VBool True]" quiet_env "VUserdata 7 9" 7 8 "\<lambda>c. True" "\<lambda>c. True" False]
    by (simp add: module_of_def sample_state_def self_of_def quiet_env_def)
qed

theorem constructor_and_finalizer_refine_witness:
  "agrees quiet_env 7 8 Map.empty (sample_state [VString ''ws://h/''])
      (createWebSocket 5 (LString ''ws://h/'') LNil sample_module)
      (createWebSocket_on quiet_env 7 8 5 (sample_state [VString ''ws://h/'']))
    \<and> agrees quiet_env 7 8 Map.empty (sample_state [VUserdata 7 9]) (socketGCFunction 9 sample_module)
      (socketGCFunction_on 7 (sample_state [VUserdata 7 9]))"
  using constructor_and_finalizer_refine [of "sample_state [VString ''ws://h/'']" "[VString ''ws://h/'']" 7 7 9 quiet_env 8]
  by (simp add: sample_state_def module_of_def lua_arg_def)

end
