(* ===== verification/Lua_Module_Inv.thy ===== *)
theory Lua_Module_Inv
  imports Lua_Module Socket_Runs Url_Parsed
begin

text \<open>
  The invariant of the module: which sockets are allocated, who owns them, which tables are
  kept in the registry, and that every step keeps all this and uses no stale pointer.
\<close>

subsection \<open>Single sockets\<close>

lemma obj_inv_mono: "obj_inv n d x \<Longrightarrow> n \<le> k \<Longrightarrow> obj_inv k d x"
  by (cases x) (auto intro: sock_inv_mono)

definition sound :: "nat \<Rightarrow> socket_obj \<Rightarrow> bool" where
  "sound n x \<longleftrightarrow> (\<exists>d. obj_inv n d x)"

lemma sound_mono: "sound n x \<Longrightarrow> n \<le> k \<Longrightarrow> sound k x"
  unfolding sound_def using obj_inv_mono by blast

lemma sound_new: "sound n (make_socket tls v h p pt)"
  unfolding sound_def using make_socket_inv obj_inv_mono by blast

lemma sound_step:
  assumes "sound n x" "n < 2 ^ 32 - 1" "client_ok e (base_of x)"
  shows "\<exists>y out. obj_step e x = Some (y, out) \<and> sound (Suc n) y"
proof -
  obtain d where "obj_inv n d x" using assms(1) by (auto simp: sound_def)
  from obj_step_inv [OF this assms(2,3)] show ?thesis by (auto simp: sound_def)
qed

lemma sound_idle:
  assumes "sound n x" "n < 2 ^ 32" "state (base_of x) = STATE_DISCONNECTED"
  shows "current_ops (base_of x) = []"
proof -
  obtain d where "obj_inv n d x" using assms(1) by (auto simp: sound_def)
  from base_phase [OF base_inv [OF this]] show ?thesis
    using assms(3) current_ops_empty [of "base_of x"] by (auto dest!: phase_idle)
qed

definition quiet :: "socket_obj \<Rightarrow> bool" where
  \<comment> \<open>disconnected, with no event to deliver\<close>
  "quiet x \<longleftrightarrow> state (base_of x) = STATE_DISCONNECTED \<and> backingQueue (messageQueue (base_of x)) = []"

lemma quiet_new: "quiet (make_socket tls v h p pt)"
  by (simp add: quiet_def make_socket_def new_websocket_def new_sslwebsocket_def new_gwsocket_def
      gwsocket.truncate_def gwsocket.extend_def empty_queue_def)

lemma stale_op:
  assumes "current_ops s = []" "i < length (pending s)"
  shows "fst (pending s ! i) \<noteq> generation s"
proof
  assume "fst (pending s ! i) = generation s"
  moreover have "pending s ! i \<in> set (pending s)" using assms(2) by simp
  ultimately have "snd (pending s ! i) \<in> set (current_ops s)"
    by (force simp: current_ops_def)
  with assms(1) show False by simp
qed

definition opens :: "sock_event \<Rightarrow> bool" where
  "opens e = (case e of EvOpen _ \<Rightarrow> True | _ \<Rightarrow> False)"

lemma quiet_class_step:
  fixes s :: "'a gwsocket_scheme"
  assumes "state s = STATE_DISCONNECTED" "current_ops s = []" "backingQueue (messageQueue s) = []"
    and "sock_step K e s = Some (t, out)" "\<not> opens e"
    and "\<And>err. snd (c_verifyCertificate K err s) = s
      \<or> (\<exists>msg. snd (c_verifyCertificate K err s) = snd (errorConnection (v_closeSocket K) msg s))"
  shows "state t = STATE_DISCONNECTED \<and> backingQueue (messageQueue t) = []"
proof (cases e)
  case (EvComplete i spurious params_ok ec)
  obtain g op where "i < length (pending s) \<longrightarrow> pending s ! i = (g, op)" by (cases "pending s ! i") auto
  with EvComplete assms(1-4) stale_op [OF assms(2), of i] show ?thesis
    by (auto simp: complete_def guardGeneration_def split: if_split_asm)
next
  case (EvVerify err)
  have "snd (errorConnection (v_closeSocket K) msg s) = s" for msg
    using assms(1) by (simp add: errorConnection_def set_disconnecting_alone)
  with EvVerify assms show ?thesis by (auto split: if_split_asm)
qed (use assms in \<open>auto simp: opens_def gw_close_def gw_write_def closeNow_def set_disconnecting_alone checkWriting_def
      clearQueue_def setPerMessageDeflate_def setDisableContextTakeover_def bq_clear_def Let_def split: if_split_asm\<close>)

lemma quiet_step:
  assumes "quiet x" "sound n x" "n < 2 ^ 32" "obj_step e x = Some (y, out)" "\<not> opens e"
  shows "quiet y"
proof (cases x)
  case (Plain s)
  have ops: "current_ops s = []" using sound_idle [OF assms(2,3)] assms(1) Plain
    by (simp add: quiet_def current_ops_def gwsocket.truncate_def)
  from assms(4) Plain obtain t where t: "sock_step WebSocket_class e s = Some (t, out)" "y = Plain t" by auto
  show ?thesis
    using quiet_class_step [OF _ ops _ t(1) assms(5)] assms(1) t(2) Plain
    by (simp add: quiet_def gwsocket.truncate_def)
next
  case (Tls s)
  have ops: "current_ops s = []" using sound_idle [OF assms(2,3)] assms(1) Tls
    by (simp add: quiet_def current_ops_def gwsocket.truncate_def)
  from assms(4) Tls obtain t where t: "sock_step SSLWebSocket_class e s = Some (t, out)" "y = Tls t" by auto
  have "snd (ssl_verify_callback err s) = s
      \<or> (\<exists>msg. snd (ssl_verify_callback err s) = snd (errorConnection ssl_closeSocket msg s))" for err
    by (auto simp: ssl_verify_callback_def verifyCertificate_def split: option.splits)
  then show ?thesis
    using quiet_class_step [OF _ ops _ t(1) assms(5)] assms(1) t(2) Tls
    by (simp add: quiet_def gwsocket.truncate_def)
qed

lemma sock_inv_fields:
  "sock_inv has_ws tls n d (s\<lparr>cookies := c\<rparr>) = sock_inv has_ws tls n d s"
  "sock_inv has_ws tls n d (s\<lparr>headers := c\<rparr>) = sock_inv has_ws tls n d s"
  by (simp_all add: sock_inv_def core_inv_def idle_queue_ok_def gens_ok_def phase_ok_def n_of_def
      current_ops_def reports_def n_opens_def n_disconnects_def)

lemma set_fields_sound:
  "sound n x \<Longrightarrow> sound n (fst (obj_set_cookie tc k v x))"
  "sound n x \<Longrightarrow> sound n (fst (obj_set_header tc tx k v x))"
  by (cases x; auto simp: sound_def setCookie_def setHeader_def sock_inv_fields)+

lemma set_fields_quiet:
  "quiet x \<Longrightarrow> quiet (fst (obj_set_cookie tc k v x))"
  "quiet x \<Longrightarrow> quiet (fst (obj_set_header tc tx k v x))"
  by (cases x; auto simp: quiet_def setCookie_def setHeader_def gwsocket.truncate_def)+
subsection \<open>The invariant\<close>

definition sockets_ok :: "nat \<Rightarrow> lua_module \<Rightarrow> bool" where
  "sockets_ok n m \<longleftrightarrow> (\<forall>p x. heap m p = Some x \<longrightarrow> sound n x)"

definition owned :: "lua_module \<Rightarrow> bool" where
  \<comment> \<open>a socket belongs to Lua or waits for its deletion; a table is kept exactly while there may
     be events to deliver\<close>
  "owned m \<longleftrightarrow>
     userdata m \<union> gcedSockets m = allSockets m \<and> userdata m \<inter> gcedSockets m = {}
     \<and> (\<forall>r p. registry m r = Some p \<longleftrightarrow> socketTableReferences m p = Some r)
     \<and> dom (socketTableReferences m) \<subseteq> userdata m
     \<and> (\<forall>p x. p \<in> userdata m \<longrightarrow> socketTableReferences m p = None \<longrightarrow> heap m p = Some x \<longrightarrow> quiet x)"

definition to_dispatch :: "lua_module \<Rightarrow> (ptr \<times> int) list" where
  "to_dispatch m =
     (case stage m of
        Dispatching es (Some (p, r, _)) \<Rightarrow> (p, r) # es
      | Dispatching es None \<Rightarrow> es
      | _ \<Rightarrow> [])"

definition mod_inv :: "nat \<Rightarrow> lua_module \<Rightarrow> bool" where
  "mod_inv n m \<longleftrightarrow>
     sockets_ok n m \<and> dom (heap m) = allSockets m \<and> orphans m = []
     \<and> dom (socketTableReferences m) \<subseteq> allSockets m
     \<and> moduleOpen m = (stage m \<noteq> Closing \<and> stage m \<noteq> Closed)
     \<and> (moduleOpen m \<longrightarrow> owned m)
     \<and> distinct (map fst (to_dispatch m))
     \<and> (\<forall>(p, r)\<in>set (to_dispatch m). socketTableReferences m p = Some r)
     \<and> (stage m = Closed \<longrightarrow> allSockets m = {})"

lemma sockets_ok_update:
  assumes "sockets_ok n m" "sound k y" "n \<le> k"
  shows "sockets_ok k (m\<lparr>heap := (heap m)(p \<mapsto> y)\<rparr>)"
  unfolding sockets_ok_def
proof (intro allI impI)
  fix q x
  assume "heap (m\<lparr>heap := (heap m)(p \<mapsto> y)\<rparr>) q = Some x"
  then have "q = p \<and> x = y \<or> heap m q = Some x" by (auto split: if_split_asm)
  then show "sound k x" using assms sound_mono unfolding sockets_ok_def by blast
qed

lemma sockets_ok_mono: "sockets_ok n m \<Longrightarrow> n \<le> k \<Longrightarrow> sockets_ok k m"
  unfolding sockets_ok_def using sound_mono by blast

lemma mod_inv_mono: "mod_inv n m \<Longrightarrow> n \<le> k \<Longrightarrow> mod_inv k m"
  unfolding mod_inv_def using sockets_ok_mono by blast

lemma allocated:
  assumes "mod_inv n m" "p \<in> allSockets m"
  obtains x where "heap m p = Some x" "sound n x"
proof -
  have "p \<in> dom (heap m)" using assms by (simp add: mod_inv_def)
  with that assms(1) show thesis unfolding mod_inv_def sockets_ok_def by blast
qed

text \<open>A socket changes, and stays quiet if it has no table in the registry.\<close>

lemma heap_update_inv:
  assumes "mod_inv n m" "heap m p = Some x" "sound k y" "n \<le> k"
    and "quiet x \<longrightarrow> quiet y \<or> socketTableReferences m p \<noteq> None"
  shows "mod_inv k (m\<lparr>heap := (heap m)(p \<mapsto> y)\<rparr>)"
proof -
  have "p \<in> dom (heap m)" using assms(2) by blast
  then have d: "dom ((heap m)(p \<mapsto> y)) = dom (heap m)" by auto
  have "owned m \<longrightarrow> owned (m\<lparr>heap := (heap m)(p \<mapsto> y)\<rparr>)"
    using assms(2,5) by (auto simp: owned_def)
  moreover have "to_dispatch (m\<lparr>heap := (heap m)(p \<mapsto> y)\<rparr>) = to_dispatch m"
    by (simp add: to_dispatch_def)
  ultimately show ?thesis
    using assms(1) sockets_ok_update [OF _ assms(3,4)] d by (simp add: mod_inv_def)
qed

lemma on_socket_step:
  assumes "mod_inv n m" "n < 2 ^ 32 - 1" "heap m p = Some x" "client_ok e (base_of x)"
    and "opens e \<longrightarrow> socketTableReferences m p \<noteq> None"
  obtains y out where "obj_step e x = Some (y, out)"
    "on_socket p (obj_step e) m = Some (m\<lparr>heap := (heap m)(p \<mapsto> y)\<rparr>, out)"
    "mod_inv (Suc n) (m\<lparr>heap := (heap m)(p \<mapsto> y)\<rparr>)"
proof -
  have x: "sound n x" using assms(1,3) by (simp add: mod_inv_def sockets_ok_def)
  from sound_step [OF x assms(2,4)] obtain y out where y: "obj_step e x = Some (y, out)" "sound (Suc n) y" by blast
  have "quiet x \<longrightarrow> quiet y \<or> socketTableReferences m p \<noteq> None"
    using quiet_step [OF _ x _ y(1)] assms(2,5) by auto
  with heap_update_inv [OF assms(1,3) y(2)] y(1) that [OF y(1)] assms(3) show thesis
    by (simp add: on_socket_def)
qed

definition fine :: "nat \<Rightarrow> mod_res \<Rightarrow> bool" where
  \<comment> \<open>a defined result in which the invariant holds\<close>
  "fine n r \<longleftrightarrow> (\<exists>m out. r = Some (m, out) \<and> mod_inv n m)"

lemma fine_Some [simp]: "fine n (Some (m, out)) \<longleftrightarrow> mod_inv n m"
  by (auto simp: fine_def)

lemma fine_error [intro]: "mod_inv n m \<Longrightarrow> fine (Suc n) (lua_error msg m)"
  by (auto simp: lua_error_def intro: mod_inv_mono)

lemma call_socket_fine:
  assumes "mod_inv n m" "n < 2 ^ 32 - 1" "p \<in> allSockets m"
    and "\<And>x. heap m p = Some x \<Longrightarrow> client_ok e (base_of x)"
    and "opens e \<longrightarrow> socketTableReferences m p \<noteq> None"
  shows "fine (Suc n) (call_socket e p m)"
proof -
  from allocated [OF assms(1,3)] obtain x where x: "heap m p = Some x" by blast
  from on_socket_step [OF assms(1,2) x assms(4) [OF x] assms(5)] obtain y out where
    "on_socket p (obj_step e) m = Some (m\<lparr>heap := (heap m)(p \<mapsto> y)\<rparr>, out)"
    "mod_inv (Suc n) (m\<lparr>heap := (heap m)(p \<mapsto> y)\<rparr>)" .
  then show ?thesis by (simp add: call_socket_def)
qed

lemma client_ok_other [simp]:
  "client_ok EvCloseNow s" "client_ok (EvClose b) s" "client_ok EvClearQueue s" "client_ok (EvSetDeflate b) s"
  "client_ok (EvSetTakeover b) s" "client_ok EvPoll s" "client_ok (EvOpen b) s"
  by (simp_all add: client_ok_def)

lemma opens_simps [simp]:
  "opens (EvOpen b)" "\<not> opens EvCloseNow" "\<not> opens (EvClose b)" "\<not> opens EvClearQueue" "\<not> opens (EvSetDeflate b)"
  "\<not> opens (EvSetTakeover b)" "\<not> opens EvPoll" "\<not> opens (EvWrite b t c)"
  by (simp_all add: opens_def)

lemma client_ok_write: "client_ok (EvWrite b t c) s = client_ok (EvWrite False [] False) s"
  by (simp add: client_ok_def)

text \<open>The guards that the functions begin with.\<close>

lemma getCppObject_fine:
  assumes "mod_inv n m" "self_ok self m" "moduleOpen m"
    and "\<And>p. self = LSocket p \<Longrightarrow> p \<in> allSockets m \<Longrightarrow> p \<in> userdata m \<Longrightarrow> fine (Suc n) (k p m)"
  shows "fine (Suc n) (getCppObject self k m)"
proof (cases self)
  case (LSocket p)
  moreover have "userdata m \<subseteq> allSockets m" using assms(1,3) by (auto simp: mod_inv_def owned_def)
  ultimately show ?thesis using assms(2,4) by (auto simp: getCppObject_def self_ok_def)
qed (use assms(1) in \<open>auto simp: getCppObject_def\<close>)

lemma checkString_fine:
  "mod_inv n m \<Longrightarrow> (\<And>s. v = LString s \<Longrightarrow> fine (Suc n) (k s m)) \<Longrightarrow> fine (Suc n) (checkString v k m)"
  by (auto simp: checkString_def split: lua_val.split)

lemma checkBool_fine:
  "mod_inv n m \<Longrightarrow> (\<And>b. v = LBool b \<Longrightarrow> fine (Suc n) (k b m)) \<Longrightarrow> fine (Suc n) (checkBool v k m)"
  by (auto simp: checkBool_def split: lua_val.split)

lemma if_disconnected_fine:
  assumes "mod_inv n m" "p \<in> allSockets m" "fine (Suc n) (k p m)"
  shows "fine (Suc n) (if_disconnected msg k p m)"
proof -
  from allocated [OF assms(1,2)] obtain x where "heap m p = Some x" by blast
  with assms(1,3) show ?thesis by (auto simp: if_disconnected_def read_state_def)
qed

lemma set_field_fine:
  assumes "mod_inv n m" "p \<in> allSockets m" "\<And>x. sound n x \<Longrightarrow> sound n (fst (f x))"
    "\<And>x. quiet x \<Longrightarrow> quiet (fst (f x))"
  shows "fine (Suc n) (set_field msg f p m)"
proof -
  from allocated [OF assms(1,2)] obtain x where x: "heap m p = Some x" "sound n x" by blast
  obtain y ok where y: "f x = (y, ok)" by (cases "f x")
  have "sound (Suc n) y" using assms(3) [OF x(2)] y sound_mono [of n y "Suc n"] by simp
  moreover have "quiet x \<longrightarrow> quiet y \<or> socketTableReferences m p \<noteq> None" using assms(4) [of x] y by simp
  ultimately have "mod_inv (Suc n) (m\<lparr>heap := (heap m)(p \<mapsto> y)\<rparr>)"
    using heap_update_inv [OF assms(1) x(1)] by simp
  then show ?thesis by (simp add: set_field_def on_socket_def x y lua_error_def)
qed

lemmas guard_rules = getCppObject_fine checkString_fine checkBool_fine if_disconnected_fine

lemma parse_url_parsed: "parse_url u = Ret v \<Longrightarrow> m_parse v"
  by (auto simp: parse_url_def clear_def Let_def split: if_split_asm)

definition url_port :: "bool \<Rightarrow> url \<Rightarrow> int exec" where
  "url_port useSSL u = (if m_port u = [] then Ret (if useSSL then 443 else 80) else stoi (m_port u))"

definition url_ssl :: "url \<Rightarrow> bool" where
  "url_ssl u \<longleftrightarrow> m_scheme u = ''https'' \<or> m_scheme u = ''wss''"

text \<open>The URL is parsed once, by the first getter.\<close>

lemma createWebSocketFromURL_parsed:
  "createWebSocketFromURL s v =
     exec_bind (parse_url (url_of_string s)) (\<lambda>u.
     exec_bind (url_port (url_ssl u) u) (\<lambda>n.
     if m_host u = [] then Throw (parse_error ''Invalid url passed. Make sure it includes a scheme'')
     else Ret (make_socket (url_ssl u) v (m_host u) (word_of_int n) (if m_path u = [] then ''/'' else m_path u))))"
proof -
  have "lazy_parse (url_of_string s) = parse_url (url_of_string s)"
    by (simp add: lazy_parse_def url_of_string_def)
  moreover have "lazy_parse u = Ret u" if "parse_url (url_of_string s) = Ret u" for u
    using parse_url_parsed [OF that] by (simp add: lazy_parse_def)
  ultimately show ?thesis
    unfolding createWebSocketFromURL_def get_host_def get_path_def get_scheme_def get_port_def get_def
    by (cases "parse_url (url_of_string s)")
       (simp_all add: exec_bind_assoc Let_def url_port_def url_ssl_def)
qed

lemma createWebSocketFromURL_Ret:
  "createWebSocketFromURL s v = Ret x \<Longrightarrow> \<exists>tls v h p pt. x = make_socket tls v h p pt"
  unfolding createWebSocketFromURL_parsed exec_bind_Ret_iff by (metis exec.distinct(1) exec.inject(1))

lemma createWebSocketFromURL_defined:
  "parse_url (url_of_string s) \<noteq> UB \<Longrightarrow> createWebSocketFromURL s v \<noteq> UB"
  unfolding createWebSocketFromURL_parsed by (auto simp: url_port_def stoi_def Let_def)

subsection \<open>Every step keeps the invariant\<close>

lemma dispatch_entries: "mod_inv n m \<Longrightarrow> (p, r) \<in> set (to_dispatch m) \<Longrightarrow> socketTableReferences m p = Some r"
  unfolding mod_inv_def by blast

lemma create_fine:
  assumes "mod_inv n m" "moduleOpen m" "call_ok (CreateWebSocket p a b) m"
  shows "fine (Suc n) (createWebSocket p a b m)"
  unfolding createWebSocket_def
proof (rule checkString_fine [OF assms(1)])
  fix s assume a: "a = LString s"
  let ?r = "createWebSocketFromURL (c_str s) (opt_bool True b)"
  have "?r \<noteq> UB"
    using assms(3) a by (intro createWebSocketFromURL_defined) (simp add: url_ok_arg_def)
  moreover have "mod_inv (Suc n) (m\<lparr>heap := (heap m)(p \<mapsto> x), allSockets := insert p (allSockets m),
      userdata := insert p (userdata m)\<rparr>)" if r: "?r = Ret x" for x
  proof -
    let ?m = "m\<lparr>heap := (heap m)(p \<mapsto> x), allSockets := insert p (allSockets m), userdata := insert p (userdata m)\<rparr>"
    obtain tls v h q pt where x: "x = make_socket tls v h q pt"
      using createWebSocketFromURL_Ret [OF r] by blast
    have new: "heap m p = None" "p \<notin> userdata m" "p \<notin> allSockets m" "p \<notin> gcedSockets m"
    proof -
      show "heap m p = None" "p \<notin> userdata m" using assms(3) by simp_all
      then show "p \<notin> allSockets m" using assms(1) unfolding mod_inv_def by blast
      then show "p \<notin> gcedSockets m" using assms(1,2) unfolding mod_inv_def owned_def by blast
    qed
    have "sockets_ok (Suc n) ?m"
      using sockets_ok_update [OF _ sound_new, of n m "Suc n"] assms(1) x by (simp add: mod_inv_def sockets_ok_def)
    moreover have "owned ?m"
      using assms(1,2) new quiet_new x by (auto simp: mod_inv_def owned_def)
    moreover have "to_dispatch ?m = to_dispatch m" by (simp add: to_dispatch_def)
    ultimately show ?thesis
      using assms(1,2) by (auto simp: mod_inv_def)
  qed
  ultimately show "fine (Suc n) (case ?r of
         Ret x \<Rightarrow>
           (let m = m\<lparr>heap := (heap m)(p \<mapsto> x)\<rparr>;
                m = m\<lparr>allSockets := insert p (allSockets m)\<rparr>;
                m = m\<lparr>userdata := insert p (userdata m)\<rparr>
            in Some (m, [Created p]))
       | Throw (parse_error _) \<Rightarrow> Some (m, [NoHalt bad_url_message])
       | Throw e \<Rightarrow> Some (m, [Uncaught e])
       | UB \<Rightarrow> None)"
    using mod_inv_mono [OF assms(1), of "Suc n"] by (auto split: exec.split url_exn.split)
qed

lemma add_reference_inv:
  assumes "mod_inv n m" "moduleOpen m" "p \<in> userdata m" "registry m r = None" "socketTableReferences m p = None"
  shows "mod_inv n (m\<lparr>registry := (registry m)(r \<mapsto> p),
                      socketTableReferences := (socketTableReferences m)(p \<mapsto> r)\<rparr>)"
proof -
  let ?m = "m\<lparr>registry := (registry m)(r \<mapsto> p), socketTableReferences := (socketTableReferences m)(p \<mapsto> r)\<rparr>"
  have o: "owned m" using assms(1,2) by (simp add: mod_inv_def)
  have free: "socketTableReferences m q \<noteq> Some r" for q using o assms(4) unfolding owned_def by (metis option.distinct(1))
  have "owned ?m"
    unfolding owned_def
  proof (intro conjI)
    show "\<forall>r q. registry ?m r = Some q \<longleftrightarrow> socketTableReferences ?m q = Some r"
      using o assms(4,5) free unfolding owned_def by (auto split: if_split_asm)
  qed (use o assms(3) in \<open>auto simp: owned_def\<close>)
  moreover have "to_dispatch ?m = to_dispatch m" by (simp add: to_dispatch_def)
  moreover have "\<forall>(q, k)\<in>set (to_dispatch m). socketTableReferences ?m q = Some k"
    using dispatch_entries [OF assms(1)] assms(5) by fastforce
  moreover have "p \<in> allSockets m" using o assms(3) by (auto simp: owned_def)
  ultimately show ?thesis
    using assms(1) by (simp add: mod_inv_def sockets_ok_def)
qed

lemma open_fine:
  assumes "mod_inv n m" "n < 2 ^ 32 - 1" "moduleOpen m" "self_ok s m" "registry m r = None"
  shows "fine (Suc n) (socketOpen r s a m)"
  unfolding socketOpen_def
proof (intro getCppObject_fine [OF assms(1,4,3)] if_disconnected_fine [OF assms(1)])
  fix p assume p: "p \<in> allSockets m" "p \<in> userdata m"
  let ?m = "if socketTableReferences m p = None
            then m\<lparr>registry := (registry m)(r \<mapsto> p), socketTableReferences := (socketTableReferences m)(p \<mapsto> r)\<rparr>
            else m"
  have "mod_inv n ?m" using add_reference_inv [OF assms(1,3) p(2) assms(5)] assms(1) by simp
  then have "fine (Suc n) (call_socket (EvOpen (opt_bool True a)) p ?m)"
    using p assms(2) by (intro call_socket_fine) simp_all
  then show "fine (Suc n) (let m = ?m in call_socket (EvOpen (opt_bool True a)) p m)" by simp
qed

lemma lua_step_fine:
  assumes "mod_inv n m" "n < 2 ^ 32 - 1" "moduleOpen m" "call_ok c m"
  shows "fine (Suc n) (lua_step tc tx c m)"
proof (cases c)
  case (CreateWebSocket p a b)
  with assms create_fine show ?thesis by simp
next
  case (CallOpen r s a)
  with assms open_fine show ?thesis by simp
next
  case (CallWrite spurious s a b)
  have "client_ok (EvWrite spurious t v) (base_of x)"
    if "s = LSocket p" "heap m p = Some x" for p x t v
    using that assms(4) CallWrite by (simp add: write_ok_def client_ok_write [of spurious])
  then show ?thesis
    using assms CallWrite
    by (auto simp: socketWrite_def intro!: guard_rules call_socket_fine)
next
  case (CallIsConnected s)
  have "fine (Suc n) (map_option (\<lambda>st. (m, [Returned (st = STATE_CONNECTED)])) (read_state p m))"
    if "p \<in> allSockets m" for p
  proof -
    from allocated [OF assms(1) that] obtain x where "heap m p = Some x" by blast
    then show ?thesis using mod_inv_mono [OF assms(1), of "Suc n"] by (simp add: read_state_def)
  qed
  with assms CallIsConnected show ?thesis
    by (auto simp: socketIsConnected_def intro!: getCppObject_fine)
qed (use assms in \<open>auto simp: socketClose_def socketCloseNow_def socketClearQueue_def socketSetCookie_def
      socketSetHeader_def socketSetMessageCompression_def socketSetDisableContextTakeover_def
      intro!: guard_rules call_socket_fine set_field_fine set_fields_sound set_fields_quiet\<close>)

lemma lua_running_open: "mod_inv n m \<Longrightarrow> lua_running m \<Longrightarrow> moduleOpen m"
  by (auto simp: mod_inv_def lua_running_def split: stage.splits)

lemma collect_fine:
  assumes "mod_inv n m" "n < 2 ^ 32 - 1" "p \<in> userdata m" "moduleOpen m" "p \<notin> ran (registry m)"
  shows "fine (Suc n) (socketGCFunction p (m\<lparr>userdata := userdata m - {p}\<rparr>))"
proof -
  let ?m = "m\<lparr>userdata := userdata m - {p}\<rparr>"
  let ?g = "?m\<lparr>gcedSockets := insert p (gcedSockets m)\<rparr>"
  have o: "owned m" using assms(1,4) by (simp add: mod_inv_def)
  have r: "socketTableReferences m p = None"
    using o assms(5) by (cases "socketTableReferences m p") (auto simp: owned_def ran_def)
  have "owned ?g" using o assms(3) r by (auto simp: owned_def)
  moreover have "to_dispatch ?g = to_dispatch m" by (simp add: to_dispatch_def)
  ultimately have "mod_inv n ?g" using assms(1) by (simp add: mod_inv_def sockets_ok_def)
  then have "fine (Suc n) (call_socket EvCloseNow p ?g)"
    using o assms(2,3) by (intro call_socket_fine) (auto simp: owned_def)
  then show ?thesis using assms(4) r by (simp add: socketGCFunction_def)
qed

lemma sweep_result:
  assumes "mod_inv n m" "distinct ps" "set ps \<subseteq> gcedSockets m" "moduleOpen m" "drained m"
  shows "\<exists>m'. sweep ps m = Some m' \<and> mod_inv n m' \<and> moduleOpen m' \<and> stage m' = stage m
    \<and> socketTableReferences m' = socketTableReferences m \<and> userdata m' = userdata m
    \<and> gcedSockets m' = gcedSockets m - {p \<in> set ps. read_state p m = Some STATE_DISCONNECTED}
    \<and> heap m' = (\<lambda>p. if p \<in> set ps \<and> read_state p m = Some STATE_DISCONNECTED then None else heap m p)"
  using assms
proof (induction ps arbitrary: m)
  case (Cons p ps)
  have o: "owned m" using Cons.prems(1,4) by (simp add: mod_inv_def)
  then have p: "p \<in> allSockets m" "p \<notin> userdata m" "p \<in> gcedSockets m" using Cons.prems(3) by (auto simp: owned_def)
  then obtain x where x: "heap m p = Some x" using allocated [OF Cons.prems(1)] by blast
  show ?case
  proof (cases "state (base_of x) = STATE_DISCONNECTED")
    case True
    let ?m = "m\<lparr>allSockets := allSockets m - {p}, heap := (heap m)(p := None), gcedSockets := gcedSockets m - {p}\<rparr>"
    have "pending (base_of x) = []" using Cons.prems(5) p(3) x True by (auto simp: drained_def)
    then have step: "sweep (p # ps) m = sweep ps ?m"
      using True x by (simp add: read_state_def delete_socket_def)
    have "p \<notin> dom (socketTableReferences m)" using o p(2) by (auto simp: owned_def)
    then have inv: "mod_inv n ?m"
      using Cons.prems(1,4) o p(2) by (auto simp: mod_inv_def owned_def sockets_ok_def to_dispatch_def)
    have pre: "distinct ps" "set ps \<subseteq> gcedSockets ?m" "moduleOpen ?m" "drained ?m"
      using Cons.prems(2-5) by (auto simp: drained_def)
    have rs: "q \<in> set ps \<and> read_state q ?m = Some STATE_DISCONNECTED \<longleftrightarrow>
        q \<in> set ps \<and> read_state q m = Some STATE_DISCONNECTED" for q
      using Cons.prems(2) by (auto simp: read_state_def)
    obtain m' where m': "sweep ps ?m = Some m'" "mod_inv n m'" "moduleOpen m'" "stage m' = stage m"
        "socketTableReferences m' = socketTableReferences m" "userdata m' = userdata m"
        "gcedSockets m' = gcedSockets m - {p} - {q \<in> set ps. read_state q m = Some STATE_DISCONNECTED}"
        "heap m' = (\<lambda>q. if q \<in> set ps \<and> read_state q m = Some STATE_DISCONNECTED then None else heap ?m q)"
      using Cons.IH [OF inv pre] unfolding rs by auto
    then show ?thesis
      using step True x by (auto simp: read_state_def fun_eq_iff)
  next
    case False
    then have "sweep (p # ps) m = sweep ps m" using x by (simp add: read_state_def)
    moreover have "read_state p m \<noteq> Some STATE_DISCONNECTED" using False x by (simp add: read_state_def)
    ultimately show ?thesis
      using Cons.IH [OF Cons.prems(1)] Cons.prems(2-5) by (auto simp: fun_eq_iff)
  qed
qed simp

lemma sound_poll:
  assumes "sound n x" "obj_step EvPoll x = Some (y, out)"
  shows "sound n y"
proof -
  obtain d where d: "obj_inv n d x" using assms(1) by (auto simp: sound_def)
  show ?thesis
  proof (cases x)
    case (Plain s)
    with d assms(2) plain.poll_inv [of n d s] show ?thesis by (auto simp: sound_def bq_clear_def)
  next
    case (Tls s)
    with d assms(2) tls.poll_inv [of n d s] show ?thesis by (auto simp: sound_def bq_clear_def)
  qed
qed

lemma poll_step:
  "\<exists>y. obj_step EvPoll x = Some (y, backingQueue (messageQueue (base_of x)))
     \<and> state (base_of y) = state (base_of x) \<and> backingQueue (messageQueue (base_of y)) = []"
  by (cases x) (simp_all add: bq_clear_def gwsocket.truncate_def)

lemma free_reference_inv:
  assumes "mod_inv n m" "moduleOpen m" "socketTableReferences m p = Some r" "p \<notin> fst ` set (to_dispatch m)"
    and "\<And>x. heap m p = Some x \<Longrightarrow> quiet x"
  shows "mod_inv n (m\<lparr>registry := (registry m)(r := None),
                      socketTableReferences := (socketTableReferences m)(p := None)\<rparr>)"
proof -
  let ?m = "m\<lparr>registry := (registry m)(r := None), socketTableReferences := (socketTableReferences m)(p := None)\<rparr>"
  have o: "owned m" using assms(1,2) by (simp add: mod_inv_def)
  have inv: "registry m k = Some q \<longleftrightarrow> socketTableReferences m q = Some k" for k q
    using o unfolding owned_def by blast
  have own: "owned ?m"
    unfolding owned_def
  proof (intro conjI)
    show "\<forall>k q. registry ?m k = Some q \<longleftrightarrow> socketTableReferences ?m q = Some k"
      using inv assms(3) by (auto split: if_split_asm) (metis option.inject)+
    show "\<forall>q x. q \<in> userdata ?m \<longrightarrow> socketTableReferences ?m q = None \<longrightarrow> heap ?m q = Some x \<longrightarrow> quiet x"
      using o assms(5) by (auto simp: owned_def)
  qed (use o in \<open>auto simp: owned_def\<close>)
  moreover have "to_dispatch ?m = to_dispatch m" by (simp add: to_dispatch_def)
  moreover have "\<forall>(q, k)\<in>set (to_dispatch m). socketTableReferences ?m q = Some k"
    using dispatch_entries [OF assms(1)] assms(4) by force
  ultimately show ?thesis
    using assms(1) by (auto simp: mod_inv_def sockets_ok_def)
qed

lemma stage_inv:
  assumes "mod_inv n m" "moduleOpen m" "st \<noteq> Closing" "st \<noteq> Closed"
    and "to_dispatch (m\<lparr>stage := st\<rparr>) = drop k (to_dispatch m)"
  shows "mod_inv n (m\<lparr>stage := st\<rparr>)"
proof -
  have "owned (m\<lparr>stage := st\<rparr>) = owned m" by (simp add: owned_def)
  moreover have "distinct (map fst (drop k (to_dispatch m)))"
    using assms(1) by (simp add: mod_inv_def flip: drop_map)
  moreover have "\<forall>(p, r)\<in>set (drop k (to_dispatch m)). socketTableReferences m p = Some r"
    using dispatch_entries [OF assms(1)] by (auto dest: in_set_dropD)
  ultimately show ?thesis
    using assms by (simp add: mod_inv_def sockets_ok_def)
qed

lemma next_entry_fine:
  assumes "mod_inv n m" "n < 2 ^ 32" "stage m = Dispatching ((p, r) # es) None"
  shows "fine (n) (next_entry p r es m)"
proof -
  have open_m: "moduleOpen m" using assms(1,3) by (simp add: mod_inv_def)
  have td: "to_dispatch m = (p, r) # es" using assms(3) by (simp add: to_dispatch_def)
  have ref: "socketTableReferences m p = Some r" using dispatch_entries [OF assms(1), of p r] td by simp
  have o: "owned m" using assms(1) open_m by (simp add: mod_inv_def)
  then have reg: "registry m r = Some p" using ref by (simp add: owned_def)
  have "p \<in> allSockets m" using assms(1) ref by (auto simp: mod_inv_def)
  then obtain x where x: "heap m p = Some x" using allocated [OF assms(1)] by blast
  obtain y where y: "obj_step EvPoll x = Some (y, backingQueue (messageQueue (base_of x)))"
      "backingQueue (messageQueue (base_of y)) = []"
    using poll_step [of x] by blast
  let ?m = "m\<lparr>heap := (heap m)(p \<mapsto> y)\<rparr>"
  have inv: "mod_inv n ?m"
  proof (rule heap_update_inv [OF assms(1) x])
    have "sound n x" using assms(1) x by (simp add: mod_inv_def sockets_ok_def)
    then show "sound n y" using sound_poll y(1) by blast
    then show "quiet x \<longrightarrow> quiet y \<or> socketTableReferences m p \<noteq> None" using ref by simp
  qed simp
  have step: "next_entry p r es m =
    (if backingQueue (messageQueue (base_of x)) = [] \<and> state (base_of y) \<noteq> STATE_DISCONNECTED
     then Some (?m\<lparr>stage := Dispatching es None\<rparr>, [])
     else if backingQueue (messageQueue (base_of x)) \<noteq> []
     then Some (?m\<lparr>stage := Dispatching es (Some (p, r, backingQueue (messageQueue (base_of x))))\<rparr>, [])
     else Some (?m\<lparr>stage := Dispatching es None, registry := (registry m)(r := None),
                  socketTableReferences := (socketTableReferences m)(p := None)\<rparr>, []))"
    using x y(1) reg by (simp add: next_entry_def on_socket_def read_state_def)
  have skip: "mod_inv (n) (?m\<lparr>stage := Dispatching es None\<rparr>)"
    by (rule stage_inv [OF inv, of _ 1]) (use td open_m in \<open>simp_all add: to_dispatch_def\<close>)
  moreover have "mod_inv (n) (?m\<lparr>stage := Dispatching es (Some (p, r, ms))\<rparr>)" for ms
    by (rule stage_inv [OF inv, of _ 0]) (use td open_m in \<open>simp_all add: to_dispatch_def\<close>)
  moreover have "mod_inv (n) (?m\<lparr>stage := Dispatching es None, registry := (registry m)(r := None),
                  socketTableReferences := (socketTableReferences m)(p := None)\<rparr>)"
    if "state (base_of y) = STATE_DISCONNECTED"
  proof -
    have "p \<notin> fst ` set es" using assms(1) td by (simp add: mod_inv_def)
    moreover have "to_dispatch (?m\<lparr>stage := Dispatching es None\<rparr>) = es" by (simp add: to_dispatch_def)
    ultimately show ?thesis
      using free_reference_inv [OF skip, of p r] open_m ref that y(2) by (simp add: quiet_def)
  qed
  ultimately show ?thesis unfolding step by simp
qed

lemma dispatch_fine:
  assumes "mod_inv n m" "n < 2 ^ 32"
  shows "fine (n) (dispatch m)"
proof (cases "stage m")
  case (Dispatching es cur)
  have o: "moduleOpen m" using assms(1) Dispatching by (simp add: mod_inv_def)
  have inv: "mod_inv (n) m" using assms(1) by (rule mod_inv_mono) simp
  show ?thesis
  proof (cases cur)
    case None
    show ?thesis
    proof (cases es)
      case Nil
      have "mod_inv (n) (m\<lparr>stage := Idle\<rparr>)"
        by (rule stage_inv [OF inv o, of _ 0]) (use Dispatching None Nil in \<open>simp_all add: to_dispatch_def\<close>)
      with Dispatching None Nil show ?thesis by (simp add: dispatch_def)
    next
      case (Cons e es')
      obtain p r where "e = (p, r)" by (cases e)
      with next_entry_fine [OF assms] Dispatching None Cons show ?thesis by (simp add: dispatch_def)
    qed
  next
    case (Some c)
    obtain p r ms where c: "c = (p, r, ms)" by (cases c)
    show ?thesis
    proof (cases ms)
      case Nil
      have "mod_inv (n) (m\<lparr>stage := Dispatching es None\<rparr>)"
        by (rule stage_inv [OF inv o, of _ 1]) (use Dispatching Some c in \<open>simp_all add: to_dispatch_def\<close>)
      moreover have "socketTableReferences m p = Some r"
        using dispatch_entries [OF assms(1), of p r] Dispatching Some c by (simp add: to_dispatch_def)
      then have "p \<in> allSockets m" using assms(1) by (auto simp: mod_inv_def)
      then obtain x where "heap m p = Some x" using allocated [OF assms(1)] by blast
      ultimately show ?thesis using Dispatching Some c Nil by (simp add: dispatch_def read_state_def)
    next
      case (Cons a ms')
      have "mod_inv (n) (m\<lparr>stage := Dispatching es (Some (p, r, ms'))\<rparr>)"
        by (rule stage_inv [OF inv o, of _ 0]) (use Dispatching Some c in \<open>simp_all add: to_dispatch_def\<close>)
      with Dispatching Some c Cons show ?thesis by (simp add: dispatch_def)
    qed
  qed
qed (use assms(1) in \<open>simp_all add: dispatch_def\<close>)

subsection \<open>Unloading\<close>

text \<open>A loop over distinct sockets makes one step of each.\<close>

definition stepped :: "nat \<Rightarrow> ptr set \<Rightarrow> (ptr \<rightharpoonup> socket_obj) \<Rightarrow> bool" where
  "stepped n D h \<longleftrightarrow> (\<forall>p x. h p = Some x \<longrightarrow> (p \<in> D \<longrightarrow> sound n x) \<and> (p \<notin> D \<longrightarrow> sound (Suc n) x))"

lemma stepped_update:
  "stepped n (insert p D) h \<Longrightarrow> p \<notin> D \<Longrightarrow> sound (Suc n) y \<Longrightarrow> stepped n D (h(p \<mapsto> y))"
  by (auto simp: stepped_def)

lemma for_all_result:
  assumes "distinct ps" "set ps \<subseteq> dom (heap m)" "stepped n (set ps) (heap m)" "n < 2 ^ 32 - 1"
    "\<And>s :: gwsocket. client_ok e s"
  shows "\<exists>h. for_all_sockets e ps m = Some (m\<lparr>heap := h\<rparr>) \<and> dom h = dom (heap m) \<and> stepped n {} h"
  using assms(1-3)
proof (induction ps arbitrary: m)
  case Nil
  then show ?case by (intro exI [of _ "heap m"]) simp
next
  case (Cons p ps)
  obtain x where x: "heap m p = Some x" using Cons.prems(2) by auto
  then have "sound n x" using Cons.prems(3) by (auto simp: stepped_def)
  from sound_step [OF this assms(4,5)] obtain y out where y: "obj_step e x = Some (y, out)" "sound (Suc n) y" by blast
  let ?m = "m\<lparr>heap := (heap m)(p \<mapsto> y)\<rparr>"
  have st: "stepped n (set ps) (heap ?m)" using stepped_update [of n p "set ps" "heap m" y] Cons.prems y(2) by simp
  have d: "dom (heap ?m) = dom (heap m)" using x by auto
  have "set ps \<subseteq> dom (heap ?m)" unfolding d using Cons.prems(2) by simp
  from Cons.IH [OF _ this st] Cons.prems(1) obtain h where
    "for_all_sockets e ps ?m = Some (m\<lparr>heap := h\<rparr>)" "dom h = dom (heap m)" "stepped n {} h"
    unfolding d by auto
  then show ?case using x y(1) by (intro exI [of _ h]) (simp add: on_socket_def)
qed

lemma stepped_all: "sockets_ok n m \<Longrightarrow> stepped n D (heap m)"
  using sound_mono [of n _ "Suc n"] by (auto simp: stepped_def sockets_ok_def)

lemma stepped_none: "stepped n {} h \<longleftrightarrow> sockets_ok (Suc n) (m\<lparr>heap := h\<rparr>)"
  by (simp add: stepped_def sockets_ok_def)

lemma close_begin_inv:
  assumes "mod_inv n m" "n < 2 ^ 32 - 1" "distinct ps" "set ps = dom (socketTableReferences m)" "stage m = Idle"
  shows "\<exists>m'. module_close_begin spurious ps m = Some m' \<and> mod_inv (Suc n) m'"
proof -
  let ?m = "m\<lparr>moduleOpen := False, stage := Closing\<rparr>"
  have "set ps \<subseteq> dom (heap ?m)" "stepped n (set ps) (heap ?m)"
    using assms(1,4) stepped_all [of n m] by (auto simp: mod_inv_def)
  from for_all_result [OF assms(3) this assms(2), of "EvClose spurious"] obtain h where
    h: "for_all_sockets (EvClose spurious) ps ?m = Some (?m\<lparr>heap := h\<rparr>)" "dom h = dom (heap m)" "stepped n {} h"
    by auto
  have "mod_inv (Suc n) (?m\<lparr>heap := h\<rparr>)"
    using assms(1,5) h(2,3) stepped_none [of n h ?m] by (simp add: mod_inv_def to_dispatch_def)
  with h(1) show ?thesis by (simp add: module_close_begin_def)
qed

lemma close_and_delete_result:
  assumes "distinct ps" "set ps \<subseteq> dom (heap m)" "stepped n (set ps) (heap m)" "n < 2 ^ 32 - 1"
  shows "\<exists>orph. close_and_delete ps m = Some (m\<lparr>heap := (\<lambda>p. if p \<in> set ps then None else heap m p), orphans := orph\<rparr>)"
  using assms(1-3)
proof (induction ps arbitrary: m)
  case Nil
  then show ?case by (intro exI [of _ "orphans m"]) simp
next
  case (Cons p ps)
  obtain x where x: "heap m p = Some x" using Cons.prems(2) by auto
  then have "sound n x" using Cons.prems(3) by (auto simp: stepped_def)
  from sound_step [OF this assms(4), of EvCloseNow] obtain y out where y: "obj_step EvCloseNow x = Some (y, out)" by auto
  let ?m = "m\<lparr>heap := (heap m)(p := None), orphans := orphans m @ map (\<lambda>(g, op). (p, g, op)) (pending (base_of y))\<rparr>"
  have "stepped n (set ps) (heap ?m)" "set ps \<subseteq> dom (heap ?m)"
    using Cons.prems by (auto simp: stepped_def)
  from Cons.IH [OF _ this(2,1)] Cons.prems(1) obtain orph where
    "close_and_delete ps ?m = Some (?m\<lparr>heap := (\<lambda>q. if q \<in> set ps then None else heap ?m q), orphans := orph\<rparr>)" by auto
  moreover have "(\<lambda>q. if q \<in> set ps then None else heap ?m q) = (\<lambda>q. if q \<in> set (p # ps) then None else heap m q)"
    by auto
  ultimately show ?case using x y by (auto simp: on_socket_def delete_socket_def)
qed

lemma close_end_result:
  assumes "mod_inv n m" "n < 2 ^ 32 - 1" "distinct ps" "set ps = allSockets m" "stage m = Closing"
  shows "\<exists>m'. module_close_end ps m = Some m' \<and> mod_inv (Suc n) m' \<and> heap m' = Map.empty
    \<and> orphans m' = [] \<and> stage m' = Closed"
proof -
  have d: "dom (heap m) = set ps" using assms(1,4) by (simp add: mod_inv_def)
  then have "set ps \<subseteq> dom (heap m)" "stepped n (set ps) (heap m)"
    using assms(1) stepped_all [of n m] by (auto simp: mod_inv_def)
  from close_and_delete_result [OF assms(3) this assms(2)] obtain orph where
    c: "close_and_delete ps m = Some (m\<lparr>heap := (\<lambda>p. if p \<in> set ps then None else heap m p), orphans := orph\<rparr>)" by blast
  have "(\<lambda>p. if p \<in> set ps then None else heap m p) = Map.empty" using d by (auto simp: fun_eq_iff domIff)
  with c assms(1,5) show ?thesis
    by (simp add: module_close_end_def mod_inv_def sockets_ok_def to_dispatch_def)
qed

subsection \<open>The module\<close>

lemma io_client_ok: "io_event e \<Longrightarrow> client_ok e s \<and> \<not> opens e"
  by (cases e) (simp_all add: io_event_def client_ok_def opens_def)

lemma mod_step_fine:
  assumes "mod_inv n m" "n + counted e < 2 ^ 32" "ev_ok e m"
  shows "fine (n + counted e) (mod_step tc tx e m)"
proof -
  note small = assms(2)
  have inv: "mod_inv (Suc n) m" using assms(1) by (rule mod_inv_mono) simp
  show ?thesis
  proof (cases e)
    case (Call c)
    then have "n < 2 ^ 32 - 1" using small by simp
    with Call assms inv lua_running_open [OF assms(1)] lua_step_fine show ?thesis by simp
  next
    case (Collect p)
    then have n: "n < 2 ^ 32 - 1" using small by simp
    have "moduleOpen m \<Longrightarrow> p \<in> userdata m \<Longrightarrow> stage m \<noteq> Closed \<and> p \<notin> ran (registry m)"
      using assms(1,3) Collect by (auto simp: mod_inv_def)
    moreover have "mod_inv (Suc n) (m\<lparr>userdata := userdata m - {p}\<rparr>)" if "\<not> moduleOpen m"
      using inv that by (simp add: mod_inv_def sockets_ok_def to_dispatch_def)
    ultimately show ?thesis
      using Collect collect_fine [OF assms(1) n] inv by (auto simp: socketGCFunction_def)
  next
    case Think
    have "stage m = Idle \<Longrightarrow> mod_inv n (m\<lparr>stage := Polling\<rparr>)"
      by (rule stage_inv [OF assms(1), of _ 0]) (use assms(1) in \<open>simp_all add: to_dispatch_def mod_inv_def\<close>)
    with Think assms(1) show ?thesis by simp
  next
    case (IO p v)
    then have n: "n < 2 ^ 32 - 1" using small by simp
    have "fine (Suc n) (call_socket v p m)" if "heap m p \<noteq> None" "io_event v"
    proof -
      have "p \<in> allSockets m" using assms(1) that(1) unfolding mod_inv_def by blast
      then show ?thesis using io_client_ok [OF that(2)] by (intro call_socket_fine [OF assms(1) n]) auto
    qed
    with IO inv show ?thesis by simp
  next
    case (RunOrphan i)
    with inv show ?thesis by (simp add: mod_inv_def)
  next
    case (Sweep ps es)
    show ?thesis
    proof (cases "stage m = Polling")
      case True
      have o: "moduleOpen m" using assms(1) True by (simp add: mod_inv_def)
      have ev: "distinct ps" "set ps \<subseteq> gcedSockets m" "drained m" "entries_of (socketTableReferences m) es"
        using assms(3) Sweep by simp_all
      from sweep_result [OF assms(1) ev(1,2) o ev(3)] obtain m' where
        m': "sweep ps m = Some m'" "mod_inv n m'" "moduleOpen m'"
          "socketTableReferences m' = socketTableReferences m" by blast
      have "mod_inv n (m'\<lparr>stage := Dispatching es None\<rparr>)"
        using m'(2-4) ev(4) entries_of_in [OF ev(4)]
        by (auto simp: mod_inv_def sockets_ok_def owned_def to_dispatch_def entries_of_def)
      with Sweep True m'(1) show ?thesis by simp
    qed (use Sweep assms(1) in simp)
  next
    case Dispatch
    with dispatch_fine [OF assms(1)] small show ?thesis by simp
  next
    case Abort
    have "mod_inv n (m\<lparr>stage := Idle\<rparr>)" if "stage m = Dispatching es c" for es c
    proof (rule stage_inv [OF assms(1)])
      show "moduleOpen m" using assms(1) that by (simp add: mod_inv_def)
      show "to_dispatch (m\<lparr>stage := Idle\<rparr>) = drop (length (to_dispatch m)) (to_dispatch m)"
        by (simp add: to_dispatch_def)
    qed simp_all
    with Abort assms(1) show ?thesis by (simp split: stage.split)
  next
    case (CloseBegin spurious ps)
    then have "n < 2 ^ 32 - 1" using small by simp
    with CloseBegin assms inv close_begin_inv [OF assms(1), of ps spurious] show ?thesis by auto
  next
    case (CloseEnd ps)
    then have "n < 2 ^ 32 - 1" using small by simp
    with CloseEnd assms inv close_end_result [OF assms(1), of ps] show ?thesis by auto
  qed
qed

lemma opened_inv: "mod_inv n module_opened"
  by (auto simp: mod_inv_def module_opened_def sockets_ok_def owned_def to_dispatch_def)

lemma mod_reach_inv: "mod_reach tc tx n m \<Longrightarrow> n < 2 ^ 32 \<Longrightarrow> mod_inv n m"
proof (induction rule: mod_reach.induct)
  case mod_init
  show ?case by (rule opened_inv)
next
  case (mod_next n m e m' out)
  then have "mod_inv n m" by simp
  from mod_step_fine [OF this mod_next.prems mod_next.hyps(2), of tc tx] mod_next.hyps(3) show ?case by (auto simp: fine_def)
qed

end
