(* ===== verification/Lua_Module_Props.thy ===== *)
theory Lua_Module_Props
  imports Lua_Module_Inv Url_Props
begin

text \<open>
  The properties of the module: what a created socket is given, that no step follows a stale
  pointer as long as the io_context is drained before a socket is deleted, what happens
  when it is not, and that no event and no socket is lost.
\<close>

subsection \<open>Runs\<close>

fun mod_run :: "(char \<Rightarrow> bool) \<Rightarrow> (char \<Rightarrow> bool) \<Rightarrow> mod_event list \<Rightarrow> lua_module \<Rightarrow> mod_res" where
  "mod_run tc tx [] m = Some (m, [])"
| "mod_run tc tx (e # es) m =
     (case mod_step tc tx e m of None \<Rightarrow> None
      | Some (m, out) \<Rightarrow>
          (case mod_run tc tx es m of None \<Rightarrow> None | Some (m, out') \<Rightarrow> Some (m, out @ out')))"

fun mod_run_ok :: "(char \<Rightarrow> bool) \<Rightarrow> (char \<Rightarrow> bool) \<Rightarrow> mod_event list \<Rightarrow> lua_module \<Rightarrow> bool" where
  "mod_run_ok tc tx [] m = True"
| "mod_run_ok tc tx (e # es) m =
     (ev_ok e m \<and> (case mod_step tc tx e m of None \<Rightarrow> True | Some (m, _) \<Rightarrow> mod_run_ok tc tx es m))"

definition count_steps :: "mod_event list \<Rightarrow> nat" where
  "count_steps es = sum_list (map counted es)"

lemma mod_run_reach:
  assumes "mod_reach tc tx n m" "mod_run_ok tc tx es m" "mod_run tc tx es m = Some (m', out)"
  shows "mod_reach tc tx (n + count_steps es) m'"
  using assms
proof (induction es arbitrary: n m out)
  case (Cons e es)
  from Cons.prems(3) obtain m1 o1 o2 where s: "mod_step tc tx e m = Some (m1, o1)"
      "mod_run tc tx es m1 = Some (m', o2)"
    by (auto split: option.splits)
  have "mod_reach tc tx (n + counted e) m1" using Cons.prems(1,2) s(1) by (auto intro: mod_reach.mod_next)
  from Cons.IH [OF this _ s(2)] Cons.prems(2) s(1) show ?case by (simp add: count_steps_def add.assoc)
qed (simp add: count_steps_def)

lemma mod_run_append:
  "mod_run tc tx (es @ fs) m =
     (case mod_run tc tx es m of None \<Rightarrow> None
      | Some (m, out) \<Rightarrow> map_option (\<lambda>(m, out'). (m, out @ out')) (mod_run tc tx fs m))"
proof (induction es arbitrary: m)
  case Nil
  show ?case by (cases "mod_run tc tx fs m") auto
qed (auto split: option.splits)

lemma mod_run_ok_append:
  "mod_run_ok tc tx es m \<Longrightarrow> mod_run tc tx es m = Some (m', out) \<Longrightarrow> mod_run_ok tc tx fs m' \<Longrightarrow>
   mod_run_ok tc tx (es @ fs) m"
  by (induction es arbitrary: m out) (auto split: option.splits)

subsection \<open>Creating sockets\<close>

definition sample_text :: string where "sample_text = ''ws://h''"

lemma sample_socket: "createWebSocketFromURL sample_text v = Ret (make_socket False v ''h'' 80 ''/'')"
proof -
  obtain u where "parse_url (url_of_string sample_text) = Ret u" "m_port u = []" "m_host u = ''h''"
      "m_path u = []" "m_scheme u = ''ws''"
  proof -
    let ?u = "\<lparr>m_scheme = ''ws'', m_user = [], m_host = ''h'', m_port = [], m_path = [], m_query = [],
       m_fragment = [], m_url = sample_text, m_parse = True, m_built = False, m_ip_v = 0\<rparr>"
    have "parse_url (url_of_string sample_text) = Ret ?u" by code_simp
    with that [of ?u] show thesis by simp
  qed
  then show ?thesis by (simp add: createWebSocketFromURL_parsed url_port_def url_ssl_def)
qed

lemma sample_defined: "parse_url (url_of_string sample_text) \<noteq> UB"
  by (rule parse_url_defined) (simp add: sample_text_def url_of_string_def new_url_def)

lemma c_str_sample: "c_str sample_text = sample_text"
  by (simp add: c_str_def sample_text_def)

lemma stoi_to_string: "stoi (to_string n) = (if n < 2 ^ 31 then Ret (int n) else Throw (out_of_range ''stoi''))"
proof -
  obtain c t where ct: "to_string n = c # t" using to_string_nonempty [of n] by (cases "to_string n") auto
  have d: "\<forall>c\<in>set (to_string n). is_digit c" using list_all_to_string [of n] by (simp add: list_all_iff)
  then have c: "is_digit c" and tw: "takeWhile is_digit t = t" using ct by (simp_all add: takeWhile_eq_all_conv)
  have "dec_value (c # t) = n" using dec_value_to_string [of n] ct by simp
  with c show ?thesis
    using digits_not_space [OF c] by (simp add: stoi_def Let_def ct tw)
qed

definition default_port :: "url \<Rightarrow> nat" where
  "default_port u = (if url_ssl u then 443 else 80)"

theorem created_socket_fields:
  assumes "parse_url (url_of_string s) = Ret u" "m_host u \<noteq> []" "m_port u = [] \<or> m_port u = to_string n" "n < 2 ^ 31"
  shows "\<exists>x. createWebSocketFromURL s v = Ret x
    \<and> host (base_of x) = m_host u \<and> path (base_of x) = (if m_path u = [] then ''/'' else m_path u)
    \<and> unat (port (base_of x)) = (if m_port u = [] then default_port u else n)
    \<and> (case x of Tls t \<Rightarrow> url_ssl u \<and> shouldVerifyCertificate t = v | Plain _ \<Rightarrow> \<not> url_ssl u)"
proof -
  have n: "m_port u \<noteq> [] \<Longrightarrow> n \<le> 65535"
  proof -
    assume p: "m_port u \<noteq> []"
    have "url_inv u" using assms(1) by (rule parse_url_inv)
    then have "is_port (m_port u)" using parse_url_parsed [OF assms(1)] p by (simp add: url_inv_def url_ok_def)
    then have "n mod 2 ^ 32 \<le> 65535" using p assms(3) by (auto simp: is_port_iff)
    then show "n \<le> 65535" using assms(4) by simp
  qed
  obtain k where k: "url_port (url_ssl u) u = Ret (int k)" "k \<le> 65535"
      "k = (if m_port u = [] then default_port u else n)"
  proof (cases "m_port u = []")
    case True
    then show ?thesis using that [of "default_port u"] by (simp add: url_port_def default_port_def)
  next
    case False
    then show ?thesis using that [of n] n assms(3,4) by (auto simp: url_port_def stoi_to_string)
  qed
  have "unat (ucast (of_nat k :: 16 word) :: 32 word) = k"
    using k(2) by (simp add: unsigned_ucast_eq unat_of_nat take_bit_nat_eq_self)
  with k assms(1,2) show ?thesis
    by (simp add: createWebSocketFromURL_parsed make_socket_def new_websocket_def new_sslwebsocket_def
        new_gwsocket_def gwsocket.truncate_def gwsocket.extend_def)
qed


theorem created_socket_fields_witness:
  "\<exists>x. createWebSocketFromURL ws_text True = Ret x
    \<and> host (base_of x) = m_host ws_parsed \<and> path (base_of x) = (if m_path ws_parsed = [] then ''/'' else m_path ws_parsed)
    \<and> unat (port (base_of x)) = (if m_port ws_parsed = [] then default_port ws_parsed else 81)
    \<and> (case x of Tls t \<Rightarrow> url_ssl ws_parsed \<and> shouldVerifyCertificate t = True | Plain _ \<Rightarrow> \<not> url_ssl ws_parsed)"
proof (rule created_socket_fields)
  show "parse_url (url_of_string ws_text) = Ret ws_parsed" by code_simp
  show "m_port ws_parsed = [] \<or> m_port ws_parsed = to_string 81" by code_simp
qed (simp_all add: ws_parsed_def)

definition port_url :: "nat \<Rightarrow> url" where
  "port_url n = \<lparr>m_scheme = ''ws'', m_user = [], m_host = ''h'', m_port = to_string n, m_path = [], m_query = [],
     m_fragment = [], m_url = [], m_parse = True, m_built = False, m_ip_v = 0\<rparr>"

lemma port_url_text:
  assumes "n mod 2 ^ 32 \<le> 65535" "length (to_string n) \<le> 7000"
  shows "parse_url (url_of_string (''ws://h:'' @ to_string n)) = Ret ((port_url n)\<lparr>m_url := ''ws://h:'' @ to_string n\<rparr>)"
proof -
  have can: "canonical_url (port_url n)"
    using assms(1) is_port_iff
    by (auto simp: canonical_url_def port_url_def is_scheme_def is_alpha_def is_alnum_def normalize_scheme_def
        to_lower_def lower_def canonical_host_def is_reg_name_def is_char_class char_class_def normalize_reg_name_def
        is_ipv4_def http_default_port_def ascii_def)
  have "to_string n \<noteq> []" by (rule to_string_nonempty)
  then have "build_url (port_url n) = Ret ((port_url n)\<lparr>m_built := False, m_url := ''ws://h:'' @ to_string n\<rparr>)"
    by (simp add: build_url_def lazy_parse_def build_authority_def build_path_def build_query_def build_fragment_def
        port_url_def http_default_port_def)
  with canonical_round_trip [OF can] assms(2) show ?thesis
    by (auto simp: port_url_def)
qed

theorem wrapped_port_not_caught:
  assumes "n \<ge> 2 ^ 31" "n mod 2 ^ 32 \<le> 65535" "length (to_string n) \<le> 7000"
  shows "createWebSocket p (LString (''ws://h:'' @ to_string n)) v m = Some (m, [Uncaught (out_of_range ''stoi'')])"
proof -
  have "to_string n \<noteq> []" by (rule to_string_nonempty)
  then have "createWebSocketFromURL (''ws://h:'' @ to_string n) b = Throw (out_of_range ''stoi'')" for b
    using port_url_text [OF assms(2,3)] assms(1)
    by (simp add: createWebSocketFromURL_parsed url_port_def stoi_to_string port_url_def)
  moreover have "CHR 0x00 \<notin> set (to_string n)"
    using list_all_to_string [of n] by (auto simp: list_all_iff is_digit_def)
  then have "\<forall>c\<in>set (to_string n). c \<noteq> CHR 0x00" by auto
  then have "c_str (''ws://h:'' @ to_string n) = ''ws://h:'' @ to_string n"
    by (simp add: c_str_def takeWhile_eq_all_conv)
  ultimately show ?thesis by (simp add: createWebSocket_def checkString_def)
qed

theorem wrapped_port_not_caught_witness:
  "createWebSocket 1 (LString (''ws://h:'' @ to_string 4294967376)) LNil module_opened
     = Some (module_opened, [Uncaught (out_of_range ''stoi'')])"
  by (rule wrapped_port_not_caught) (simp_all add: to_string.simps)

subsection \<open>Pointers\<close>

text \<open>
  C1. In every run of fewer than 2^32-1 Lua calls, completions, collections and unloading,
  with any number of timer runs between them, no step uses a socket that was deleted or
  frees one twice, provided that no collected socket is met by the timer with a handler
  still queued (use_after_free), no script writes between close() and the handshake
  (write_after_early_close_crashes) and no URL is passed whose parsing is undefined
  (short_ipv6_undefined).
\<close>

theorem module_memory_safe:
  assumes "mod_reach tc tx n m" "n + counted e < 2 ^ 32" "ev_ok e m"
  shows "mod_step tc tx e m \<noteq> None"
proof -
  have "mod_inv n m" using mod_reach_inv [OF assms(1)] assms(2) by simp
  from mod_step_fine [OF this assms(2,3), of tc tx] show ?thesis unfolding fine_def by blast
qed

text \<open>
  C15. While the module is open every allocated socket is listed, is either held by Lua or
  waits to be deleted, and the registry holds one reference for exactly the sockets in the
  reference table.
\<close>

theorem socket_ownership:
  assumes "mod_reach tc tx n m" "n < 2 ^ 32" "moduleOpen m"
  shows "dom (heap m) = allSockets m \<and> userdata m \<union> gcedSockets m = allSockets m
    \<and> userdata m \<inter> gcedSockets m = {}
    \<and> (\<forall>r p. registry m r = Some p \<longleftrightarrow> socketTableReferences m p = Some r)
    \<and> dom (socketTableReferences m) \<subseteq> userdata m"
  using mod_reach_inv [OF assms(1,2)] assms(3) by (simp add: mod_inv_def owned_def)

text \<open>
  C33. While the module is open (and was reached in fewer than 2^32 steps), a socket that
  Lua still holds and to which the module keeps no reference is disconnected and its event
  queue is empty, so that nothing is waiting for a timer that no longer visits it. Events
  that were taken from the queue before a Lua error left the timer are not spoken of.
\<close>

theorem unreferenced_socket_quiet:
  assumes "mod_reach tc tx n m" "n < 2 ^ 32" "moduleOpen m" "p \<in> userdata m" "heap m p = Some x"
    and "socketTableReferences m p = None"
  shows "state (base_of x) = STATE_DISCONNECTED \<and> backingQueue (messageQueue (base_of x)) = []"
  using mod_reach_inv [OF assms(1,2)] assms(3-6) unfolding mod_inv_def owned_def quiet_def by blast

theorem collected_sockets_deleted:
  assumes "mod_reach tc tx n m" "n < 2 ^ 32" "stage m = Polling" "ev_ok (Sweep ps es) m"
  shows "\<exists>m'. mod_step tc tx (Sweep ps es) m = Some (m', [])
    \<and> heap m' = (\<lambda>p. if p \<in> gcedSockets m \<and> read_state p m = Some STATE_DISCONNECTED then None else heap m p)
    \<and> gcedSockets m' = {p \<in> gcedSockets m. read_state p m \<noteq> Some STATE_DISCONNECTED}
    \<and> socketTableReferences m' = socketTableReferences m"
proof -
  have inv: "mod_inv n m" using mod_reach_inv [OF assms(1,2)] .
  then have o: "moduleOpen m" using assms(3) by (simp add: mod_inv_def)
  have ev: "distinct ps" "set ps = gcedSockets m" "drained m" using assms(4) by simp_all
  from sweep_result [OF inv ev(1) _ o ev(3)] ev(2) obtain m' where m': "sweep ps m = Some m'"
    "gcedSockets m' = gcedSockets m - {p \<in> set ps. read_state p m = Some STATE_DISCONNECTED}"
    "heap m' = (\<lambda>p. if p \<in> set ps \<and> read_state p m = Some STATE_DISCONNECTED then None else heap m p)"
    "socketTableReferences m' = socketTableReferences m"
    by blast
  show ?thesis
    using assms(3) m' ev(2) by (intro exI [of _ "m'\<lparr>stage := Dispatching es None\<rparr>"]) auto
qed

text \<open>
  C19. Unloading deletes every socket, and the finalizers that Lua runs afterwards touch
  nothing.
\<close>

theorem unload_frees_everything:
  assumes "mod_reach tc tx n m" "n < 2 ^ 32 - 1" "stage m = Closing" "ev_ok (CloseEnd ps) m"
  shows "\<exists>m'. mod_step tc tx (CloseEnd ps) m = Some (m', []) \<and> heap m' = Map.empty \<and> orphans m' = []
    \<and> (\<forall>p. \<exists>m''. mod_step tc tx (Collect p) m' = Some (m'', []) \<and> heap m'' = Map.empty)"
proof -
  have inv: "mod_inv n m" using mod_reach_inv [OF assms(1)] assms(2) by simp
  from close_end_result [OF inv assms(2) _ _ assms(3)] assms(4) obtain m' where
    m': "module_close_end ps m = Some m'" "mod_inv (Suc n) m'" "heap m' = Map.empty" "orphans m' = []" "stage m' = Closed"
    by auto
  then have "\<not> moduleOpen m'" by (simp add: mod_inv_def)
  with m' assms(3) show ?thesis by (auto simp: socketGCFunction_def)
qed

definition dropped_script :: "ptr \<Rightarrow> int \<Rightarrow> mod_event list" where
  "dropped_script p r =
     [Call (CreateWebSocket p (LString sample_text) LNil), Call (CallOpen r (LSocket p) LNil),
      Call (CallCloseNow (LSocket p)),
      Think, Sweep [] [(p, r)], Dispatch, Dispatch, Dispatch, Dispatch,
      Think, Sweep [] [(p, r)], Dispatch, Dispatch]"

lemmas mod_defs =
  module_opened_def lua_running_def createWebSocket_def checkString_def c_str_sample sample_socket opt_bool_def
  socketOpen_def getCppObject_def if_disconnected_def read_state_def call_socket_def on_socket_def
  socketCloseNow_def dispatch_def next_entry_def socketGCFunction_def delete_socket_def

definition plain_closed :: "gwsocket" where
  "plain_closed = \<lparr>messageQueue = empty_queue, path = ''/'', host = ''h'', port = 80, state = STATE_DISCONNECTED,
     perMessageDeflate = False, disableContextTakeover = False, writing = False, messageToWrite = [],
     generation = 2, cookies = Map.empty, headers = Map.empty, readBuffer = [], writeQueue = [],
     pending = [(1, ResolveOp ''h'' ''80'')], started = [ResolveOp ''h'' ''80'']\<rparr>"

lemma to_string_80: "to_string 80 = ''80''"
  by code_simp

definition dropped_obj :: socket_obj where
  "dropped_obj = Plain (gwsocket.extend plain_closed \<lparr>ws = None, ws_messageToWrite = []\<rparr>)"

lemmas dropped_defs = dropped_obj_def plain_closed_def

definition dropped_module :: "ptr \<Rightarrow> lua_module" where
  "dropped_module p = module_opened\<lparr>heap := [p \<mapsto> dropped_obj], allSockets := {p}, userdata := {p}\<rparr>"

lemma dropped_run:
  "mod_run tc tx (dropped_script p r) module_opened =
     Some (dropped_module p, [Created p, Callback p IN_DISCONNECTED default_reason])"
  by (simp add: dropped_script_def mod_defs run_defs Let_def to_string_80 dropped_module_def dropped_defs)

lemma dropped_run_ok: "mod_run_ok tc tx (dropped_script p r) module_opened"
  by (simp add: dropped_script_def mod_defs run_defs Let_def to_string_80 dropped_defs
      self_ok_def url_ok_arg_def sample_defined entries_of_def drained_def)

lemma dropped_reach: "mod_reach tc tx 3 (dropped_module p)"
  using mod_run_reach [OF mod_reach.mod_init dropped_run_ok dropped_run, of tc tx p r]
  by (simp add: count_steps_def dropped_script_def eval_nat_numeral)

text \<open>A socket that is never opened and collected.\<close>

definition fresh_script :: "ptr \<Rightarrow> mod_event list" where
  "fresh_script p = [Call (CreateWebSocket p (LString sample_text) LNil)]"

definition fresh_module :: "ptr \<Rightarrow> lua_module" where
  "fresh_module p = module_opened\<lparr>heap := [p \<mapsto> make_socket False True ''h'' 80 ''/''],
     allSockets := {p}, userdata := {p}\<rparr>"

lemma fresh_reach: "mod_reach tc tx 1 (fresh_module p)"
proof -
  have "mod_step tc tx (Call (CreateWebSocket p (LString sample_text) LNil)) module_opened =
      Some (fresh_module p, [Created p])"
    by (simp add: mod_defs fresh_module_def)
  moreover have "ev_ok (Call (CreateWebSocket p (LString sample_text) LNil)) module_opened"
    by (simp add: mod_defs url_ok_arg_def sample_defined)
  ultimately show ?thesis using mod_reach.mod_next [OF mod_reach.mod_init] by fastforce
qed

definition collected_module :: "ptr \<Rightarrow> lua_module" where
  "collected_module p = (fresh_module p)\<lparr>userdata := {}, gcedSockets := {p}, stage := Polling\<rparr>"

lemma collected_reach: "mod_reach tc tx 2 (collected_module p)"
proof -
  have "mod_run tc tx [Collect p, Think] (fresh_module p) = Some (collected_module p, [])"
    by (simp add: mod_defs fresh_module_def collected_module_def run_defs)
  moreover have "mod_run_ok tc tx [Collect p, Think] (fresh_module p)"
    by (simp add: mod_defs fresh_module_def run_defs)
  ultimately show ?thesis using mod_run_reach [OF fresh_reach] by (fastforce simp: eval_nat_numeral count_steps_def)
qed

definition closing_module :: "ptr \<Rightarrow> lua_module" where
  "closing_module p = (fresh_module p)\<lparr>moduleOpen := False, stage := Closing\<rparr>"

lemma closing_reach: "mod_reach tc tx 2 (closing_module p)"
proof -
  have "mod_run tc tx [CloseBegin False []] (fresh_module p) = Some (closing_module p, [])"
    by (simp add: fresh_module_def closing_module_def module_opened_def module_close_begin_def)
  moreover have "mod_run_ok tc tx [CloseBegin False []] (fresh_module p)"
    by (simp add: fresh_module_def module_opened_def split: option.split)
  ultimately show ?thesis using mod_run_reach [OF fresh_reach] by (fastforce simp: eval_nat_numeral count_steps_def)
qed

text \<open>
  C23. Collecting a socket while its host is being resolved lets the timer delete it
  before the cancelled handler has run, which then uses the deleted socket.
\<close>

theorem use_after_free:
  "\<exists>m out. mod_run tc tx (dropped_script p r @ [Collect p, Think, Sweep [p] [], Dispatch, Think]) module_opened = Some (m, out)
    \<and> mod_run_ok tc tx (dropped_script p r @ [Collect p, Think]) module_opened
    \<and> heap m = Map.empty \<and> orphans m = [(p, 1, ResolveOp ''h'' ''80'')] \<and> mod_step tc tx (RunOrphan 0) m = None"
proof -
  let ?tail = "[Collect p, Think, Sweep [p] [], Dispatch, Think]"
  obtain m where "mod_run tc tx ?tail (dropped_module p) = Some (m, [])" "heap m = Map.empty"
      "orphans m = [(p, 1, ResolveOp ''h'' ''80'')]" "stage m = Polling"
    by (simp add: dropped_module_def mod_defs dropped_defs run_defs)
  moreover have "mod_run_ok tc tx [Collect p, Think] (dropped_module p)"
    by (simp add: dropped_module_def mod_defs dropped_defs run_defs)
  then have "mod_run_ok tc tx (dropped_script p r @ [Collect p, Think]) module_opened"
    using mod_run_ok_append [OF dropped_run_ok dropped_run] by blast
  ultimately show ?thesis by (simp add: mod_run_append dropped_run)
qed


theorem module_memory_safe_witness:
  "mod_step sample_token sample_token (Collect 1) (dropped_module 1) \<noteq> None"
  by (rule module_memory_safe [OF dropped_reach [of _ _ 1]])
     (simp_all add: dropped_script_def dropped_module_def module_opened_def)

theorem socket_ownership_witness:
  "dom (heap (dropped_module 1)) = allSockets (dropped_module 1)
    \<and> userdata (dropped_module 1) \<union> gcedSockets (dropped_module 1) = allSockets (dropped_module 1)
    \<and> userdata (dropped_module 1) \<inter> gcedSockets (dropped_module 1) = {}
    \<and> (\<forall>r p. registry (dropped_module 1) r = Some p \<longleftrightarrow> socketTableReferences (dropped_module 1) p = Some r)
    \<and> dom (socketTableReferences (dropped_module 1)) \<subseteq> userdata (dropped_module 1)"
  by (rule socket_ownership [OF dropped_reach [of _ _ 1]])
     (simp_all add: dropped_script_def dropped_module_def module_opened_def)

theorem unreferenced_socket_quiet_witness:
  "state (base_of dropped_obj) = STATE_DISCONNECTED \<and> backingQueue (messageQueue (base_of dropped_obj)) = []"
  by (rule unreferenced_socket_quiet [OF dropped_reach [of _ _ 1]])
     (simp_all add: dropped_script_def dropped_module_def module_opened_def)

theorem collected_sockets_deleted_witness:
  "\<exists>m'. mod_step sample_token sample_token (Sweep [1] []) (collected_module 1) = Some (m', [])
    \<and> heap m' = (\<lambda>p. if p \<in> gcedSockets (collected_module 1) \<and> read_state p (collected_module 1) = Some STATE_DISCONNECTED
                     then None else heap (collected_module 1) p)
    \<and> gcedSockets m' = {p \<in> gcedSockets (collected_module 1). read_state p (collected_module 1) \<noteq> Some STATE_DISCONNECTED}
    \<and> socketTableReferences m' = socketTableReferences (collected_module 1)"
  by (rule collected_sockets_deleted [OF collected_reach])
     (simp_all add: collected_module_def fresh_module_def module_opened_def entries_of_def drained_def run_defs)

theorem unload_frees_everything_witness:
  "\<exists>m'. mod_step sample_token sample_token (CloseEnd [1]) (closing_module 1) = Some (m', []) \<and> heap m' = Map.empty \<and> orphans m' = []
    \<and> (\<forall>p. \<exists>m''. mod_step sample_token sample_token (Collect p) m' = Some (m'', []) \<and> heap m'' = Map.empty)"
  by (rule unload_frees_everything [OF closing_reach])
     (simp_all add: closing_module_def fresh_module_def module_opened_def)

end
