(* ===== verification/Io_Loop.thy ===== *)
theory Io_Loop
  imports Lua_Module_Props
begin

text \<open>
  The io_context as the module drives it (GLua.cpp: \<open>initialize\<close>, the start of
  \<open>webSocketThink\<close>, \<open>GMOD_MODULE_CLOSE\<close>). An io_context stops by itself when it runs out of
  work; a stopped one runs no handler until \<open>restart\<close> is called, and a new operation does
  not wake it up. \<open>Lua_Module\<close> leaves this open; here the flag is part of the state, and
  the theorems say when handlers can run at all.
\<close>

subsection \<open>The loop\<close>

record io_module =
  module :: lua_module
  stopped :: bool \<comment> \<open>\<open>GWSocket::ioc->stopped()\<close>\<close>

definition initialize :: io_module where
  "initialize = \<lparr>module = module_opened, stopped = False\<rparr>"

definition outstanding :: "lua_module \<Rightarrow> bool" where
  \<comment> \<open>work that keeps the io_context from stopping\<close>
  "outstanding m \<longleftrightarrow>
     (\<exists>p\<in>allSockets m. case heap m p of None \<Rightarrow> False | Some x \<Rightarrow> pending (base_of x) \<noteq> []) \<or> orphans m \<noteq> []"

definition on_io :: "(lua_module \<Rightarrow> mod_res) \<Rightarrow> io_module \<Rightarrow> (io_module \<times> mod_out list) option" where
  "on_io f M = map_option (\<lambda>(m, out). (M\<lparr>module := m\<rparr>, out)) (f (module M))"

definition restart_if_stopped :: "io_module \<Rightarrow> io_module" where
  "restart_if_stopped M = (if stopped M then M\<lparr>stopped := False\<rparr> else M)"

definition poll_returns :: "io_module \<Rightarrow> io_module" where
  \<comment> \<open>\<open>poll\<close> and \<open>run_for\<close> stop the io_context that has no work left\<close>
  "poll_returns M = (if outstanding (module M) then M else M\<lparr>stopped := True\<rparr>)"

fun io_step :: "(char \<Rightarrow> bool) \<Rightarrow> (char \<Rightarrow> bool) \<Rightarrow> mod_event \<Rightarrow> io_module \<Rightarrow> (io_module \<times> mod_out list) option" where
  "io_step tc tx Think M =
     on_io (mod_step tc tx Think) (if stage (module M) = Idle then restart_if_stopped M else M)"
| "io_step tc tx (IO p e) M = (if stopped M then Some (M, []) else on_io (mod_step tc tx (IO p e)) M)"
| "io_step tc tx (RunOrphan i) M = (if stopped M then Some (M, []) else on_io (mod_step tc tx (RunOrphan i)) M)"
| "io_step tc tx (Sweep ps es) M =
     on_io (mod_step tc tx (Sweep ps es)) (if stage (module M) = Polling then poll_returns M else M)"
| "io_step tc tx (CloseEnd ps) M =
     on_io (mod_step tc tx (CloseEnd ps)) (if stage (module M) = Closing then M\<lparr>stopped := True\<rparr> else M)"
| "io_step tc tx e M = on_io (mod_step tc tx e) M"

inductive io_reach :: "(char \<Rightarrow> bool) \<Rightarrow> (char \<Rightarrow> bool) \<Rightarrow> nat \<Rightarrow> io_module \<Rightarrow> bool" for tc tx where
  io_init: "io_reach tc tx 0 initialize"
| io_next: "io_reach tc tx n M \<Longrightarrow> ev_ok e (module M) \<Longrightarrow> io_step tc tx e M = Some (M', out) \<Longrightarrow>
            io_reach tc tx (n + counted e) M'"

subsection \<open>What scripts cannot change\<close>

text \<open>
  A property of sockets that a new one has, and that every step keeps except those of the
  io_context, holds of all sockets as long as no handler runs.
\<close>

locale script_stable =
  fixes P :: "socket_obj \<Rightarrow> bool"
  assumes P_new: "P (make_socket tls verify h p pt)"
    and P_step: "sound n x \<Longrightarrow> n < 2 ^ 32 \<Longrightarrow> P x \<Longrightarrow> \<not> io_event e \<Longrightarrow> client_ok e (base_of x) \<Longrightarrow>
      obj_step e x = Some (y, out) \<Longrightarrow> P y"
    and P_cookie: "P x \<Longrightarrow> P (fst (obj_set_cookie tc k v x))"
    and P_header: "P x \<Longrightarrow> P (fst (obj_set_header tc tx k v x))"
begin

definition all_sockets :: "lua_module \<Rightarrow> bool" where
  "all_sockets m \<longleftrightarrow> (\<forall>p x. heap m p = Some x \<longrightarrow> P x)"

definition keeps :: "mod_res \<Rightarrow> bool" where
  "keeps r \<longleftrightarrow> (\<forall>m out. r = Some (m, out) \<longrightarrow> all_sockets m)"

lemma keeps_simps [simp]: "keeps None" "keeps (Some (m, out)) \<longleftrightarrow> all_sockets m"
    "keeps (lua_error msg m) \<longleftrightarrow> all_sockets m"
  by (auto simp: keeps_def lua_error_def)

lemma keepsD: "keeps r \<Longrightarrow> r = Some (m, out) \<Longrightarrow> all_sockets m"
  by (simp add: keeps_def)

lemma all_sockets_update: "all_sockets m \<Longrightarrow> P y \<Longrightarrow> heap m' = (heap m)(p \<mapsto> y) \<Longrightarrow> all_sockets m'"
  by (auto simp: all_sockets_def)

lemma all_sockets_heap: "all_sockets m \<Longrightarrow> heap m' = heap m \<Longrightarrow> all_sockets m'"
  by (simp add: all_sockets_def)

lemma on_socket_keeps:
  assumes "all_sockets m" "sockets_ok n m" "n < 2 ^ 32" "\<not> io_event e" "\<And>x. heap m p = Some x \<Longrightarrow> client_ok e (base_of x)"
    and "on_socket p (obj_step e) m = Some (m', out)"
  shows "all_sockets m'" "\<exists>x y out. heap m p = Some x \<and> obj_step e x = Some (y, out) \<and> m' = m\<lparr>heap := (heap m)(p \<mapsto> y)\<rparr>"
proof -
  from assms(6) obtain x y where x: "heap m p = Some x" "obj_step e x = Some (y, out)" "m' = m\<lparr>heap := (heap m)(p \<mapsto> y)\<rparr>"
    by (auto simp: on_socket_def split: option.splits)
  have "P y" by (rule P_step [OF _ assms(3) _ assms(4) assms(5) x(2)]) (use assms(1,2) x(1) in \<open>auto simp: all_sockets_def sockets_ok_def\<close>)
  with assms(1) x(3) show "all_sockets m'" by (simp add: all_sockets_update)
  from x show "\<exists>x y out. heap m p = Some x \<and> obj_step e x = Some (y, out) \<and> m' = m\<lparr>heap := (heap m)(p \<mapsto> y)\<rparr>" by blast
qed

lemma call_socket_keeps:
  assumes "all_sockets m" "sockets_ok n m" "n < 2 ^ 32" "\<not> io_event e" "\<And>x. heap m p = Some x \<Longrightarrow> client_ok e (base_of x)"
  shows "keeps (call_socket e p m)"
  using on_socket_keeps(1) [OF assms] by (auto simp: keeps_def call_socket_def)

lemma getCppObject_keeps:
  "all_sockets m \<Longrightarrow> (\<And>p. self = LSocket p \<Longrightarrow> keeps (k p m)) \<Longrightarrow> keeps (getCppObject self k m)"
  by (simp add: getCppObject_def split: lua_val.split)

lemma check_keeps:
  "all_sockets m \<Longrightarrow> (\<And>s. keeps (f s m)) \<Longrightarrow> keeps (checkString v f m)"
  "all_sockets m \<Longrightarrow> (\<And>b. keeps (g b m)) \<Longrightarrow> keeps (checkBool v g m)"
  by (simp_all add: checkString_def checkBool_def split: lua_val.split)

lemma if_disconnected_keeps:
  "all_sockets m \<Longrightarrow> keeps (k p m) \<Longrightarrow> keeps (if_disconnected msg k p m)"
  by (simp add: if_disconnected_def split: option.split)

lemma set_field_keeps:
  assumes "all_sockets m" "\<And>x. P x \<Longrightarrow> P (fst (f x))"
  shows "keeps (set_field msg f p m)"
proof (cases "heap m p")
  case (Some x)
  obtain y ok where y: "f x = (y, ok)" by fastforce
  have "P y" using assms Some y by (metis all_sockets_def fst_conv)
  with Some y assms(1) show ?thesis by (auto simp: set_field_def on_socket_def intro: all_sockets_update)
qed (simp add: set_field_def on_socket_def)

lemmas keeps_rules = getCppObject_keeps check_keeps if_disconnected_keeps set_field_keeps call_socket_keeps

lemma lua_step_keeps:
  assumes "all_sockets m" "sockets_ok n m" "n < 2 ^ 32" "call_ok c m"
  shows "keeps (lua_step tc tx c m)"
proof (cases c)
  case (CreateWebSocket p a b)
  have "all_sockets (m\<lparr>heap := (heap m)(p \<mapsto> x), allSockets := A, userdata := U\<rparr>)"
    if "createWebSocketFromURL s v = Ret x" for s v x A U
    using createWebSocketFromURL_Ret [OF that] assms(1) by (auto intro: all_sockets_update P_new)
  then show ?thesis
    unfolding CreateWebSocket lua_step.simps createWebSocket_def
    by (intro check_keeps assms(1)) (auto simp: Let_def assms(1) split: exec.split url_exn.split)
next
  case (CallOpen r s a)
  let ?m = "\<lambda>p. if socketTableReferences m p = None
    then m\<lparr>registry := (registry m)(r \<mapsto> p), socketTableReferences := (socketTableReferences m)(p \<mapsto> r)\<rparr> else m"
  have "keeps (call_socket (EvOpen (opt_bool True a)) p (?m p))" for p
  proof (rule call_socket_keeps)
    show "all_sockets (?m p)" "sockets_ok n (?m p)"
      using assms(1,2) by (auto simp: sockets_ok_def intro: all_sockets_heap)
  qed (use assms(3) in \<open>simp_all add: io_event_def\<close>)
  then show ?thesis
    unfolding CallOpen lua_step.simps socketOpen_def Let_def
    by (intro getCppObject_keeps if_disconnected_keeps assms(1))
next
  case (CallWrite spurious s a b)
  have "client_ok (EvWrite spurious t v) (base_of x)"
    if "s = LSocket p" "heap m p = Some x" for p x t v
    using that assms(4) CallWrite by (simp add: write_ok_def client_ok_write [of spurious])
  then have "keeps (call_socket (EvWrite spurious t v) p m)" if "s = LSocket p" for p t v
    by (intro call_socket_keeps [OF assms(1-3)]) (simp_all add: that io_event_def)
  then show ?thesis
    unfolding CallWrite lua_step.simps socketWrite_def
    by (intro check_keeps getCppObject_keeps assms(1)) simp
next
  case (CallIsConnected s)
  then show ?thesis
    using assms(1) by (auto simp: socketIsConnected_def keeps_def getCppObject_def lua_error_def split: lua_val.splits)
qed (use assms in \<open>auto simp: socketClose_def socketCloseNow_def socketClearQueue_def socketSetCookie_def
      socketSetHeader_def socketSetMessageCompression_def socketSetDisableContextTakeover_def io_event_def
      intro!: keeps_rules P_cookie P_header\<close>)

lemma collect_keeps:
  assumes "all_sockets m" "sockets_ok n m" "n < 2 ^ 32"
  shows "keeps (socketGCFunction p m)"
proof -
  have call: "keeps (call_socket EvCloseNow p (m\<lparr>socketTableReferences := T, gcedSockets := G\<rparr>))" for T G
  proof (rule call_socket_keeps [OF _ _ assms(3)])
    show "all_sockets (m\<lparr>socketTableReferences := T, gcedSockets := G\<rparr>)" using assms(1) by (rule all_sockets_heap) simp
  qed (use assms(2) in \<open>simp_all add: sockets_ok_def io_event_def\<close>)
  have "m\<lparr>gcedSockets := G\<rparr> = m\<lparr>socketTableReferences := socketTableReferences m, gcedSockets := G\<rparr>" for G by simp
  with call have "keeps (call_socket EvCloseNow p (m\<lparr>gcedSockets := G\<rparr>))" for G by metis
  with call show ?thesis by (simp add: socketGCFunction_def assms(1))
qed

lemma sweep_keeps: "sweep ps m = Some m' \<Longrightarrow> all_sockets m \<Longrightarrow> all_sockets m'"
proof (induction ps arbitrary: m)
  case (Cons p ps)
  have "all_sockets (m\<lparr>allSockets := A, heap := (heap m)(p := None), orphans := W, gcedSockets := G\<rparr>)" for A W G
    using Cons.prems(2) by (auto simp: all_sockets_def)
  with Cons show ?case
    by (cases "heap m p") (auto simp: read_state_def delete_socket_def split: if_split_asm)
qed simp

lemma next_entry_keeps:
  assumes "all_sockets m" "sockets_ok n m" "n < 2 ^ 32"
  shows "keeps (next_entry p r es m)"
proof (cases "on_socket p (obj_step EvPoll) m")
  case (Some r')
  obtain m1 out where m1: "r' = (m1, out)" by (cases r')
  have "all_sockets m1"
    by (rule on_socket_keeps(1) [OF assms, of EvPoll p m1 out]) (use Some m1 in \<open>simp_all add: io_event_def\<close>)
  then have "all_sockets (m1\<lparr>stage := st\<rparr>)" "all_sockets (m1\<lparr>registry := R, socketTableReferences := T, stage := st\<rparr>)"
    for st R T by (auto intro: all_sockets_heap)
  with Some m1 show ?thesis by (auto simp: next_entry_def split: option.split)
qed (simp add: next_entry_def)

lemma mod_step_keeps:
  assumes inv: "mod_inv n m" "n < 2 ^ 32" "all_sockets m" "ev_ok e m" "mod_step tc tx e m = Some (m', out)"
    and e: "\<And>p v. e \<noteq> IO p v" "\<And>b ps. e \<noteq> CloseBegin b ps" "\<And>ps. e \<noteq> CloseEnd ps"
  shows "all_sockets m'"
proof -
  have ok: "sockets_ok n m" using inv(1) by (simp add: mod_inv_def)
  show ?thesis
  proof (cases e)
    case (Call c)
    with inv(3-5) lua_step_keeps [OF inv(3) ok inv(2), of c tc tx] show ?thesis by (auto simp: keeps_def split: if_split_asm)
  next
    case (Collect p)
    have "keeps (socketGCFunction p (m\<lparr>userdata := userdata m - {p}\<rparr>))"
      by (rule collect_keeps [OF all_sockets_heap [OF inv(3)] _ inv(2)]) (use ok in \<open>simp_all add: sockets_ok_def\<close>)
    with Collect inv(3,5) show ?thesis by (auto simp: keeps_def split: if_split_asm)
  next
    case (Sweep ps es)
    with inv(3,5) show ?thesis
      by (auto split: if_split_asm intro: all_sockets_heap [OF sweep_keeps])
  next
    case Dispatch
    with inv(3,5) show ?thesis
      by (auto simp: dispatch_def split: stage.splits option.splits prod.splits list.splits
          intro: all_sockets_heap dest: keepsD [OF next_entry_keeps [OF inv(3) ok inv(2)]])
  next
    case Abort
    with inv(3,5) show ?thesis by (auto split: stage.splits intro: all_sockets_heap)
  qed (use inv e in \<open>auto split: if_split_asm intro: all_sockets_heap\<close>)
qed

end

subsection \<open>A stopped loop\<close>

definition asleep :: "'a gwsocket_scheme \<Rightarrow> bool" where
  \<comment> \<open>no connection is established\<close>
  "asleep s \<longleftrightarrow> state s \<noteq> STATE_CONNECTED \<and> state s \<noteq> STATE_DISCONNECTING
     \<and> (state s = STATE_DISCONNECT_REQUESTED \<longrightarrow> list_ex is_connect_op (current_ops s))"

lemma connecting_op:
  assumes "sock_inv has_ws tls n d s" "state s = STATE_CONNECTING"
  shows "list_ex is_connect_op (current_ops s)"
  using base_phase [OF assms(1)] assms(2) n_of_pos [of is_connect_op s] by (simp add: list_ex_iff)

lemma asleep_class_step:
  assumes "sock_inv has_ws tls n d s" "asleep s" "\<not> io_event e" "client_ok e s" "sock_step K e s = Some (t, out)"
  shows "asleep t"
proof (cases e)
  case (EvClose spurious)
  with assms connecting_op [OF assms(1)] show ?thesis
    by (cases "state s") (auto simp: asleep_def gw_close_def Let_def compare_exchange_strong_def)
next
  case (EvWrite spurious m b)
  with assms connecting_op [OF assms(1)] show ?thesis
    by (cases "state s") (auto simp: asleep_def gw_write_def checkWriting_def client_ok_def Let_def current_ops_def)
qed (use assms connecting_op [OF assms(1)] in \<open>auto simp: io_event_def asleep_def gw_open_def closeNow_def clearQueue_def
      setPerMessageDeflate_def setDisableContextTakeover_def bq_clear_def Let_def doClose_def
      compare_exchange_strong_def set_disconnecting_alone current_ops_def async_start_def split: if_split_asm\<close>)

lemma asleep_truncate: "asleep (gwsocket.truncate s) = asleep s"
  by (simp add: asleep_def current_ops_def gwsocket.truncate_def)

lemma asleep_fields:
  "asleep (s\<lparr>cookies := c\<rparr>) = asleep s" "asleep (s\<lparr>headers := c\<rparr>) = asleep s"
  by (simp_all add: asleep_def current_ops_def)

definition obj_asleep :: "socket_obj \<Rightarrow> bool" where
  "obj_asleep x \<longleftrightarrow> asleep (base_of x)"

interpretation sleeping: script_stable obj_asleep
proof
  fix tls verify h p pt
  show "obj_asleep (make_socket tls verify h p pt)"
    by (simp add: obj_asleep_def asleep_def make_socket_def new_websocket_def new_sslwebsocket_def new_gwsocket_def
        gwsocket.truncate_def gwsocket.extend_def)
next
  fix n x e y out
  assume a: "sound n x" "n < 2 ^ 32" "obj_asleep x" "\<not> io_event e" "client_ok e (base_of x)" "obj_step e x = Some (y, out)"
  from a(1) obtain d where d: "obj_inv n d x" by (auto simp: sound_def)
  show "obj_asleep y"
  proof (cases x)
    case (Plain s)
    with a(6) obtain t where "sock_step WebSocket_class e s = Some (t, out)" "y = Plain t" by auto
    with Plain a d show ?thesis
      using asleep_class_step [of ws_present False n d s e] by (simp add: obj_asleep_def asleep_truncate client_ok_truncate)
  next
    case (Tls s)
    with a(6) obtain t where "sock_step SSLWebSocket_class e s = Some (t, out)" "y = Tls t" by auto
    with Tls a d show ?thesis
      using asleep_class_step [of sws_present True n d s e] by (simp add: obj_asleep_def asleep_truncate client_ok_truncate)
  qed
next
  fix tc k v x assume "obj_asleep x"
  then show "obj_asleep (fst (obj_set_cookie tc k v x))"
    by (cases x) (auto simp: obj_asleep_def setCookie_def asleep_truncate asleep_fields)
next
  fix tc tx k v x assume "obj_asleep x"
  then show "obj_asleep (fst (obj_set_header tc tx k v x))"
    by (cases x) (auto simp: obj_asleep_def setHeader_def asleep_truncate asleep_fields)
qed

lemma idle_asleep:
  assumes "sound n x" "pending (base_of x) = []"
  shows "obj_asleep x"
proof -
  obtain d where "obj_inv n d x" using assms(1) by (auto simp: sound_def)
  from base_phase [OF base_inv [OF this]] show ?thesis
    using assms(2) by (cases "state (base_of x)") (auto simp: obj_asleep_def asleep_def n_of_nil current_ops_def)
qed

definition sleep_inv :: "io_module \<Rightarrow> bool" where
  "sleep_inv M \<longleftrightarrow>
     (stage (module M) = Polling \<longrightarrow> \<not> stopped M)
     \<and> (stopped M \<and> moduleOpen (module M) \<longrightarrow> sleeping.all_sockets (module M))"

lemma not_outstanding:
  assumes "mod_inv n m" "\<not> outstanding m"
  shows "sleeping.all_sockets m"
  unfolding sleeping.all_sockets_def
proof (intro allI impI)
  fix p x assume x: "heap m p = Some x"
  then have "p \<in> allSockets m" "sound n x" using assms(1) unfolding mod_inv_def sockets_ok_def by blast+
  with assms(2) x show "obj_asleep x" by (intro idle_asleep) (auto simp: outstanding_def)
qed

text \<open>The functions that Lua calls do not look at the stage.\<close>

definition stage_free :: "(lua_module \<Rightarrow> mod_res) \<Rightarrow> bool" where
  "stage_free f \<longleftrightarrow> (\<forall>m S. f (m\<lparr>stage := S\<rparr>) = map_option (\<lambda>(m, out). (m\<lparr>stage := S\<rparr>, out)) (f m))"

lemma stage_freeI:
  "(\<And>m S. f (m\<lparr>stage := S\<rparr>) = map_option (\<lambda>(m, out). (m\<lparr>stage := S\<rparr>, out)) (f m)) \<Longrightarrow> stage_free f"
  by (simp add: stage_free_def)

lemma stage_freeD:
  "stage_free f \<Longrightarrow> f (m\<lparr>stage := S\<rparr>) = map_option (\<lambda>(m, out). (m\<lparr>stage := S\<rparr>, out)) (f m)"
  by (simp add: stage_free_def)

lemma stage_free_kept:
  assumes "stage_free f" "f m = Some (m', out)"
  shows "stage m' = stage m"
proof -
  have "m\<lparr>stage := stage m\<rparr> = m" by simp
  with stage_freeD [OF assms(1), of "stage m" m] assms(2) have "m' = m'\<lparr>stage := stage m\<rparr>" by simp
  moreover have "stage (m'\<lparr>stage := stage m\<rparr>) = stage m" by simp
  ultimately show ?thesis by metis
qed

named_theorems stage_frees

lemma call_socket_stage_free [stage_frees]: "stage_free (call_socket e p)"
proof (rule stage_freeI)
  fix m :: lua_module and S
  show "call_socket e p (m\<lparr>stage := S\<rparr>) = map_option (\<lambda>(m, out). (m\<lparr>stage := S\<rparr>, out)) (call_socket e p m)"
  proof (cases "heap m p")
    case (Some x)
    then show ?thesis by (cases "obj_step e x") (auto simp: call_socket_def on_socket_def)
  qed (simp add: call_socket_def on_socket_def)
qed

lemma set_field_stage_free [stage_frees]: "stage_free (set_field msg f p)"
  by (auto simp: stage_free_def set_field_def on_socket_def lua_error_def split: option.split prod.split)

lemma guards_stage_free [stage_frees]:
  "(\<And>p. stage_free (k p)) \<Longrightarrow> stage_free (getCppObject self k)"
  "(\<And>s. stage_free (f s)) \<Longrightarrow> stage_free (checkString v f)"
  "(\<And>b. stage_free (g b)) \<Longrightarrow> stage_free (checkBool v g)"
  "stage_free (k p) \<Longrightarrow> stage_free (if_disconnected msg k p)"
  by (auto simp: stage_free_def getCppObject_def checkString_def checkBool_def if_disconnected_def lua_error_def
      read_state_def split: lua_val.split option.split)

lemma stage_last:
  "m\<lparr>stage := S, registry := R, socketTableReferences := T\<rparr> = m\<lparr>registry := R, socketTableReferences := T\<rparr>\<lparr>stage := S\<rparr>"
  "m\<lparr>stage := S, socketTableReferences := T, gcedSockets := G\<rparr> = m\<lparr>socketTableReferences := T, gcedSockets := G\<rparr>\<lparr>stage := S\<rparr>"
  "m\<lparr>stage := S, gcedSockets := G\<rparr> = m\<lparr>gcedSockets := G\<rparr>\<lparr>stage := S\<rparr>"
  by simp_all

lemma open_stage_free:
  "stage_free (\<lambda>m. let m = (if socketTableReferences m p = None
                then m\<lparr>registry := (registry m)(r \<mapsto> p),
                       socketTableReferences := (socketTableReferences m)(p \<mapsto> r)\<rparr>
                else m)
       in call_socket e p m)"
  by (rule stage_freeI) (auto simp: Let_def stage_last stage_freeD [OF call_socket_stage_free])

lemma lua_step_stage_free: "stage_free (lua_step tc tx c)"
proof (cases c)
  case (CreateWebSocket p a b)
  show ?thesis
    unfolding CreateWebSocket lua_step.simps createWebSocket_def
    by (rule guards_stage_free(2), rule stage_freeI) (simp add: Let_def split: exec.split url_exn.split)
next
  case (CallOpen r s a)
  show ?thesis
    unfolding CallOpen lua_step.simps socketOpen_def by (intro guards_stage_free(1,4) open_stage_free)
next
  case (CallIsConnected s)
  then show ?thesis
    by (auto simp: socketIsConnected_def stage_free_def read_state_def getCppObject_def lua_error_def option.map_comp o_def
        split: lua_val.split option.split)
qed (auto simp: socketWrite_def socketClose_def socketCloseNow_def socketClearQueue_def socketSetCookie_def
      socketSetHeader_def socketSetMessageCompression_def socketSetDisableContextTakeover_def intro!: stage_frees)

lemma collect_stage_free: "stage_free (socketGCFunction p)"
  by (rule stage_freeI) (auto simp: socketGCFunction_def Let_def stage_last stage_freeD [OF call_socket_stage_free])

lemma sweep_stage: "sweep ps m = Some m' \<Longrightarrow> stage m' = stage m"
  by (induction ps arbitrary: m) (auto simp: delete_socket_def split: option.splits if_split_asm)

lemma for_all_stage: "for_all_sockets e ps m = Some m' \<Longrightarrow> stage m' = stage m"
  by (induction ps arbitrary: m) (auto simp: on_socket_def split: option.splits)

lemma next_entry_stage: "next_entry p r es m = Some (m', out) \<Longrightarrow> \<exists>c. stage m' = Dispatching es c"
  by (auto simp: next_entry_def split: option.splits prod.splits if_split_asm)

lemma sweep_ends_poll:
  "mod_step tc tx (Sweep ps es) m = Some (m', out) \<Longrightarrow> stage m = Polling \<Longrightarrow> stage m' = Dispatching es None"
  by auto

lemma dispatch_stage:
  assumes "dispatch m = Some (m', out)" "stage m = Dispatching es c"
  shows "stage m' = Idle \<or> (\<exists>es c. stage m' = Dispatching es c)"
proof (cases c)
  case None
  with assms show ?thesis
    by (cases es) (auto simp: dispatch_def dest: next_entry_stage)
next
  case (Some e)
  obtain p r ms where "e = (p, r, ms)" by (cases e)
  with assms Some show ?thesis by (cases ms) (auto simp: dispatch_def split: option.splits)
qed

lemma mod_step_stage:
  assumes "mod_step tc tx e m = Some (m', out)"
  shows "stage m' = stage m
    \<or> (case e of Think \<Rightarrow> stage m = Idle \<and> stage m' = Polling
        | Sweep ps es \<Rightarrow> stage m = Polling \<and> stage m' = Dispatching es None
        | CloseBegin b ps \<Rightarrow> stage m = Idle \<and> stage m' = Closing
        | CloseEnd ps \<Rightarrow> stage m = Closing \<and> stage m' = Closed
        | _ \<Rightarrow> (\<exists>es c. stage m = Dispatching es c) \<and> (stage m' = Idle \<or> (\<exists>es c. stage m' = Dispatching es c)))"
proof (cases e)
  case (Call c)
  with assms show ?thesis
    using stage_free_kept [OF lua_step_stage_free] by (simp split: if_split_asm)
next
  case (Collect p)
  with assms show ?thesis
    using stage_free_kept [OF collect_stage_free] by (fastforce split: if_split_asm)
next
  case (IO p v)
  with assms show ?thesis
    using stage_free_kept [OF call_socket_stage_free] by (simp split: if_split_asm)
next
  case Dispatch
  with assms show ?thesis
    using dispatch_stage by (cases "stage m") (simp_all add: dispatch_def)
next
  case Abort
  with assms show ?thesis by (auto split: stage.splits)
next
  case (CloseBegin b ps)
  with assms show ?thesis by (auto simp: module_close_begin_def dest: for_all_stage split: if_split_asm)
next
  case (CloseEnd ps)
  with assms show ?thesis by (auto simp: module_close_end_def split: if_split_asm)
qed (use assms in \<open>auto split: if_split_asm\<close>)

lemma loop_simps [simp]:
  "stopped (restart_if_stopped M) = False" "module (restart_if_stopped M) = module M"
  "stopped (poll_returns M) = (stopped M \<or> \<not> outstanding (module M))" "module (poll_returns M) = module M"
  by (simp_all add: restart_if_stopped_def poll_returns_def)

lemma stays_closed:
  assumes "mod_step tc tx e m = Some (m', out)" "stage m = Closing \<or> stage m = Closed"
  shows "stage m' = Closing \<or> stage m' = Closed"
  using mod_step_stage [OF assms(1)] assms(2) by (cases e) auto

lemma io_step_mod:
  assumes "io_step tc tx e M = Some (M', out)"
  shows "(stopped M \<and> M' = M) \<or> mod_step tc tx e (module M) = Some (module M', out)"
  using assms
  by (cases e) (auto simp: on_io_def split: if_split_asm)

lemma io_reach_mod:
  "io_reach tc tx n M \<Longrightarrow> \<exists>k\<le>n. mod_reach tc tx k (module M)"
proof (induction rule: io_reach.induct)
  case io_init
  show ?case using mod_reach.mod_init by (auto simp: initialize_def)
next
  case (io_next n M e M' out)
  then obtain k where k: "k \<le> n" "mod_reach tc tx k (module M)" by blast
  from io_step_mod [OF io_next.hyps(3)] show ?case
  proof
    assume "stopped M \<and> M' = M"
    with k show ?thesis by (intro exI [of _ k]) simp
  next
    assume "mod_step tc tx e (module M) = Some (module M', out)"
    with k io_next.hyps(2) show ?thesis by (intro exI [of _ "k + counted e"]) (auto intro: mod_reach.mod_next)
  qed
qed

lemma io_reach_inv: "io_reach tc tx n M \<Longrightarrow> n < 2 ^ 32 \<Longrightarrow> mod_inv n (module M)"
  using io_reach_mod mod_reach_inv mod_inv_mono by (metis order.strict_trans1)

lemma close_ends:
  "io_step tc tx (CloseEnd ps) M = Some (M', out) \<Longrightarrow> stage (module M) = Closing \<Longrightarrow>
   stopped M' \<and> stage (module M') = Closed"
  "io_step tc tx (CloseEnd ps) M = Some (M', out) \<Longrightarrow> stage (module M) \<noteq> Closing \<Longrightarrow> M' = M"
  by (auto simp: on_io_def module_close_end_def)

lemma sleep_inv_step:
  assumes "sleep_inv M" "mod_inv n (module M)" "mod_inv n' (module M')" "n < 2 ^ 32"
    and "ev_ok e (module M)" "io_step tc tx e M = Some (M', out)"
  shows "sleep_inv M'"
proof (cases "stopped M \<and> M' = M")
  case False
  let ?m = "module M" and ?m' = "module M'"
  have step: "mod_step tc tx e ?m = Some (?m', out)" using io_step_mod [OF assms(6)] False by blast
  note st = mod_step_stage [OF step]
  have open_m: "moduleOpen ?m" if "moduleOpen ?m'"
    using that assms(2,3) stays_closed [OF step] by (auto simp: mod_inv_def)
  have keeps: "sleeping.all_sockets ?m'"
    if "sleeping.all_sockets ?m" "moduleOpen ?m'" "\<And>p v. e \<noteq> IO p v"
  proof (cases "?m' = ?m")
    case False
    have closing: "stage ?m' \<noteq> Closing" "stage ?m' \<noteq> Closed" using that(2) assms(3) by (auto simp: mod_inv_def)
    show ?thesis
    proof (rule sleeping.mod_step_keeps [OF assms(2,4) that(1) assms(5) step that(3)])
      show "e \<noteq> CloseBegin b ps" for b ps
        using False closing step by (auto simp: module_close_begin_def dest!: for_all_stage split: if_split_asm)
      show "e \<noteq> CloseEnd ps" for ps
        using False closing step st by (auto split: if_split_asm)
    qed
  qed (use that(1) in simp)
  have asleep: "sleeping.all_sockets ?m" if "stopped M" "moduleOpen ?m"
    using assms(1) that by (simp add: sleep_inv_def)
  show ?thesis
  proof (cases e)
    case Think
    then have "stopped M' = (if stage ?m = Idle then False else stopped M)" "stage ?m \<noteq> Idle \<longrightarrow> ?m' = ?m"
      using assms(6) by (auto simp: on_io_def)
    with assms(1) show ?thesis by (auto simp: sleep_inv_def)
  next
    case (IO p v)
    then have "\<not> stopped M" "\<not> stopped M'" using assms(6) False by (auto simp: on_io_def split: if_split_asm)
    then show ?thesis by (simp add: sleep_inv_def)
  next
    case (Sweep ps es)
    have M': "stopped M' = (stopped M \<or> (stage ?m = Polling \<and> \<not> outstanding ?m))"
      using assms(6) Sweep by (cases "stage ?m = Polling") (auto simp: on_io_def)
    have "stage ?m = Polling \<Longrightarrow> stage ?m' \<noteq> Polling" using sweep_ends_poll [OF step [unfolded Sweep]] by simp
    moreover have "sleeping.all_sockets ?m" if "stopped M'" "moduleOpen ?m"
      using that M' asleep not_outstanding [OF assms(2)] by blast
    ultimately show ?thesis
      using st Sweep M' assms(1) keeps open_m by (auto simp: sleep_inv_def)
  next
    case (CloseEnd ps)
    then have s: "io_step tc tx (CloseEnd ps) M = Some (M', out)" using assms(6) by simp
    show ?thesis
    proof (cases "stage ?m = Closing")
      case True
      with close_ends(1) [OF s] assms(3) show ?thesis by (simp add: sleep_inv_def mod_inv_def)
    qed (use close_ends(2) [OF s] assms(1) in simp)
  qed (use assms(1,6) st keeps open_m asleep in \<open>auto simp: sleep_inv_def on_io_def split: if_split_asm\<close>)
qed (use assms(1) in simp)

lemma io_reach_sleep: "io_reach tc tx n M \<Longrightarrow> n < 2 ^ 32 \<Longrightarrow> sleep_inv M"
proof (induction rule: io_reach.induct)
  case io_init
  show ?case by (simp add: sleep_inv_def initialize_def module_opened_def)
next
  case (io_next n M e M' out)
  have "io_reach tc tx (n + counted e) M'" using io_next.hyps by (rule io_reach.io_next)
  from io_reach_inv [OF this io_next.prems] io_reach_inv [OF io_next.hyps(1)] io_next show ?case
    using sleep_inv_step [of M n "n + counted e" M' e tc tx out] by simp
qed

subsection \<open>Runs\<close>

fun io_run :: "(char \<Rightarrow> bool) \<Rightarrow> (char \<Rightarrow> bool) \<Rightarrow> mod_event list \<Rightarrow> io_module \<Rightarrow> (io_module \<times> mod_out list) option" where
  "io_run tc tx [] M = Some (M, [])"
| "io_run tc tx (e # es) M =
     (case io_step tc tx e M of None \<Rightarrow> None
      | Some (M, out) \<Rightarrow>
          (case io_run tc tx es M of None \<Rightarrow> None | Some (M, out') \<Rightarrow> Some (M, out @ out')))"

fun io_run_ok :: "(char \<Rightarrow> bool) \<Rightarrow> (char \<Rightarrow> bool) \<Rightarrow> mod_event list \<Rightarrow> io_module \<Rightarrow> bool" where
  "io_run_ok tc tx [] M = True"
| "io_run_ok tc tx (e # es) M =
     (ev_ok e (module M) \<and> (case io_step tc tx e M of None \<Rightarrow> True | Some (M, _) \<Rightarrow> io_run_ok tc tx es M))"

lemma io_run_reach:
  assumes "io_reach tc tx n M" "io_run_ok tc tx es M" "io_run tc tx es M = Some (M', out)"
  shows "io_reach tc tx (n + count_steps es) M'"
  using assms
proof (induction es arbitrary: n M out)
  case (Cons e es)
  from Cons.prems(3) obtain M1 o1 o2 where s: "io_step tc tx e M = Some (M1, o1)" "io_run tc tx es M1 = Some (M', o2)"
    by (auto split: option.splits)
  have "io_reach tc tx (n + counted e) M1" using Cons.prems(1,2) s(1) by (auto intro: io_reach.io_next)
  from Cons.IH [OF this _ s(2)] Cons.prems(2) s(1) show ?case by (simp add: count_steps_def add.assoc)
qed (simp add: count_steps_def)

definition resolve_done :: "ptr \<Rightarrow> mod_event" where
  "resolve_done p = IO p (EvComplete 0 False True done_ok)"

definition connected_script :: "ptr \<Rightarrow> int \<Rightarrow> mod_event list" where
  \<comment> \<open>a socket connects in one timer run, which tells the script so\<close>
  "connected_script p r =
     [mod_event.Call (CreateWebSocket p (LString sample_text) LNil), mod_event.Call (CallOpen r (LSocket p) LNil),
      Think, resolve_done p, resolve_done p, resolve_done p, Sweep [] [(p, r)], Dispatch, Dispatch, Dispatch, Dispatch]"

lemma connected_run:
  obtains M x where "io_run tc tx (connected_script p r) initialize = Some (M, [Created p, Callback p IN_CONNECTED ''Connected''])"
    "stage (module M) = Idle" "heap (module M) = [p \<mapsto> x]" "state (base_of x) = STATE_CONNECTED"
    "socketTableReferences (module M) = [p \<mapsto> r]" "gcedSockets (module M) = {}"
  by (simp add: connected_script_def resolve_done_def initialize_def on_io_def mod_defs run_defs Let_def to_string_80 io_event_def)

lemma connected_run_ok: "io_run_ok tc tx (connected_script p r) initialize"
  by (simp add: connected_script_def resolve_done_def initialize_def on_io_def mod_defs run_defs Let_def to_string_80 io_event_def
     self_ok_def url_ok_arg_def sample_defined entries_of_def drained_def)

text \<open>
  C22. Whenever a handler can be due while the timer runs, the io_context is not stopped,
  so that it is called: restart is called in time, although nothing else wakes it up.
\<close>

theorem timer_polls:
  assumes "io_reach tc tx n M" "n < 2 ^ 32" "stage (module M) = Polling"
  shows "\<not> stopped M \<and> io_step tc tx (IO p e) M = on_io (mod_step tc tx (IO p e)) M"
proof -
  have "\<not> stopped M" using io_reach_sleep [OF assms(1,2)] assms(3) by (simp add: sleep_inv_def)
  then show ?thesis by simp
qed

text \<open>
  C32. Unloading the module while a socket is connected or closing does not skip the
  second that it waits: the io_context is not stopped then, and every handler that becomes
  due is called.
\<close>

theorem unload_waits:
  assumes "io_reach tc tx n M" "n < 2 ^ 32 - 1" "stage (module M) = Idle" "ev_ok (CloseBegin spurious ps) (module M)"
    and "heap (module M) p = Some x" "state (base_of x) = STATE_CONNECTED \<or> state (base_of x) = STATE_DISCONNECTING"
  shows "\<exists>M'. io_step tc tx (CloseBegin spurious ps) M = Some (M', []) \<and> stage (module M') = Closing
    \<and> (\<forall>q e. io_step tc tx (IO q e) M' = on_io (mod_step tc tx (IO q e)) M')"
proof -
  have inv: "mod_inv n (module M)" using io_reach_inv [OF assms(1)] assms(2) by simp
  then have "moduleOpen (module M)" using assms(3) by (simp add: mod_inv_def)
  then have run: "\<not> stopped M"
    using io_reach_sleep [OF assms(1)] assms(2,5,6)
    by (auto simp: sleep_inv_def sleeping.all_sockets_def obj_asleep_def asleep_def)
  from close_begin_inv [OF inv assms(2) _ _ assms(3), of ps spurious] assms(4) obtain m where
    m: "module_close_begin spurious ps (module M) = Some m" by auto
  have "stage m = Closing" using m by (auto simp: module_close_begin_def dest: for_all_stage)
  then show ?thesis
    using assms(3) m run by (intro exI [of _ "M\<lparr>module := m\<rparr>"]) (simp add: on_io_def)
qed

lemma connected_reach:
  obtains M x where "io_reach tc tx 5 M" "stage (module M) = Idle" "heap (module M) = [p \<mapsto> x]"
    "state (base_of x) = STATE_CONNECTED" "socketTableReferences (module M) = [p \<mapsto> r]" "gcedSockets (module M) = {}"
proof -
  obtain M x where M: "io_run tc tx (connected_script p r) initialize = Some (M, [Created p, Callback p IN_CONNECTED ''Connected''])"
    "stage (module M) = Idle" "heap (module M) = [p \<mapsto> x]" "state (base_of x) = STATE_CONNECTED"
    "socketTableReferences (module M) = [p \<mapsto> r]" "gcedSockets (module M) = {}"
    by (rule connected_run)
  have "count_steps (connected_script p r) = 5" by (simp add: connected_script_def count_steps_def resolve_done_def)
  with io_run_reach [OF io_reach.io_init connected_run_ok M(1)] have "io_reach tc tx 5 M" by simp
  with that M show thesis by blast
qed

theorem timer_polls_witness:
  "\<exists>M. stage (module M) = Polling \<and> \<not> stopped M
    \<and> io_step sample_token sample_token (resolve_done 1) M = on_io (mod_step sample_token sample_token (resolve_done 1)) M"
proof -
  obtain M where M: "io_reach sample_token sample_token 5 M" "stage (module M) = Idle" by (rule connected_reach)
  then obtain M' where M': "io_step sample_token sample_token Think M = Some (M', [])" "stage (module M') = Polling"
    by (auto simp: on_io_def)
  have "io_reach sample_token sample_token 5 M'"
    using io_reach.io_next [OF M(1) _ M'(1)] by simp
  from timer_polls [OF this _ M'(2), of 1 "EvComplete 0 False True done_ok"] M'(2) show ?thesis
    by (auto simp: resolve_done_def)
qed

theorem unload_waits_witness:
  "\<exists>M. io_reach sample_token sample_token 5 M \<and> (\<exists>M'. io_step sample_token sample_token (CloseBegin False [1]) M = Some (M', [])
    \<and> stage (module M') = Closing
    \<and> (\<forall>q e. io_step sample_token sample_token (IO q e) M' = on_io (mod_step sample_token sample_token (IO q e)) M'))"
proof -
  obtain M x where M: "io_reach sample_token sample_token 5 M" "stage (module M) = Idle" "heap (module M) = [1 \<mapsto> x]"
    "state (base_of x) = STATE_CONNECTED" "socketTableReferences (module M) = [1 \<mapsto> 7]"
    by (rule connected_reach)
  have "\<exists>M'. io_step sample_token sample_token (CloseBegin False [1]) M = Some (M', []) \<and> stage (module M') = Closing
    \<and> (\<forall>q e. io_step sample_token sample_token (IO q e) M' = on_io (mod_step sample_token sample_token (IO q e)) M')"
    by (rule unload_waits [OF M(1) _ M(2), where p = 1 and x = x]) (use M in simp_all)
  with M(1) show ?thesis by blast
qed

end
