(* ===== verification/Lua_Think.thy ===== *)
theory Lua_Think
  imports Lua_Functions_Props Io_Loop
begin

text \<open>
  \<open>webSocketThink\<close> (GLua.cpp) as one C function on the Lua stack: it restarts and polls the
  io_context, deletes the collected sockets, and calls the callbacks. \<open>Lua_Module\<close> cuts this
  into steps, because the callbacks run Lua code that calls the module; the theorem puts
  them together again: whatever the callbacks do with the functions they are given, the
  whole function is defined, leaves the stack as it was and the module in a state that it
  can be in between two calls.
\<close>

subsection \<open>The function\<close>

text \<open>
  Beside the module the Lua state has the io_context, of which only the flag counts. The
  stage is what \<open>Lua_Module\<close> adds to say how far the function is, and plays no role here.
\<close>

type_synonym 'y io_state = "(bool \<times> 'y) mstate"

definition io_of :: "'y io_state lua_world \<Rightarrow> io_module" where
  "io_of w = \<lparr>module = fst (rest w), stopped = fst (snd (rest w))\<rparr>"

definition with_io :: "io_module \<Rightarrow> 'y io_state lua_world \<Rightarrow> 'y io_state lua_world" where
  "with_io M w = w\<lparr>rest := (module M, stopped M, snd (snd (rest w)))\<rparr>"

definition on_loop :: "(io_module \<Rightarrow> io_module option) \<Rightarrow> 'y io_state lua \<Rightarrow> (unit, 'y io_state) outcome" where
  "on_loop f L =
     (case f (io_of (world L)) of None \<Rightarrow> Undefined
      | Some M \<Rightarrow> Done () (L\<lparr>world := with_io M (world L)\<rparr>))"

datatype handler = SocketHandler ptr sock_event | OrphanHandler nat

fun run_handlers :: "handler list \<Rightarrow> lua_module \<Rightarrow> lua_module option" where
  \<comment> \<open>the handlers that \<open>poll\<close> finds due; one of a deleted socket is undefined\<close>
  "run_handlers [] m = Some m"
| "run_handlers (SocketHandler p e # hs) m =
     (if io_event e \<and> heap m p \<noteq> None
      then (case on_socket p (obj_step e) m of None \<Rightarrow> None | Some (m, _) \<Rightarrow> run_handlers hs m)
      else run_handlers hs m)"
| "run_handlers (OrphanHandler i # hs) m = (if i < length (orphans m) then None else run_handlers hs m)"

definition poll :: "handler list \<Rightarrow> io_module \<Rightarrow> io_module option" where
  "poll hs M =
     (if stopped M then Some M
      else map_option (\<lambda>m. poll_returns (M\<lparr>module := m\<rparr>)) (run_handlers hs (module M)))"

definition drop_reference :: "ptr \<Rightarrow> int \<Rightarrow> lua_module \<Rightarrow> lua_module" where
  "drop_reference p r m = m\<lparr>registry := (registry m)(r := None),
     socketTableReferences := (socketTableReferences m)(p := None)\<rparr>"

definition think_entry :: "'x mstate lua_env \<Rightarrow> ptr \<times> int \<Rightarrow> 'x mstate lua \<Rightarrow> (unit, 'x mstate) outcome" where
  \<comment> \<open>the body of the loop over the copied entries\<close>
  "think_entry E = (\<lambda>(socket, tableReference).
     lua_bind (on_module (on_socket socket (obj_step EvPoll))) (\<lambda>messages.
     lua_bind (read_module (read_state socket)) (\<lambda>st.
       if messages = [] \<and> st \<noteq> STATE_DISCONNECTED then lua_return ()
       else
         lua_bind (deliver_all E tableReference messages) (\<lambda>_.
         lua_bind (read_module (read_state socket)) (\<lambda>st.
           if st = STATE_DISCONNECTED \<and> messages = [] then
             lua_seq [ReferenceFree tableReference, on_module (\<lambda>m. Some (drop_reference socket tableReference m, ()))]
           else lua_return ())))))"

definition webSocketThink_on ::
  "'y io_state lua_env \<Rightarrow> handler list \<Rightarrow> ptr list \<Rightarrow> (ptr \<times> int) list \<Rightarrow> 'y io_state lua \<Rightarrow>
   (nat, 'y io_state) outcome" where
  \<comment> \<open>\<open>ps\<close> and \<open>es\<close> are the orders in which the containers are met\<close>
  "webSocketThink_on E hs ps es =
     lua_bind (lua_seq
       [on_loop (\<lambda>M. Some (restart_if_stopped M)), on_loop (poll hs),
        on_module (\<lambda>m. map_option (\<lambda>m. (m, ())) (sweep ps m)), lua_seq (map (think_entry E) es)])
       (\<lambda>_. lua_return 0)"

subsection \<open>Scripts\<close>

text \<open>
  What a callback may do to the module: any number of calls of its functions, and the
  collection of sockets that it let go.
\<close>

inductive lua_runs :: "(char \<Rightarrow> bool) \<Rightarrow> (char \<Rightarrow> bool) \<Rightarrow> nat \<Rightarrow> lua_module \<Rightarrow> lua_module \<Rightarrow> bool" for tc tx where
  runs_none: "lua_runs tc tx 0 m m"
| runs_call: "lua_runs tc tx k m m1 \<Longrightarrow> call_ok c m1 \<Longrightarrow> lua_step tc tx c m1 = Some (m2, out) \<Longrightarrow>
              lua_runs tc tx (Suc k) m m2"
| runs_collect: "lua_runs tc tx k m m1 \<Longrightarrow> p \<in> userdata m1 \<Longrightarrow> p \<notin> ran (registry m1) \<Longrightarrow>
                 socketGCFunction p (m1\<lparr>userdata := userdata m1 - {p}\<rparr>) = Some (m2, out) \<Longrightarrow>
                 lua_runs tc tx (Suc k) m m2"

definition uses_api ::
  "(char \<Rightarrow> bool) \<Rightarrow> (char \<Rightarrow> bool) \<Rightarrow> ('y \<Rightarrow> nat) \<Rightarrow> nat \<Rightarrow> 'y io_state lua_world \<Rightarrow> 'y io_state lua_world \<Rightarrow> bool" where
  \<comment> \<open>\<open>calls\<close> says how many calls were made so far, and there are at most \<open>limit\<close> of them\<close>
  "uses_api tc tx calls limit w w' \<longleftrightarrow>
     fst (snd (rest w')) = fst (snd (rest w))
     \<and> (\<exists>k. lua_runs tc tx k (fst (rest w)) (fst (rest w'))
           \<and> calls (snd (snd (rest w'))) = calls (snd (snd (rest w))) + k)
     \<and> (calls (snd (snd (rest w))) \<le> limit \<longrightarrow> calls (snd (snd (rest w'))) \<le> limit)"

definition scripts_ok ::
  "(char \<Rightarrow> bool) \<Rightarrow> (char \<Rightarrow> bool) \<Rightarrow> ('y \<Rightarrow> nat) \<Rightarrow> nat \<Rightarrow> 'y io_state lua_env \<Rightarrow> bool" where
  \<comment> \<open>functions and metamethods act through the module's functions, and raise errors that have a text\<close>
  "scripts_ok tc tx calls limit E \<longleftrightarrow>
     (\<forall>f args w. uses_api tc tx calls limit w (snd (invoke E f args w)))
     \<and> (\<forall>v k w. uses_api tc tx calls limit w (snd (index E v k w)))
     \<and> (\<forall>f args w e. fst (invoke E f args w) = Inl e \<longrightarrow> string_of e \<noteq> None)"

end
