(* ===== verification/Lua_Think_Props.thy ===== *)
theory Lua_Think_Props
  imports Lua_Think
begin

text \<open>The proof that \<open>webSocketThink\<close> as a whole is safe, for any callbacks.\<close>

subsection \<open>What callbacks keep\<close>

lemma set_stage_twice [simp]: "m\<lparr>stage := S\<rparr>\<lparr>stage := T\<rparr> = m\<lparr>stage := T\<rparr>"
  by simp

lemma call_ok_stage [simp]: "call_ok c (m\<lparr>stage := S\<rparr>) = call_ok c m"
  by (cases c) (simp_all add: self_ok_def write_ok_def split: lua_val.split)

lemma lua_runs_reach:
  assumes "lua_runs tc tx k m m'" "io_reach tc tx n \<lparr>module = m\<lparr>stage := S\<rparr>, stopped = b\<rparr>"
    and S: "lua_running (m\<lparr>stage := S\<rparr>)"
  shows "io_reach tc tx (n + k) \<lparr>module = m'\<lparr>stage := S\<rparr>, stopped = b\<rparr>"
  using assms(1,2)
proof (induction rule: lua_runs.induct)
  case (runs_none m)
  then show ?case by simp
next
  case (runs_call k m m1 c m2 out)
  let ?M = "\<lparr>module = m1\<lparr>stage := S\<rparr>, stopped = b\<rparr>"
  have run: "lua_running (m1\<lparr>stage := S\<rparr>)" using S by (simp add: lua_running_def)
  have "lua_step tc tx c (m1\<lparr>stage := S\<rparr>) = Some (m2\<lparr>stage := S\<rparr>, out)"
    using stage_freeD [OF lua_step_stage_free] runs_call.hyps(3) by simp
  then have "io_step tc tx (mod_event.Call c) ?M = Some (\<lparr>module = m2\<lparr>stage := S\<rparr>, stopped = b\<rparr>, out)"
    using run by (simp add: on_io_def)
  from io_reach.io_next [OF runs_call.IH [OF runs_call.prems] _ this] runs_call.hyps(2) show ?case by simp
next
  case (runs_collect k m m1 p m2 out)
  let ?M = "\<lparr>module = m1\<lparr>stage := S\<rparr>, stopped = b\<rparr>"
  have run: "lua_running (m1\<lparr>stage := S\<rparr>)" using S by (simp add: lua_running_def)
  have "m1\<lparr>stage := S, userdata := userdata m1 - {p}\<rparr> = m1\<lparr>userdata := userdata m1 - {p}\<rparr>\<lparr>stage := S\<rparr>" by simp
  then have "socketGCFunction p (m1\<lparr>stage := S, userdata := userdata m1 - {p}\<rparr>) = Some (m2\<lparr>stage := S\<rparr>, out)"
    using stage_freeD [OF collect_stage_free] runs_collect.hyps(4) by (simp only:) simp
  then have "io_step tc tx (Collect p) ?M = Some (\<lparr>module = m2\<lparr>stage := S\<rparr>, stopped = b\<rparr>, out)"
    using run runs_collect.hyps(2) by (simp add: on_io_def)
  from io_reach.io_next [OF runs_collect.IH [OF runs_collect.prems] _ this] runs_collect.hyps(3) show ?case by simp
qed

definition good :: "(char \<Rightarrow> bool) \<Rightarrow> (char \<Rightarrow> bool) \<Rightarrow> ('y \<Rightarrow> nat) \<Rightarrow> nat \<Rightarrow> nat \<Rightarrow> stage \<Rightarrow> 'y io_state lua_world \<Rightarrow> bool" where
  \<comment> \<open>the module can be in this state when it is at stage \<open>S\<close>, after \<open>n\<close> steps that were no calls\<close>
  "good tc tx calls limit n S w \<longleftrightarrow>
     io_reach tc tx (n + calls (snd (snd (rest w)))) \<lparr>module = (fst (rest w))\<lparr>stage := S\<rparr>, stopped = fst (snd (rest w))\<rparr>
     \<and> calls (snd (snd (rest w))) \<le> limit"

definition running :: "stage \<Rightarrow> bool" where
  "running S = (case S of Idle \<Rightarrow> True | Dispatching _ (Some _) \<Rightarrow> True | _ \<Rightarrow> False)"

lemma good_uses_api:
  assumes "good tc tx calls limit n S w" "uses_api tc tx calls limit w w'" "running S"
  shows "good tc tx calls limit n S w'"
proof -
  obtain k where k: "lua_runs tc tx k (fst (rest w)) (fst (rest w'))"
      "calls (snd (snd (rest w'))) = calls (snd (snd (rest w))) + k" "fst (snd (rest w')) = fst (snd (rest w))"
    using assms(2) by (auto simp: uses_api_def)
  have "lua_running ((fst (rest w))\<lparr>stage := S\<rparr>)" using assms(3) by (simp add: running_def lua_running_def)
  from lua_runs_reach [OF k(1) _ this] assms(1) k(2,3)
  have "io_reach tc tx (n + calls (snd (snd (rest w))) + k)
      \<lparr>module = (fst (rest w'))\<lparr>stage := S\<rparr>, stopped = fst (snd (rest w'))\<rparr>"
    by (simp add: good_def)
  with k(2) assms(1,2) show ?thesis by (simp add: good_def uses_api_def add.assoc)
qed

lemma good_refs [simp]: "good tc tx calls limit n S (w\<lparr>refs := R\<rparr>) = good tc tx calls limit n S w"
  by (simp add: good_def)

subsection \<open>Properties that the stack operations keep\<close>

fun outcome_all :: "('w lua_world \<Rightarrow> bool) \<Rightarrow> ('a, 'w) outcome \<Rightarrow> bool" where
  "outcome_all P (Done x L) = P (world L)"
| "outcome_all P (Raised e w) = P w"
| "outcome_all P Undefined = True"

definition stays :: "('w lua_world \<Rightarrow> bool) \<Rightarrow> ('w lua \<Rightarrow> ('a, 'w) outcome) \<Rightarrow> bool" where
  "stays P f \<longleftrightarrow> (\<forall>L. P (world L) \<longrightarrow> outcome_all P (f L))"

named_theorems stay_rules

lemma stays_bind [stay_rules]:
  assumes "stays P f" "\<And>x. stays P (g x)"
  shows "stays P (lua_bind f g)"
  unfolding stays_def
proof (intro allI impI)
  fix L :: "'a lua" assume "P (world L)"
  with assms(1) have "outcome_all P (f L)" by (simp add: stays_def)
  with assms(2) show "outcome_all P (lua_bind f g L)" by (cases "f L") (simp_all add: lua_bind_def stays_def)
qed

lemma stays_return [stay_rules]: "stays P (lua_return x)"
  by (simp add: stays_def lua_return_def)

lemma stays_if [stay_rules]: "stays P f \<Longrightarrow> stays P g \<Longrightarrow> stays P (if b then f else g)"
  by simp

lemma stays_seq [stay_rules]: "(\<And>f. f \<in> set fs \<Longrightarrow> stays P f) \<Longrightarrow> stays P (lua_seq fs)"
  by (induction fs) (auto intro: stay_rules)

lemma stays_stack [stay_rules]:
  "stays P (push_value v)" "stays P (Push i)" "stays P (Pop n)" "stays P Top" "stays P PushSpecial_GLOB"
  "stays P (PushString s)" "stays P (PushString_len s)" "stays P (ReferencePush r)"
  "stays P (IsType_Function i)" "stays P (GetString i)"
  by (auto simp: stays_def push_value_def Push_def with_value_def Pop_def Top_def PushSpecial_GLOB_def PushString_def
      PushString_len_def ReferencePush_def IsType_Function_def GetString_def lua_return_def split: option.split)

lemma stays_undefined [stay_rules]: "stays P (\<lambda>_. Undefined)"
  by (simp add: stays_def)

lemma stays_GetField [stay_rules]:
  assumes "\<And>v k w. P w \<Longrightarrow> P (snd (index E v k w))"
  shows "stays P (GetField E i k)"
proof -
  have g: "P w'" if "P w" "get_field E v k w = (r, w')" for v w r w'
  proof -
    have "snd (get_field E v k w) = w \<or> snd (get_field E v k w) = snd (index E v k w)"
      by (simp add: get_field_def split: lua_value.split option.split)
    with assms [of w v k] that show ?thesis by auto
  qed
  show ?thesis
    unfolding stays_def
  proof (intro allI impI)
    fix L :: "'a lua" assume P: "P (world L)"
    show "outcome_all P (GetField E i k L)"
    proof (cases "at i L")
      case (Some v)
      obtain r w' where r: "get_field E v k (world L) = (r, w')" by fastforce
      with g P have "P w'" by blast
      with Some r show ?thesis by (cases r) (simp_all add: GetField_def with_value_def push_value_def)
    qed (simp add: GetField_def with_value_def)
  qed
qed

lemma stays_calls [stay_rules]:
  fixes E :: "'w lua_env"
  assumes "\<And>f args w. P w \<Longrightarrow> P (snd (invoke E f args w))"
  shows "stays P (Call E n r)" "stays P (PCall E n r)"
proof -
  have "outcome_all P (Call E n r L) \<and> outcome_all P (PCall E n r L)" if P: "P (world L)" for L :: "'w lua"
  proof -
    obtain x w' where x: "invoke E (stack L ! n) (rev (take n (stack L))) (world L) = (x, w')" by fastforce
    with assms P have "P w'" by (metis snd_conv)
    with x show ?thesis by (cases x) (simp_all add: Call_def PCall_def)
  qed
  then show "stays P (Call E n r)" "stays P (PCall E n r)" by (simp_all add: stays_def)
qed

lemma deliver_stays:
  assumes "\<And>f args w. P w \<Longrightarrow> P (snd (invoke E f args w))" "\<And>v k w. P w \<Longrightarrow> P (snd (index E v k w))"
  shows "stays P (deliver E i msg)"
proof -
  have en: "stays P (throwErrorNoHalt E t)" for t
    unfolding throwErrorNoHalt_def by (auto intro!: stay_rules assms)
  have "stays P (pcall E n)" for n
    unfolding pcall_def
    by (intro stay_rules assms, auto split: option.split intro!: stay_rules en)
  then show ?thesis
    unfolding deliver_def by (auto intro!: stay_rules assms)
qed

lemma good_scripts:
  assumes "scripts_ok tc tx calls limit E" "running S" "good tc tx calls limit n S w"
  shows "good tc tx calls limit n S (snd (invoke E f args w))" "good tc tx calls limit n S (snd (index E v k w))"
  using assms good_uses_api [OF assms(3)] by (auto simp: scripts_ok_def)

lemma deliver_good:
  assumes "scripts_ok tc tx calls limit E" "running S"
  shows "stays (good tc tx calls limit n S) (deliver E i msg)"
  by (rule deliver_stays) (use good_scripts [OF assms] in blast)+

subsection \<open>Nothing is undefined\<close>

lemma height_pcall:
  fixes E :: "'w lua_env"
  assumes "\<And>f args w e. fst (invoke E f args w) = Inl e \<Longrightarrow> string_of e \<noteq> None"
    and "n + 1 \<le> h" "H = (\<lambda>_. h - (n + 1))"
  shows "height s h H (pcall E n)"
proof (rule heightI)
  fix L :: "'w lua" and vs :: "lua_value list"
  assume L: "stack L = vs @ s" "length vs = h"
  let ?below = "drop (n + 1) vs @ s"
  have d: "drop (n + 1) (stack L) = ?below" "\<not> length (stack L) < n + 1" using L assms(2) by simp_all
  obtain r w where r: "invoke E (stack L ! n) (rev (take n (stack L))) (world L) = (r, w)" by fastforce
  show "fits s H (pcall E n L)"
  proof (cases r)
    case (Inr xs)
    with r d L(2) assms(3) show ?thesis
      by (simp add: pcall_def lua_bind_def PCall_def Let_def adjust_def lua_return_def del: drop_append)
  next
    case (Inl e)
    then obtain t where t: "string_of e = Some t" using assms(1) r by (metis fst_conv option.exhaust)
    let ?L = "L\<lparr>stack := e # ?below, world := w\<rparr>"
    have "height s (h - n) H (lua_seq [throwErrorNoHalt E (c_str t), Pop 1])"
      unfolding lua_seq.simps
      by (rule heights function_effects(2) [THEN stack_effect_height] refl | (use assms(2,3) in simp; fail))+
    moreover have "stack ?L = (e # drop (n + 1) vs) @ s" "length (e # drop (n + 1) vs) = h - n"
      using L(2) assms(2) by simp_all
    ultimately have "fits s H (lua_seq [throwErrorNoHalt E (c_str t), Pop 1] ?L)" by (rule heightD)
    with r d Inl t show ?thesis
      by (simp add: pcall_def lua_bind_def PCall_def Let_def GetString_def with_value_def lua_return_def del: drop_append lua_seq.simps)
  qed
qed

lemma height_Push_base:
  assumes "1 \<le> i" "i \<le> int (length s)" "H = (\<lambda>_. Suc h)"
  shows "height s h H (Push i)"
proof (rule heightI)
  fix L :: "'a lua" and vs :: "lua_value list"
  assume "stack L = vs @ s" "length vs = h"
  then obtain v where "at i L = Some v" using assms(1,2) by (auto simp: at_def Let_def)
  with \<open>stack L = vs @ s\<close> \<open>length vs = h\<close> assms(3) show "fits s H (Push i L)"
    by (simp add: Push_def with_value_def push_value_def)
qed

lemma height_GetField_top:
  assumes "s \<noteq> []" "H = (\<lambda>_. Suc h)"
  shows "height s h H (GetField E (- 1) k)"
proof (rule heightI)
  fix L :: "'a lua" and vs :: "lua_value list"
  assume L: "stack L = vs @ s" "length vs = h"
  then obtain v where "at (- 1) L = Some v" using assms(1) by (cases "vs @ s") (simp_all add: at_def)
  with L assms(2) show "fits s H (GetField E (- 1) k L)"
    by (auto simp: GetField_def with_value_def push_value_def split: prod.split sum.split)
qed

lemma deliver_height:
  assumes "\<And>f args w e. fst (invoke E f args w) = Inl e \<Longrightarrow> string_of e \<noteq> None" "s \<noteq> []" "i = int (length s)"
  shows "height s 0 (\<lambda>_. 0) (deliver E i msg)"
proof -
  have i: "1 \<le> i" "i \<le> int (length s)" using assms(2,3) by (cases s; simp)+
  show ?thesis
    unfolding deliver_def lua_seq.simps PushString_len_eq
    by (rule heights height_GetField_top [OF assms(2)] height_Push_base [OF i] height_pcall [OF assms(1)] refl
         | (simp; fail))+
qed

lemma deliver_loop_height:
  assumes "\<And>f args w e. fst (invoke E f args w) = Inl e \<Longrightarrow> string_of e \<noteq> None" "s \<noteq> []" "i = int (length s)"
  shows "height s 0 (\<lambda>_. 0) (lua_seq (map (deliver E i) msgs))"
proof (induction msgs)
  case (Cons msg msgs)
  then show ?case
    unfolding list.map lua_seq.simps
    by (intro height_bind [OF deliver_height [OF assms]]) simp_all
qed (simp add: height_return)

text \<open>The two together: defined, the same stack afterwards, and a property of the Lua state kept.\<close>

definition runs_to ::
  "lua_value list \<Rightarrow> ('w lua_world \<Rightarrow> bool) \<Rightarrow> ('w lua_world \<Rightarrow> bool) \<Rightarrow> ('a, 'w) outcome \<Rightarrow> bool" where
  "runs_to s Q R out \<longleftrightarrow>
     (case out of Done x L \<Rightarrow> stack L = s \<and> Q (world L) | Raised e w \<Rightarrow> R w | Undefined \<Rightarrow> False)"

lemma runs_to_simps [simp]:
  "runs_to s Q R (Done x L) \<longleftrightarrow> stack L = s \<and> Q (world L)" "runs_to s Q R (Raised e w) \<longleftrightarrow> R w"
  "\<not> runs_to s Q R Undefined"
  by (simp_all add: runs_to_def)

lemma runs_to_bind:
  assumes "runs_to s Q R (f L)" "\<And>x L'. stack L' = s \<Longrightarrow> Q (world L') \<Longrightarrow> runs_to t Q' R (g x L')"
  shows "runs_to t Q' R (lua_bind f g L)"
  using assms by (cases "f L") (simp_all add: lua_bind_def)

lemma runs_to_Raised: "runs_to s Q R out \<Longrightarrow> (\<And>w. R w \<Longrightarrow> R' w) \<Longrightarrow> runs_to s Q R' out"
  by (cases out) simp_all

lemma runs_to_fits:
  assumes "height s 0 (\<lambda>_. 0) f" "stays P f" "stack L = s" "P (world L)"
  shows "runs_to s P P (f L)"
proof -
  have "fits s (\<lambda>_. 0) (f L)" using heightD [OF assms(1), of L "[]"] assms(3) by simp
  moreover have "outcome_all P (f L)" using assms(2,4) by (simp add: stays_def)
  ultimately show ?thesis by (cases "f L") auto
qed

subsection \<open>One entry\<close>

lemma io_step_safe:
  assumes "io_reach tc tx n M" "n + counted e < 2 ^ 32" "ev_ok e (module M)"
  shows "mod_step tc tx e (module M) \<noteq> None"
proof -
  obtain k where k: "k \<le> n" "mod_reach tc tx k (module M)" using io_reach_mod [OF assms(1)] by blast
  with assms(2) have "k + counted e < 2 ^ 32" by simp
  have "mod_inv k (module M)" using mod_reach_inv [OF k(2)] \<open>k + counted e < 2 ^ 32\<close> by simp
  from mod_step_fine [OF this \<open>k + counted e < 2 ^ 32\<close> assms(3), of tc tx] show ?thesis
    unfolding fine_def by blast
qed

lemma good_step:
  assumes "good tc tx calls limit n S w"
    and "dispatch ((fst (rest w))\<lparr>stage := S\<rparr>) = Some (m\<lparr>stage := S'\<rparr>, out)"
  shows "good tc tx calls limit n S' (with_module m w)"
proof -
  have "io_step tc tx Dispatch \<lparr>module = (fst (rest w))\<lparr>stage := S\<rparr>, stopped = fst (snd (rest w))\<rparr> =
      Some (\<lparr>module = m\<lparr>stage := S'\<rparr>, stopped = fst (snd (rest w))\<rparr>, out)"
    using assms(2) by (simp add: on_io_def)
  from io_reach.io_next [OF _ _ this] assms(1) show ?thesis by (simp add: good_def with_module_def)
qed

lemma with_module_self [simp]: "with_module (fst (rest w)) w = w"
  by (simp add: with_module_def)

lemma good_next:
  "good tc tx calls limit n (Dispatching es (Some (p, r, msg # msgs))) w \<Longrightarrow>
   good tc tx calls limit n (Dispatching es (Some (p, r, msgs))) w"
  "heap (fst (rest w)) p = Some x \<Longrightarrow>
   good tc tx calls limit n (Dispatching es (Some (p, r, []))) w \<Longrightarrow> good tc tx calls limit n (Dispatching es None) w"
  "good tc tx calls limit n (Dispatching [] None) w \<Longrightarrow> good tc tx calls limit n Idle w"
  by (drule good_step [where m = "fst (rest w)"]; simp add: dispatch_def read_state_def)+

lemma good_abort:
  assumes "good tc tx calls limit n (Dispatching es c) w"
  shows "good tc tx calls limit n Idle w"
proof -
  have "io_step tc tx Abort \<lparr>module = (fst (rest w))\<lparr>stage := Dispatching es c\<rparr>, stopped = fst (snd (rest w))\<rparr> =
      Some (\<lparr>module = (fst (rest w))\<lparr>stage := Idle\<rparr>, stopped = fst (snd (rest w))\<rparr>, [])"
    by (simp add: on_io_def)
  from io_reach.io_next [OF _ _ this] assms show ?thesis by (simp add: good_def)
qed

lemma texts: "scripts_ok tc tx calls limit E \<Longrightarrow> fst (invoke E f args w) = Inl e \<Longrightarrow> string_of e \<noteq> None"
  by (simp add: scripts_ok_def)

lemma deliver_runs:
  assumes E: "scripts_ok tc tx calls limit E"
    and "good tc tx calls limit n (Dispatching es (Some (p, r, msgs))) (world L)" "stack L = s" "s \<noteq> []" "i = int (length s)"
  shows "runs_to s (good tc tx calls limit n (Dispatching es (Some (p, r, [])))) (good tc tx calls limit n Idle)
    (lua_seq (map (deliver E i) msgs) L)"
  using assms(2-3)
proof (induction msgs arbitrary: L)
  case Nil
  then show ?case by (simp add: lua_return_def)
next
  case (Cons msg msgs)
  let ?S = "Dispatching es (Some (p, r, msgs))"
  have "height s 0 (\<lambda>_. 0) (deliver E i msg)" using deliver_height [OF texts [OF E] assms(4,5)] .
  moreover have "stays (good tc tx calls limit n ?S) (deliver E i msg)"
    by (rule deliver_good [OF E]) (simp add: running_def)
  ultimately have "runs_to s (good tc tx calls limit n ?S) (good tc tx calls limit n ?S) (deliver E i msg L)"
    using runs_to_fits good_next(1) [OF Cons.prems(1)] Cons.prems(2) by blast
  then have "runs_to s (good tc tx calls limit n ?S) (good tc tx calls limit n Idle) (deliver E i msg L)"
    by (rule runs_to_Raised) (rule good_abort)
  then show ?case
    unfolding list.map lua_seq.simps by (rule runs_to_bind) (rule Cons.IH)
qed

lemma deliver_all_runs:
  assumes E: "scripts_ok tc tx calls limit E"
    and L: "good tc tx calls limit n (Dispatching es (Some (p, r, msgs))) (world L)" "stack L = s"
  shows "runs_to s (good tc tx calls limit n (Dispatching es (Some (p, r, [])))) (good tc tx calls limit n Idle)
    (deliver_all E k msgs L)"
proof -
  let ?v = "case refs (world L) k of None \<Rightarrow> VNil | Some v \<Rightarrow> v"
  let ?L = "L\<lparr>stack := ?v # s\<rparr>" and ?i = "int (Suc (length s))"
  let ?Q = "good tc tx calls limit n (Dispatching es (Some (p, r, [])))"
  have "runs_to (?v # s) ?Q (good tc tx calls limit n Idle) (lua_seq (map (deliver E ?i) msgs) ?L)"
    by (rule deliver_runs [OF E]) (use L in simp_all)
  then have "runs_to s ?Q (good tc tx calls limit n Idle)
      (lua_bind (lua_seq (map (deliver E ?i) msgs)) (\<lambda>_. lua_seq [Pop 1]) ?L)"
    by (rule runs_to_bind) (simp add: lua_bind_def Pop_def lua_return_def)
  with L(2) show ?thesis
    by (simp add: deliver_all_def lua_bind_def [of "ReferencePush k"] lua_bind_def [of Top] ReferencePush_def push_value_def
        Top_def lua_seq_append)
qed

lemma deliver_all_nil: "deliver_all E k [] L = Done () L"
  by (cases L) (simp add: deliver_all_def lua_bind_def ReferencePush_def push_value_def Top_def Pop_def lua_return_def)

lemma on_socket_set_stage:
  "on_socket p f (m\<lparr>stage := S\<rparr>) = map_option (\<lambda>(m, r). (m\<lparr>stage := S\<rparr>, r)) (on_socket p f m)"
proof (cases "heap m p")
  case (Some x)
  then show ?thesis by (cases "f x") (auto simp: on_socket_def)
qed (simp add: on_socket_def)

lemma read_state_set_stage [simp]: "read_state p (m\<lparr>stage := S\<rparr>) = read_state p m"
  by (simp add: read_state_def)

lemma good_inv:
  assumes "good tc tx calls limit n S w" "n + limit < 2 ^ 32"
  obtains k where "mod_inv k ((fst (rest w))\<lparr>stage := S\<rparr>)" "k < 2 ^ 32"
proof -
  have k: "n + calls (snd (snd (rest w))) < 2 ^ 32" using assms by (simp add: good_def)
  have "mod_inv (n + calls (snd (snd (rest w)))) ((fst (rest w))\<lparr>stage := S\<rparr>)"
    using io_reach_inv [OF _ k] assms(1) by (fastforce simp: good_def)
  with k that show thesis by blast
qed

lemma served_socket_allocated:
  assumes "good tc tx calls limit n (Dispatching es (Some (p, r, ms))) w" "n + limit < 2 ^ 32"
  obtains x where "heap (fst (rest w)) p = Some x"
proof -
  let ?m = "(fst (rest w))\<lparr>stage := Dispatching es (Some (p, r, ms))\<rparr>"
  obtain k where inv: "mod_inv k ?m" by (rule good_inv [OF assms])
  then have "socketTableReferences ?m p = Some r" by (rule dispatch_entries) (simp add: to_dispatch_def)
  then have "p \<in> allSockets ?m" using inv by (auto simp: mod_inv_def)
  from allocated [OF inv this] obtain x where "heap ?m p = Some x" by blast
  with that show thesis by simp
qed

lemma next_entry_result:
  assumes "next_entry p r es m = Some (m', out)"
  obtains m2 messages st where "on_socket p (obj_step EvPoll) m = Some (m2, messages)" "read_state p m2 = Some st"
    "messages = [] \<and> st \<noteq> STATE_DISCONNECTED \<and> m' = m2\<lparr>stage := Dispatching es None\<rparr>
     \<or> messages \<noteq> [] \<and> m' = m2\<lparr>stage := Dispatching es (Some (p, r, messages))\<rparr>
     \<or> messages = [] \<and> st = STATE_DISCONNECTED \<and> m' = (drop_reference p r m2)\<lparr>stage := Dispatching es None\<rparr>"
proof -
  from assms obtain m2 messages where 1: "on_socket p (obj_step EvPoll) m = Some (m2, messages)"
    by (auto simp: next_entry_def split: option.splits)
  with assms obtain st where "read_state p m2 = Some st" by (auto simp: next_entry_def split: option.splits)
  with 1 assms that [OF 1 this] show thesis
    by (auto simp: next_entry_def drop_reference_def split: if_split_asm)
qed

lemma on_module_run:
  "f (fst (rest (world L))) = Some (m, r) \<Longrightarrow>
   lua_bind (on_module f) g L = g r (L\<lparr>world := with_module m (world L)\<rparr>)"
  by (simp add: lua_bind_def on_module_def module_of_def)

lemma read_module_run:
  "f (fst (rest (world L))) = Some r \<Longrightarrow> lua_bind (read_module f) g L = g r L"
  by (simp add: lua_bind_def read_module_def module_of_def)

lemma rest_with_module [simp]: "fst (rest (with_module m w)) = m" "with_module m (with_module m' w) = with_module m w"
  by (simp_all add: with_module_def)

lemma think_entry_runs:
  assumes E: "scripts_ok tc tx calls limit E" and b: "n + limit < 2 ^ 32"
    and L: "good tc tx calls limit n (Dispatching ((p, r) # es) None) (world L)" "stack L = s"
  shows "runs_to s (good tc tx calls limit n (Dispatching es None)) (good tc tx calls limit n Idle) (think_entry E (p, r) L)"
proof -
  let ?w = "world L"
  let ?m = "fst (rest ?w)" and ?S = "Dispatching ((p, r) # es) None"
  have reach: "io_reach tc tx (n + calls (snd (snd (rest ?w)))) \<lparr>module = ?m\<lparr>stage := ?S\<rparr>, stopped = fst (snd (rest ?w))\<rparr>"
    and lim: "calls (snd (snd (rest ?w))) \<le> limit" using L(1) by (simp_all add: good_def)
  have "dispatch (?m\<lparr>stage := ?S\<rparr>) \<noteq> None"
    using io_step_safe [OF reach, of Dispatch] b lim by simp
  then obtain m' out where d: "dispatch (?m\<lparr>stage := ?S\<rparr>) = Some (m', out)" by fastforce
  then have "next_entry p r es (?m\<lparr>stage := ?S\<rparr>) = Some (m', out)" by (simp add: dispatch_def)
  then obtain mm messages st where mm: "on_socket p (obj_step EvPoll) (?m\<lparr>stage := ?S\<rparr>) = Some (mm, messages)"
      "read_state p mm = Some st"
    and m': "messages = [] \<and> st \<noteq> STATE_DISCONNECTED \<and> m' = mm\<lparr>stage := Dispatching es None\<rparr>
     \<or> messages \<noteq> [] \<and> m' = mm\<lparr>stage := Dispatching es (Some (p, r, messages))\<rparr>
     \<or> messages = [] \<and> st = STATE_DISCONNECTED \<and> m' = (drop_reference p r mm)\<lparr>stage := Dispatching es None\<rparr>"
    by (rule next_entry_result)
  from mm(1) obtain m2 where m2: "on_socket p (obj_step EvPoll) ?m = Some (m2, messages)" "mm = m2\<lparr>stage := ?S\<rparr>"
    by (auto simp: on_socket_set_stage)
  let ?L = "L\<lparr>world := with_module m2 ?w\<rparr>"
  have st: "read_state p m2 = Some st" using mm(2) m2(2) by simp
  have start: "think_entry E (p, r) L =
      (if messages = [] \<and> st \<noteq> STATE_DISCONNECTED then lua_return ()
       else
         lua_bind (deliver_all E r messages) (\<lambda>_.
         lua_bind (read_module (read_state p)) (\<lambda>st.
           if st = STATE_DISCONNECTED \<and> messages = [] then
             lua_seq [ReferenceFree r, on_module (\<lambda>m. Some (drop_reference p r m, ()))]
           else lua_return ()))) ?L"
    unfolding think_entry_def prod.case
    by (subst on_module_run, rule m2(1), subst read_module_run, simp add: st, rule refl)
  from m' show ?thesis
  proof (elim disjE conjE)
    assume "messages = []" "st \<noteq> STATE_DISCONNECTED" "m' = mm\<lparr>stage := Dispatching es None\<rparr>"
    then have "good tc tx calls limit n (Dispatching es None) (with_module m2 ?w)"
      using good_step [OF L(1), where m = m2 and S' = "Dispatching es None" and out = out] d m2(2) by simp
    with start L(2) \<open>messages = []\<close> \<open>st \<noteq> STATE_DISCONNECTED\<close> show ?thesis by (simp add: lua_return_def)
  next
    assume ne: "messages \<noteq> []" and "m' = mm\<lparr>stage := Dispatching es (Some (p, r, messages))\<rparr>"
    then have "good tc tx calls limit n (Dispatching es (Some (p, r, messages))) (with_module m2 ?w)"
      using good_step [OF L(1), where m = m2 and S' = "Dispatching es (Some (p, r, messages))" and out = out] d m2(2) by simp
    then have "runs_to s (good tc tx calls limit n (Dispatching es (Some (p, r, [])))) (good tc tx calls limit n Idle)
        (deliver_all E r messages ?L)"
      using L(2) by (intro deliver_all_runs [OF E]) simp_all
    then show ?thesis
      unfolding start using ne
    proof (simp, elim runs_to_bind)
      fix x :: unit and L' :: "'a io_state lua"
      assume L': "stack L' = s" "good tc tx calls limit n (Dispatching es (Some (p, r, []))) (world L')"
      obtain x where "heap (fst (rest (world L'))) p = Some x" by (rule served_socket_allocated [OF L'(2) b])
      with L' show "runs_to s (good tc tx calls limit n (Dispatching es None)) (good tc tx calls limit n Idle)
          (lua_bind (read_module (read_state p)) (\<lambda>st. lua_return ()) L')"
        by (simp add: lua_bind_def read_module_def module_of_def read_state_def lua_return_def good_next(2))
    qed
  next
    assume no: "messages = []" "st = STATE_DISCONNECTED" and "m' = (drop_reference p r mm)\<lparr>stage := Dispatching es None\<rparr>"
    then have "good tc tx calls limit n (Dispatching es None) (with_module (drop_reference p r m2) ?w)"
      using good_step [OF L(1), where m = "drop_reference p r m2" and S' = "Dispatching es None" and out = out] d m2(2) by (simp add: drop_reference_def)
    moreover have "with_module m (w\<lparr>refs := R\<rparr>) = (with_module m w)\<lparr>refs := R\<rparr>" for m R and w :: "'a io_state lua_world"
      by (simp add: with_module_def)
    ultimately show ?thesis
      unfolding start using no st L(2)
      by (simp add: lua_bind_def deliver_all_nil read_module_def module_of_def ReferenceFree_def on_module_def lua_return_def)
  qed
qed

lemma entries_run:
  assumes E: "scripts_ok tc tx calls limit E" and b: "n + limit < 2 ^ 32"
    and "good tc tx calls limit n (Dispatching es None) (world L)" "stack L = s"
  shows "runs_to s (good tc tx calls limit n Idle) (good tc tx calls limit n Idle) (lua_seq (map (think_entry E) es) L)"
  using assms(3,4)
proof (induction es arbitrary: L)
  case Nil
  then show ?case by (simp add: lua_return_def good_next(3))
next
  case (Cons e es)
  obtain p r where e: "e = (p, r)" by (cases e)
  have "runs_to s (good tc tx calls limit n (Dispatching es None)) (good tc tx calls limit n Idle) (think_entry E (p, r) L)"
    by (rule think_entry_runs [OF E b]) (use Cons.prems e in simp_all)
  then show ?case
    unfolding e list.map lua_seq.simps by (rule runs_to_bind) (rule Cons.IH)
qed

subsection \<open>Polling\<close>

fun handler_event :: "handler \<Rightarrow> mod_event" where
  "handler_event (SocketHandler p e) = IO p e"
| "handler_event (OrphanHandler i) = RunOrphan i"

lemma run_handler_step:
  assumes "io_reach tc tx n \<lparr>module = m\<lparr>stage := Polling\<rparr>, stopped = False\<rparr>" "n + 1 < 2 ^ 32"
  obtains m' where "run_handlers (h # hs) m = run_handlers hs m'"
    "io_reach tc tx (n + 1) \<lparr>module = m'\<lparr>stage := Polling\<rparr>, stopped = False\<rparr>"
    "gcedSockets m' = gcedSockets m" "socketTableReferences m' = socketTableReferences m"
proof -
  let ?M = "\<lparr>module = m\<lparr>stage := Polling\<rparr>, stopped = False\<rparr>"
  have safe: "mod_step tc tx (handler_event h) (module ?M) \<noteq> None"
    using io_step_safe [OF assms(1), of "handler_event h"] assms(2) by (cases h) auto
  obtain m' where m': "run_handlers (h # hs) m = run_handlers hs m'" "gcedSockets m' = gcedSockets m"
      "socketTableReferences m' = socketTableReferences m"
      "\<exists>out. mod_step tc tx (handler_event h) (m\<lparr>stage := Polling\<rparr>) = Some (m'\<lparr>stage := Polling\<rparr>, out)"
  proof (cases h)
    case (SocketHandler p e)
    show thesis
    proof (cases "io_event e \<and> heap m p \<noteq> None")
      case True
      with safe SocketHandler have "call_socket e p (m\<lparr>stage := Polling\<rparr>) \<noteq> None" by simp
      then obtain m1 out where m1: "on_socket p (obj_step e) m = Some (m1, out)"
        by (cases "on_socket p (obj_step e) m") (auto simp: call_socket_def on_socket_set_stage)
      have same: "gcedSockets m1 = gcedSockets m" "socketTableReferences m1 = socketTableReferences m"
        using m1 by (auto simp: on_socket_def split: option.splits)
      show thesis
        by (rule that [of m1])
           (use True SocketHandler m1 same in \<open>simp_all add: call_socket_def on_socket_set_stage\<close>)
    qed (use SocketHandler in \<open>auto intro: that [of m]\<close>)
  next
    case (OrphanHandler i)
    with safe have "\<not> i < length (orphans m)" by (auto split: if_split_asm)
    with OrphanHandler show thesis by (intro that [of m]) simp_all
  qed
  from m'(4) obtain out where "mod_step tc tx (handler_event h) (m\<lparr>stage := Polling\<rparr>) = Some (m'\<lparr>stage := Polling\<rparr>, out)" ..
  then have "io_step tc tx (handler_event h) ?M = Some (\<lparr>module = m'\<lparr>stage := Polling\<rparr>, stopped = False\<rparr>, out)"
    by (cases h) (simp_all add: on_io_def)
  moreover have "ev_ok (handler_event h) (module ?M)" "counted (handler_event h) = 1" by (cases h; simp)+
  ultimately have "io_reach tc tx (n + 1) \<lparr>module = m'\<lparr>stage := Polling\<rparr>, stopped = False\<rparr>"
    using io_reach.io_next [OF assms(1)] by metis
  with m' that show thesis by blast
qed

lemma run_handlers_result:
  assumes "io_reach tc tx n \<lparr>module = m\<lparr>stage := Polling\<rparr>, stopped = False\<rparr>" "n + length hs < 2 ^ 32"
  shows "\<exists>m'. run_handlers hs m = Some m'
    \<and> io_reach tc tx (n + length hs) \<lparr>module = m'\<lparr>stage := Polling\<rparr>, stopped = False\<rparr>
    \<and> gcedSockets m' = gcedSockets m \<and> socketTableReferences m' = socketTableReferences m"
  using assms
proof (induction hs arbitrary: n m)
  case (Cons h hs)
  have "n + 1 < 2 ^ 32" using Cons.prems(2) by simp
  from run_handler_step [OF Cons.prems(1) this] obtain m1 where m1:
    "run_handlers (h # hs) m = run_handlers hs m1"
    "io_reach tc tx (n + 1) \<lparr>module = m1\<lparr>stage := Polling\<rparr>, stopped = False\<rparr>"
    "gcedSockets m1 = gcedSockets m" "socketTableReferences m1 = socketTableReferences m" by metis
  from Cons.IH [OF m1(2)] Cons.prems(2) m1 show ?case by (simp add: add.assoc)
qed simp

lemma sweep_set_stage: "sweep ps (m\<lparr>stage := S\<rparr>) = map_option (\<lambda>m. m\<lparr>stage := S\<rparr>) (sweep ps m)"
proof (induction ps arbitrary: m)
  case (Cons p ps)
  have last: "m\<lparr>stage := S, allSockets := A, heap := H, orphans := W, gcedSockets := G\<rparr>
      = m\<lparr>allSockets := A, heap := H, orphans := W, gcedSockets := G\<rparr>\<lparr>stage := S\<rparr>" for A H W G by simp
  show ?case
    by (cases "heap m p") (simp_all add: Cons.IH last read_state_def delete_socket_def)
qed simp

lemma outstanding_set_stage [simp]: "outstanding (m\<lparr>stage := S\<rparr>) = outstanding m"
  by (simp add: outstanding_def)

text \<open>
  C4. webSocketThink as a whole is defined whatever handlers are due and whatever the
  callbacks do with the module within the limits of the step-wise theorem: it leaves the
  stack as it was and the module in a state that it can be in between two calls, also when
  a Lua error ends it early. Excluded are callbacks that write between close() and the end
  of establishing a connection, pass a URL whose parsing is undefined (a short IPv6
  literal), or raise error values without a text; a collected socket met with a handler
  still queued; and 2^32 calls and handlers or more.
\<close>

theorem webSocketThink_safe:
  assumes E: "scripts_ok tc tx calls limit E"
    and L: "good tc tx calls limit n Idle (world L)" and b: "n + length hs + limit < 2 ^ 32"
    and ord: "distinct ps" "set ps = gcedSockets (fst (rest (world L)))"
      "entries_of (socketTableReferences (fst (rest (world L)))) es"
    and dr: "\<And>m. run_handlers hs (fst (rest (world L))) = Some m \<Longrightarrow> drained m"
  shows "case webSocketThink_on E hs ps es L of
      Done k L' \<Rightarrow> k = 0 \<and> stack L' = stack L \<and> good tc tx calls limit (n + length hs) Idle (world L')
    | Raised e w \<Rightarrow> good tc tx calls limit (n + length hs) Idle w
    | Undefined \<Rightarrow> False"
proof -
  define w where "w = world L"
  define c where "c = calls (snd (snd (rest w)))"
  define m where "m = fst (rest w)"
  have reach: "io_reach tc tx (n + c) \<lparr>module = m\<lparr>stage := Idle\<rparr>, stopped = fst (snd (rest w))\<rparr>" and c: "c \<le> limit"
    using L by (simp_all add: good_def w_def c_def m_def)
  have "io_step tc tx Think \<lparr>module = m\<lparr>stage := Idle\<rparr>, stopped = fst (snd (rest w))\<rparr> =
      Some (\<lparr>module = m\<lparr>stage := Polling\<rparr>, stopped = False\<rparr>, [])"
    by (simp add: on_io_def restart_if_stopped_def)
  from io_reach.io_next [OF reach _ this]
  have polling: "io_reach tc tx (n + c) \<lparr>module = m\<lparr>stage := Polling\<rparr>, stopped = False\<rparr>" by simp
  have "n + c + length hs < 2 ^ 32" using b c by simp
  from run_handlers_result [OF polling this] obtain m1 where m1: "run_handlers hs m = Some m1"
    "io_reach tc tx (n + c + length hs) \<lparr>module = m1\<lparr>stage := Polling\<rparr>, stopped = False\<rparr>"
    "gcedSockets m1 = gcedSockets m" "socketTableReferences m1 = socketTableReferences m" by blast
  let ?M = "\<lparr>module = m1\<lparr>stage := Polling\<rparr>, stopped = False\<rparr>"
  have "drained m1" using dr m1(1) by (simp add: m_def w_def)
  then have ev: "ev_ok (Sweep ps es) (module ?M)"
    using ord m1(3,4) by (simp add: m_def w_def drained_def)
  have "mod_step tc tx (Sweep ps es) (module ?M) \<noteq> None"
    using io_step_safe [OF m1(2) _ ev] b c by simp
  then obtain m2 where m2: "sweep ps m1 = Some m2" by (auto simp: sweep_set_stage)
  let ?stop = "\<not> outstanding m1"
  have "io_step tc tx (Sweep ps es) ?M =
      Some (\<lparr>module = m2\<lparr>stage := Dispatching es None\<rparr>, stopped = ?stop\<rparr>, [])"
    using m2 by (simp add: on_io_def poll_returns_def sweep_set_stage)
  from io_reach.io_next [OF m1(2) ev this]
  have dispatching: "io_reach tc tx (n + c + length hs) \<lparr>module = m2\<lparr>stage := Dispatching es None\<rparr>, stopped = ?stop\<rparr>"
    by simp
  define L3 where "L3 = L\<lparr>world := w\<lparr>rest := (m2, ?stop, snd (snd (rest w)))\<rparr>\<rparr>"
  have "good tc tx calls limit (n + length hs) (Dispatching es None) (world L3)"
    using dispatching c by (simp add: good_def L3_def c_def ac_simps)
  moreover have "n + length hs + limit < 2 ^ 32" using b .
  ultimately have entries: "runs_to (stack L) (good tc tx calls limit (n + length hs) Idle)
      (good tc tx calls limit (n + length hs) Idle) (lua_seq (map (think_entry E) es) L3)"
    using entries_run [OF E] by (simp add: L3_def)
  have "webSocketThink_on E hs ps es L =
      lua_bind (lua_seq (map (think_entry E) es)) (\<lambda>_. lua_return 0) L3"
  proof -
    let ?L1 = "L\<lparr>world := w\<lparr>rest := (m, False, snd (snd (rest w)))\<rparr>\<rparr>"
    let ?L2 = "L\<lparr>world := w\<lparr>rest := (m1, ?stop, snd (snd (rest w)))\<rparr>\<rparr>"
    have "on_loop (\<lambda>M. Some (restart_if_stopped M)) L = Done () ?L1"
      by (simp add: on_loop_def with_io_def io_of_def m_def w_def)
    moreover have "on_loop (poll hs) ?L1 = Done () ?L2"
      using m1(1) by (simp add: on_loop_def with_io_def io_of_def poll_def poll_returns_def)
    moreover have "on_module (\<lambda>m. map_option (\<lambda>m. (m, ())) (sweep ps m)) ?L2 = Done () L3"
      using m2 by (simp add: on_module_def module_of_def with_module_def L3_def)
    ultimately show ?thesis
      by (cases "lua_seq (map (think_entry E) es) L3") (simp_all add: webSocketThink_on_def lua_bind_def lua_return_def)
  qed
  with entries show ?thesis
    by (cases "lua_seq (map (think_entry E) es) L3") (simp_all add: lua_bind_def lua_return_def)
qed

subsection \<open>Witness\<close>

text \<open>Scripts whose functions all make the same call, as often as the limit allows.\<close>

definition act :: "(char \<Rightarrow> bool) \<Rightarrow> (char \<Rightarrow> bool) \<Rightarrow> lua_call \<Rightarrow> nat \<Rightarrow> nat io_state lua_world \<Rightarrow> nat io_state lua_world" where
  "act tc tx c limit w =
     (let m = fst (rest w); k = snd (snd (rest w)) in
      if k < limit \<and> call_ok c m
      then (case lua_step tc tx c m of None \<Rightarrow> w | Some (m, _) \<Rightarrow> w\<lparr>rest := (m, fst (snd (rest w)), Suc k)\<rparr>) else w)"

definition acting_env :: "(char \<Rightarrow> bool) \<Rightarrow> (char \<Rightarrow> bool) \<Rightarrow> lua_call \<Rightarrow> nat \<Rightarrow> nat io_state lua_env" where
  "acting_env tc tx c limit =
     \<lparr>index = (\<lambda>v k w. (Inr (VFunction 0), w)), newindex = (\<lambda>v k x w. (Inr (), w)),
      invoke = (\<lambda>f args w. (Inr [], act tc tx c limit w)), new_ref = (\<lambda>w. 1), new_type = (\<lambda>w. 45)\<rparr>"

lemma acting_scripts: "scripts_ok tc tx id limit (acting_env tc tx c limit)"
proof -
  have "uses_api tc tx id limit w (act tc tx c limit w)" for w
  proof (cases "snd (snd (rest w)) < limit \<and> call_ok c (fst (rest w)) \<and> lua_step tc tx c (fst (rest w)) \<noteq> None")
    case True
    then obtain m' out where s: "lua_step tc tx c (fst (rest w)) = Some (m', out)" by fastforce
    then have a: "act tc tx c limit w = w\<lparr>rest := (m', fst (snd (rest w)), Suc (snd (snd (rest w))))\<rparr>"
      using True by (simp add: act_def)
    have "lua_runs tc tx (Suc 0) (fst (rest w)) m'"
      using True s by (intro lua_runs.runs_call [OF lua_runs.runs_none]) auto
    with a True show ?thesis by (auto simp: uses_api_def intro!: exI [of _ "Suc 0"])
  next
    case False
    then have "act tc tx c limit w = w" by (auto simp: act_def Let_def split: option.split)
    then show ?thesis by (auto simp: uses_api_def intro: lua_runs.runs_none)
  qed
  moreover have "uses_api tc tx id limit w w" for w by (auto simp: uses_api_def intro: lua_runs.runs_none)
  ultimately show ?thesis by (simp add: scripts_ok_def acting_env_def)
qed

lemma run_handlers_gced: "run_handlers hs m = Some m' \<Longrightarrow> gcedSockets m' = gcedSockets m"
  by (induction hs m rule: run_handlers.induct) (auto simp: on_socket_def split: if_split_asm option.splits)

definition think_state :: "io_module \<Rightarrow> nat io_state lua" where
  \<comment> \<open>the socket at address 1 has the table 1 in the registry\<close>
  "think_state M =
     \<lparr>stack = [], world = \<lparr>table_fields = (\<lambda>t. Map.empty), metatables = [1 \<mapsto> 2], next_table = 3, refs = [7 \<mapsto> VTable 1],
        type_names = Map.empty, types = Map.empty, rest = (module M, stopped M, 0)\<rparr>\<rparr>"

theorem webSocketThink_safe_witness:
  "\<exists>M. state (base_of (the (heap (module M) 1))) = STATE_CONNECTED
    \<and> (let E = acting_env sample_token sample_token (CallCloseNow (LSocket 1)) 9 in
       case webSocketThink_on E [SocketHandler 1 (EvComplete 0 False True done_ok)] [] [(1, 7)] (think_state M) of
         Done k L' \<Rightarrow> k = 0 \<and> stack L' = [] \<and> good sample_token sample_token id 9 6 Idle (world L')
       | Raised e w \<Rightarrow> good sample_token sample_token id 9 6 Idle w
       | Undefined \<Rightarrow> False)"
proof -
  obtain M x where M: "io_reach sample_token sample_token 5 M" "stage (module M) = Idle" "heap (module M) = [1 \<mapsto> x]"
    "state (base_of x) = STATE_CONNECTED" "socketTableReferences (module M) = [1 \<mapsto> 7]" "gcedSockets (module M) = {}"
    by (rule connected_reach)
  let ?hs = "[SocketHandler 1 (EvComplete 0 False True done_ok)]"
  have "(module M)\<lparr>stage := Idle\<rparr> = module M" using M(2) by (metis lua_module.surjective lua_module.update_convs(9) lua_module.select_convs(9))
  then have g: "good sample_token sample_token id 9 5 Idle (world (think_state M))"
    using M(1) by (cases M) (simp add: good_def think_state_def)
  have dr: "drained m" if "run_handlers ?hs (fst (rest (world (think_state M)))) = Some m" for m
    using run_handlers_gced [OF that] M(6) by (simp add: drained_def think_state_def)
  have len: "5 + length ?hs = 6" "stack (think_state M) = []" by (simp_all add: think_state_def)
  have run: "case webSocketThink_on (acting_env sample_token sample_token (CallCloseNow (LSocket 1)) 9) ?hs [] [(1, 7)] (think_state M) of
      Done k L' \<Rightarrow> k = 0 \<and> stack L' = [] \<and> good sample_token sample_token id 9 6 Idle (world L')
    | Raised e w \<Rightarrow> good sample_token sample_token id 9 6 Idle w
    | Undefined \<Rightarrow> False"
    by (rule webSocketThink_safe [OF acting_scripts g, where hs = ?hs, unfolded len])
       (use M dr in \<open>simp_all add: think_state_def entries_of_def\<close>)
  have "state (base_of (the (heap (module M) 1))) = STATE_CONNECTED" using M(3,4) by simp
  with run show ?thesis unfolding Let_def by blast
qed

end
