(* ===== verification/Socket_Threads.thy ===== *)
theory Socket_Threads
  imports Sockets
begin

text \<open>
  The socket under several threads. The module runs everything on the thread of the game,
  but GWSocket.cpp is written for more (atomics, the mutex on the write queue, the
  compare-and-exchange loop), and the program at the end of GLua.cpp uses it that way: one
  thread runs the io_context, one writes, one polls and closes. Here each member function is
  cut into its accesses to shared data, and the accesses of all threads interleave freely.

  A program counter \<open>pc\<close> names the access that a thread makes next; the calls in the code are
  all tail calls, so that no stack is needed. The mutex is a holder; a thread that finds it
  taken waits. A call of a virtual function is one step, and cancelling the resolver
  changes nothing here, as in \<open>GWSocket_Base\<close>. \<open>uninterrupted_thread\<close> shows that a thread
  that is not interrupted does what the definitions of \<open>GWSocket\<close> say.
\<close>

subsection \<open>Program counters\<close>

datatype why = Reason string | Error string \<comment> \<open>\<open>closeNow(reason)\<close>, \<open>errorConnection(message)\<close>\<close>

datatype pc =
    Ready
  | Write_lock string bool | Write_push string bool
  | Check_lock | Check_connected | Check_requested | Check_writing | Check_empty | Check_mark | Check_pop
  | Check_send GWSocketMessageOut | Check_close | Check_unlock | Check_unlock_close
  | Cas_load why | Cas_exchange why SocketState | Cas_connected why | Cas_connecting why
  | Report string
  | Close_generation string | Close_socket string | Close_lock string | Close_clear string
  | Close_state string | Close_writing string | Close_put string
  | Clear_lock | Clear_queue
  | Request_load | Request_exchange SocketState | Request_lock SocketState | Request_push SocketState
  | Open_exchange bool | Open_lock | Open_clear | Open_generation | Open_resolve
  | Guard "32 word" async_op error_code | Handler async_op error_code
  | Handshake_put | Handshake_read | Read_buffer | Read_again

datatype 's access = Wait | Crash | Go pc "nat option" 's

definition lock :: "nat \<Rightarrow> pc \<Rightarrow> nat option \<Rightarrow> 's \<Rightarrow> 's access" where
  \<comment> \<open>the mutex is recursive in the code, but no thread locks it while it holds it\<close>
  "lock i p h s = (if h = None then Go p (Some i) s else Wait)"

definition start_op :: "pc \<Rightarrow> nat option \<Rightarrow> 's option \<Rightarrow> 's access" where
  \<comment> \<open>a virtual function; \<open>None\<close> is its use of the null stream\<close>
  "start_op p h r = (case r of None \<Rightarrow> Crash | Some s \<Rightarrow> Go p h s)"

fun disconnecting :: "why \<Rightarrow> pc" where
  "disconnecting (Reason r) = Close_generation r"
| "disconnecting (Error msg) = Report msg"

subsection \<open>One access\<close>

definition check_access ::
  "('a gwsocket_scheme, 'z) socket_class_scheme \<Rightarrow> bool \<Rightarrow> nat \<Rightarrow> pc \<Rightarrow> nat option \<Rightarrow> 'a gwsocket_scheme \<Rightarrow>
   'a gwsocket_scheme access" where
  \<comment> \<open>\<open>checkWriting\<close>\<close>
  "check_access K spurious i p h s = (case p of
     Check_lock \<Rightarrow> lock i Check_connected h s
   | Check_connected \<Rightarrow> Go (if state s = STATE_CONNECTED then Check_writing else Check_requested) h s
   | Check_requested \<Rightarrow> Go (if state s = STATE_DISCONNECT_REQUESTED then Check_writing else Check_unlock) h s
   | Check_writing \<Rightarrow> Go (if \<not> writing s then Check_empty else Check_unlock) h s
   | Check_empty \<Rightarrow> Go (if writeQueue s \<noteq> [] then Check_mark else Check_unlock) h s
   | Check_mark \<Rightarrow> Go Check_pop h (s\<lparr>writing := True\<rparr>)
   | Check_pop \<Rightarrow> (case writeQueue s of [] \<Rightarrow> Crash | message # rest \<Rightarrow> Go (Check_send message) h (s\<lparr>writeQueue := rest\<rparr>))
   | Check_send message \<Rightarrow> (case out_type message of
        OUT_MESSAGE \<Rightarrow> start_op Check_unlock h (v_asyncWrite K (out_message message) (out_binary message) s)
      | OUT_DISCONNECT \<Rightarrow>
          (let (ok, st, _) = compare_exchange_weak spurious (state s) STATE_DISCONNECT_REQUESTED STATE_DISCONNECTING
           in Go (if ok then Check_close else Check_unlock_close) h (s\<lparr>state := st\<rparr>)))
   | Check_close \<Rightarrow> start_op Check_unlock h (v_asyncCloseSocket K s)
   | Check_unlock \<Rightarrow> Go Ready None s
   | Check_unlock_close \<Rightarrow> Go (Cas_load (Reason default_reason)) None s
   | _ \<Rightarrow> Wait)"

definition cas_access :: "pc \<Rightarrow> nat option \<Rightarrow> 'a gwsocket_scheme \<Rightarrow> 'a gwsocket_scheme access" where
  \<comment> \<open>\<open>setDisconnectingCAS\<close>\<close>
  "cas_access p h s = (case p of
     Cas_load w \<Rightarrow> Go (if state s = STATE_DISCONNECTED \<or> state s = STATE_DISCONNECTING then Ready
         else Cas_exchange w (state s)) h s
   | Cas_exchange w expected \<Rightarrow> (let (ok, st, _) = compare_exchange_strong (state s) expected STATE_DISCONNECTING
      in Go (if ok then disconnecting w else Cas_connected w) h (s\<lparr>state := st\<rparr>))
   | Cas_connected w \<Rightarrow> Go (if state s = STATE_CONNECTED then Cas_load w else Cas_connecting w) h s
   | Cas_connecting w \<Rightarrow> Go (if state s = STATE_CONNECTING then Cas_load w else Ready) h s
   | _ \<Rightarrow> Wait)"

definition doClose_access ::
  "('a gwsocket_scheme, 'z) socket_class_scheme \<Rightarrow> nat \<Rightarrow> pc \<Rightarrow> nat option \<Rightarrow> 'a gwsocket_scheme \<Rightarrow>
   'a gwsocket_scheme access" where
  "doClose_access K i p h s = (case p of
     Close_generation r \<Rightarrow> Go (Close_socket r) h (s\<lparr>generation := generation s + 1\<rparr>)
   | Close_socket r \<Rightarrow> Go (Close_lock r) h (v_closeSocket K s)
   | Close_lock r \<Rightarrow> lock i (Close_clear r) h s
   | Close_clear r \<Rightarrow> Go (Close_state r) None (clearQueue s)
   | Close_state r \<Rightarrow> Go (Close_writing r) h (s\<lparr>state := STATE_DISCONNECTED\<rparr>)
   | Close_writing r \<Rightarrow> Go (Close_put r) h (s\<lparr>writing := False\<rparr>)
   | Close_put r \<Rightarrow> Go Ready h (put_in IN_DISCONNECTED r s)
   | _ \<Rightarrow> Wait)"

definition in_cas :: "pc \<Rightarrow> bool" where
  "in_cas p = (case p of Cas_load _ \<Rightarrow> True | Cas_exchange _ _ \<Rightarrow> True | Cas_connected _ \<Rightarrow> True | Cas_connecting _ \<Rightarrow> True
   | _ \<Rightarrow> False)"

definition close_access ::
  "('a gwsocket_scheme, 'z) socket_class_scheme \<Rightarrow> nat \<Rightarrow> pc \<Rightarrow> nat option \<Rightarrow> 'a gwsocket_scheme \<Rightarrow>
   'a gwsocket_scheme access" where
  \<comment> \<open>\<open>closeNow\<close> and \<open>errorConnection\<close>: the exchange, the report of an error, then \<open>doClose\<close>\<close>
  "close_access K i p h s =
     (if in_cas p then cas_access p h s
      else case p of Report msg \<Rightarrow> Go (Close_generation msg) h (put_in IN_ERROR msg s) | _ \<Rightarrow> doClose_access K i p h s)"

lemmas close_access_defs = close_access_def in_cas_def cas_access_def doClose_access_def

definition write_access :: "nat \<Rightarrow> pc \<Rightarrow> nat option \<Rightarrow> 'a gwsocket_scheme \<Rightarrow> 'a gwsocket_scheme access" where
  "write_access i p h s = (case p of
     Write_lock m b \<Rightarrow> lock i (Write_push m b) h s
   | Write_push m b \<Rightarrow> Go Check_lock None
       (s\<lparr>writeQueue := writeQueue s @ [\<lparr>out_type = OUT_MESSAGE, out_message = m, out_binary = b\<rparr>]\<rparr>)
   | _ \<Rightarrow> Wait)"

definition clear_access :: "nat \<Rightarrow> pc \<Rightarrow> nat option \<Rightarrow> 'a gwsocket_scheme \<Rightarrow> 'a gwsocket_scheme access" where
  "clear_access i p h s = (case p of
     Clear_lock \<Rightarrow> lock i Clear_queue h s
   | Clear_queue \<Rightarrow> Go Ready None (clearQueue s)
   | _ \<Rightarrow> Wait)"

definition request_access :: "nat \<Rightarrow> pc \<Rightarrow> nat option \<Rightarrow> 'a gwsocket_scheme \<Rightarrow> 'a gwsocket_scheme access" where
  \<comment> \<open>\<open>close\<close>\<close>
  "request_access i p h s = (case p of
     Request_load \<Rightarrow> (let expected = state s in
      Go (if expected = STATE_DISCONNECTED \<or> expected = STATE_DISCONNECTING \<or> expected = STATE_DISCONNECT_REQUESTED
          then Ready else Request_exchange expected) h s)
   | Request_exchange expected \<Rightarrow> (let (ok, st, _) = compare_exchange_strong (state s) expected STATE_DISCONNECT_REQUESTED
      in Go (if ok then Request_lock expected else Ready) h (s\<lparr>state := st\<rparr>))
   | Request_lock expected \<Rightarrow> lock i (Request_push expected) h s
   | Request_push expected \<Rightarrow> Go (if expected \<noteq> STATE_CONNECTING then Check_lock else Ready) None
       (s\<lparr>writeQueue := writeQueue s @ [\<lparr>out_type = OUT_DISCONNECT, out_message = [], out_binary = False\<rparr>]\<rparr>)
   | _ \<Rightarrow> Wait)"

definition open_access :: "nat \<Rightarrow> pc \<Rightarrow> nat option \<Rightarrow> 'a gwsocket_scheme \<Rightarrow> 'a gwsocket_scheme access" where
  "open_access i p h s = (case p of
     Open_exchange shouldClearQueue \<Rightarrow> (let (ok, st, _) = compare_exchange_strong (state s) STATE_DISCONNECTED STATE_CONNECTING
      in Go (if \<not> ok then Ready else if shouldClearQueue then Open_lock else Open_generation) h (s\<lparr>state := st\<rparr>))
   | Open_lock \<Rightarrow> lock i Open_clear h s
   | Open_clear \<Rightarrow> Go Open_generation None (clearQueue s)
   | Open_generation \<Rightarrow> Go Open_resolve h (s\<lparr>generation := generation s + 1\<rparr>)
   | Open_resolve \<Rightarrow> Go Ready h (async_start (ResolveOp (host s) (to_string (unat (port s)))) s)
   | _ \<Rightarrow> Wait)"

definition client_access :: "nat \<Rightarrow> pc \<Rightarrow> nat option \<Rightarrow> 'a gwsocket_scheme \<Rightarrow> 'a gwsocket_scheme access" where
  "client_access i p h s = (case p of
     Write_lock _ _ \<Rightarrow> write_access i p h s | Write_push _ _ \<Rightarrow> write_access i p h s
   | Clear_lock \<Rightarrow> clear_access i p h s | Clear_queue \<Rightarrow> clear_access i p h s
   | Request_load \<Rightarrow> request_access i p h s | Request_exchange _ \<Rightarrow> request_access i p h s
   | Request_lock _ \<Rightarrow> request_access i p h s | Request_push _ \<Rightarrow> request_access i p h s
   | _ \<Rightarrow> open_access i p h s)"

lemmas client_access_defs =
  client_access_def write_access_def clear_access_def request_access_def open_access_def

definition failed :: "string \<Rightarrow> error_code \<Rightarrow> pc" where
  "failed what ec = Cas_load (Error (what @ ec_message ec))"

definition resolved_access ::
  "('a gwsocket_scheme, 'z) socket_class_scheme \<Rightarrow> bool \<Rightarrow> error_code \<Rightarrow> nat option \<Rightarrow> 'a gwsocket_scheme \<Rightarrow>
   'a gwsocket_scheme access" where
  \<comment> \<open>\<open>bad\<close>: one of the two OpenSSL calls of \<open>asyncConnect\<close> fails\<close>
  "resolved_access K bad ec h s =
     (if \<not> ec_set ec then
        (case (if bad then c_connectFails K s else None) of
           None \<Rightarrow> start_op Ready h (v_asyncConnect K True s)
         | Some s \<Rightarrow> Go (Cas_load (Error ''Error setting SSL parameters'')) h s)
      else Go (failed ''[Resolver] '' ec) h s)"

definition connected_access ::
  "('a gwsocket_scheme, 'z) socket_class_scheme \<Rightarrow> error_code \<Rightarrow> nat option \<Rightarrow> 'a gwsocket_scheme \<Rightarrow>
   'a gwsocket_scheme access" where
  "connected_access K ec h s =
     (if \<not> ec_set ec then start_op Ready h (v_asyncHandshake K (hostWithPort s) (path s) s)
      else Go (failed ''Connection failed: '' ec) h s)"

definition ssl_access ::
  "('a gwsocket_scheme, 'z) socket_class_scheme \<Rightarrow> string \<Rightarrow> string \<Rightarrow> error_code \<Rightarrow> nat option \<Rightarrow>
   'a gwsocket_scheme \<Rightarrow> 'a gwsocket_scheme access" where
  "ssl_access K hs p ec h s =
     (if \<not> ec_set ec then start_op Ready h (c_sslHandshakeComplete K False ec hs p s)
      else Go (failed ''Connection failed: '' ec) h s)"

definition handshake_access ::
  "('a gwsocket_scheme, 'z) socket_class_scheme \<Rightarrow> pc \<Rightarrow> nat option \<Rightarrow> 'a gwsocket_scheme \<Rightarrow>
   'a gwsocket_scheme access" where
  "handshake_access K p h s = (case p of
     Handler _ ec \<Rightarrow> (if \<not> ec_set ec then
        (let (ok, st, _) = compare_exchange_strong (state s) STATE_CONNECTING STATE_CONNECTED
         in Go (if ok then Handshake_put else Cas_load (Reason default_reason)) h (s\<lparr>state := st\<rparr>))
      else Go (failed ''Connection failed: '' ec) h s)
   | Handshake_put \<Rightarrow> Go Handshake_read h (put_in IN_CONNECTED ''Connected'' s)
   | Handshake_read \<Rightarrow> start_op Check_lock h (v_asyncRead K s)
   | _ \<Rightarrow> Wait)"

definition read_access ::
  "('a gwsocket_scheme, 'z) socket_class_scheme \<Rightarrow> pc \<Rightarrow> nat option \<Rightarrow> 'a gwsocket_scheme \<Rightarrow>
   'a gwsocket_scheme access" where
  "read_access K p h s = (case p of
     Handler _ ec \<Rightarrow> (if \<not> ec_set ec then Go Read_buffer h (put_in IN_MESSAGE (readBuffer s) s)
      else if isConnectionClosedError ec then
        Go (Cas_load (Reason (if v_getCloseReason K s = [] then default_reason else v_getCloseReason K s))) h s
      else Go (failed [] ec) h s)
   | Read_buffer \<Rightarrow> Go Read_again h (s\<lparr>readBuffer := []\<rparr>)
   | Read_again \<Rightarrow> start_op Ready h (v_asyncRead K s)
   | _ \<Rightarrow> Wait)"

definition written_access :: "error_code \<Rightarrow> nat option \<Rightarrow> 'a gwsocket_scheme \<Rightarrow> 'a gwsocket_scheme access" where
  "written_access ec h s =
     (if \<not> ec_set ec then Go Check_lock h (s\<lparr>writing := False\<rparr>)
      else if isConnectionClosedError ec then Go (Cas_load (Reason ''Connection closed by remote host'')) h s
      else Go (failed [] ec) h s)"

definition handler_access ::
  "('a gwsocket_scheme, 'z) socket_class_scheme \<Rightarrow> bool \<Rightarrow> pc \<Rightarrow> nat option \<Rightarrow> 'a gwsocket_scheme \<Rightarrow>
   'a gwsocket_scheme access" where
  \<comment> \<open>\<open>guardGeneration\<close> and the completion handlers, up to their first call of another function\<close>
  "handler_access K bad p h s = (case p of
     Guard expected op ec \<Rightarrow> Go (if generation s \<noteq> expected then Ready else Handler op ec) h s
   | Handler op ec \<Rightarrow> (case op of
        ResolveOp _ _ \<Rightarrow> resolved_access K bad ec h s
      | ConnectOp \<Rightarrow> connected_access K ec h s
      | SslHandshakeOp hs p' \<Rightarrow> ssl_access K hs p' ec h s
      | HandshakeOp _ _ \<Rightarrow> handshake_access K p h s
      | ReadOp \<Rightarrow> read_access K p h s
      | WriteOp _ _ \<Rightarrow> written_access ec h s
      | CloseOp \<Rightarrow> Go (Close_generation (ec_message ec)) h s)
   | Handshake_put \<Rightarrow> handshake_access K p h s | Handshake_read \<Rightarrow> handshake_access K p h s
   | Read_buffer \<Rightarrow> read_access K p h s | Read_again \<Rightarrow> read_access K p h s
   | _ \<Rightarrow> Wait)"

lemmas handler_access_defs =
  handler_access_def resolved_access_def connected_access_def ssl_access_def handshake_access_def read_access_def
  written_access_def

definition in_check :: "pc \<Rightarrow> bool" where
  "in_check p = (case p of
     Check_lock \<Rightarrow> True | Check_connected \<Rightarrow> True | Check_requested \<Rightarrow> True | Check_writing \<Rightarrow> True
   | Check_empty \<Rightarrow> True | Check_mark \<Rightarrow> True | Check_pop \<Rightarrow> True | Check_send _ \<Rightarrow> True | Check_close \<Rightarrow> True
   | Check_unlock \<Rightarrow> True | Check_unlock_close \<Rightarrow> True | _ \<Rightarrow> False)"

definition in_close :: "pc \<Rightarrow> bool" where
  "in_close p = (case p of
     Cas_load _ \<Rightarrow> True | Cas_exchange _ _ \<Rightarrow> True | Cas_connected _ \<Rightarrow> True | Cas_connecting _ \<Rightarrow> True
   | Report _ \<Rightarrow> True | Close_generation _ \<Rightarrow> True | Close_socket _ \<Rightarrow> True | Close_lock _ \<Rightarrow> True
   | Close_clear _ \<Rightarrow> True | Close_state _ \<Rightarrow> True | Close_writing _ \<Rightarrow> True | Close_put _ \<Rightarrow> True | _ \<Rightarrow> False)"

definition in_handler :: "pc \<Rightarrow> bool" where
  "in_handler p = (case p of
     Guard _ _ _ \<Rightarrow> True | Handler _ _ \<Rightarrow> True | Handshake_put \<Rightarrow> True | Handshake_read \<Rightarrow> True
   | Read_buffer \<Rightarrow> True | Read_again \<Rightarrow> True | _ \<Rightarrow> False)"

definition access ::
  "('a gwsocket_scheme, 'z) socket_class_scheme \<Rightarrow> bool \<Rightarrow> nat \<Rightarrow> pc \<Rightarrow> nat option \<Rightarrow> 'a gwsocket_scheme \<Rightarrow>
   'a gwsocket_scheme access" where
  "access K spurious i p h s =
     (if in_check p then check_access K spurious i p h s
      else if in_close p then close_access K i p h s
      else if in_handler p then handler_access K spurious p h s
      else client_access i p h s)"

subsection \<open>Threads\<close>

record 's threads =
  sock :: 's
  holder :: "nat option"
  pcs :: "nat \<Rightarrow> pc"
  taken :: "GWSocketMessageIn list"

datatype call = DoWrite string bool | DoCloseNow | DoClearQueue | DoClose | DoOpen bool

fun entry :: "call \<Rightarrow> pc" where
  "entry (DoWrite m b) = Write_lock m b"
| "entry DoCloseNow = Cas_load (Reason default_reason)"
| "entry DoClearQueue = Clear_lock"
| "entry DoClose = Request_load"
| "entry (DoOpen clear) = Open_exchange clear"

datatype thread_event =
    Run nat bool \<comment> \<open>the next access of a thread; whether its weak exchange, or an OpenSSL call in it, fails\<close>
  | Begin nat call
  | Complete nat error_code \<comment> \<open>the io_context calls the handler of a pending operation\<close>
  | Arrive string | Peer_close string | Verify string \<comment> \<open>the network and the certificate callback\<close>
  | Take \<comment> \<open>\<open>messageQueue.clear()\<close>\<close>

text \<open>Thread 0 runs the io_context, the others call member functions.\<close>

fun thread_step ::
  "('a gwsocket_scheme, 'z) socket_class_scheme \<Rightarrow> thread_event \<Rightarrow> 'a gwsocket_scheme threads \<Rightarrow>
   'a gwsocket_scheme threads option" where
  "thread_step K (Run i spurious) c =
     (case access K spurious i (pcs c i) (holder c) (sock c) of
        Wait \<Rightarrow> Some c
      | Crash \<Rightarrow> None
      | Go p h s \<Rightarrow> Some (c\<lparr>sock := s, holder := h, pcs := (pcs c)(i := p)\<rparr>))"
| "thread_step K (Begin i call) c =
     Some (if i \<noteq> 0 \<and> pcs c i = Ready then c\<lparr>pcs := (pcs c)(i := entry call)\<rparr> else c)"
| "thread_step K (Complete j ec) c =
     Some (if pcs c 0 = Ready \<and> j < length (pending (sock c))
           then (let (expected, op) = pending (sock c) ! j in
                 c\<lparr>sock := (sock c)\<lparr>pending := take j (pending (sock c)) @ drop (Suc j) (pending (sock c))\<rparr>,
                   pcs := (pcs c)(0 := Guard expected op ec)\<rparr>)
           else c)"
| "thread_step K (Arrive bytes) c =
     Some (if pcs c 0 = Ready \<and> ReadOp \<in> set (current_ops (sock c))
           then c\<lparr>sock := (sock c)\<lparr>readBuffer := readBuffer (sock c) @ bytes\<rparr>\<rparr> else c)"
| "thread_step K (Peer_close reason) c =
     Some (if pcs c 0 = Ready \<and> ReadOp \<in> set (current_ops (sock c))
           then c\<lparr>sock := c_peerClosed K reason (sock c)\<rparr> else c)"
| "thread_step K (Verify msg) c =
     Some (if pcs c 0 = Ready \<and>
             (\<exists>op\<in>set (map snd (pending (sock c))). (case op of SslHandshakeOp _ _ \<Rightarrow> True | _ \<Rightarrow> False))
           then c\<lparr>pcs := (pcs c)(0 := Cas_load (Error msg))\<rparr> else c)"
| "thread_step K Take c =
     (let (out, q) = bq_clear (messageQueue (sock c)) in
      Some (c\<lparr>sock := (sock c)\<lparr>messageQueue := q\<rparr>, taken := taken c @ out\<rparr>))"

definition threads_start :: "'a gwsocket_scheme \<Rightarrow> 'a gwsocket_scheme threads" where
  \<comment> \<open>\<open>open\<close> is called before the other threads exist\<close>
  "threads_start s = \<lparr>sock = gw_open True s, holder = None, pcs = (\<lambda>_. Ready), taken = []\<rparr>"

end
