(* ===== verification/Socket_Threads_Inv.thy ===== *)
theory Socket_Threads_Inv
  imports Socket_Threads
begin

subsection \<open>What a program counter says\<close>

text \<open>
  The assertions are in the style of Owicki and Gries: what holds of the shared data while a
  thread is at a counter, none of which another thread can make false, and which counters two
  threads cannot be at together. The calls are those of the program in GLua.cpp and
  \<open>clearQueue\<close>: \<open>close\<close> has a fault of its own that needs no threads
  (\<open>write_after_early_close_crashes\<close>), and opening again meanwhile is unsafe, as
  \<open>stale_handler_passes_guard\<close> shows.
\<close>

definition critical :: "pc \<Rightarrow> bool" where
  \<comment> \<open>between \<open>lock\<close> and \<open>unlock\<close>\<close>
  "critical p = (case p of
     Write_push _ _ \<Rightarrow> True | Check_connected \<Rightarrow> True | Check_requested \<Rightarrow> True | Check_writing \<Rightarrow> True
   | Check_empty \<Rightarrow> True | Check_mark \<Rightarrow> True | Check_pop \<Rightarrow> True | Check_send _ \<Rightarrow> True | Check_close \<Rightarrow> True
   | Check_unlock \<Rightarrow> True | Check_unlock_close \<Rightarrow> True | Close_clear _ \<Rightarrow> True | Clear_queue \<Rightarrow> True
   | Request_push _ \<Rightarrow> True | Open_clear \<Rightarrow> True | _ \<Rightarrow> False)"

definition sending :: "pc \<Rightarrow> bool" where
  \<comment> \<open>the state was found to be connected\<close>
  "sending p = (case p of
     Check_writing \<Rightarrow> True | Check_empty \<Rightarrow> True | Check_mark \<Rightarrow> True | Check_pop \<Rightarrow> True
   | Check_send _ \<Rightarrow> True | _ \<Rightarrow> False)"

definition claiming :: "pc \<Rightarrow> bool" where
  "claiming p = (case p of Check_empty \<Rightarrow> True | Check_mark \<Rightarrow> True | _ \<Rightarrow> False)"

definition taking :: "pc \<Rightarrow> bool" where
  "taking p = (case p of Check_mark \<Rightarrow> True | Check_pop \<Rightarrow> True | _ \<Rightarrow> False)"

definition popping :: "pc \<Rightarrow> bool" where
  "popping p = (case p of Check_pop \<Rightarrow> True | Check_send _ \<Rightarrow> True | _ \<Rightarrow> False)"

definition won :: "pc \<Rightarrow> bool" where
  \<comment> \<open>the thread moved the socket to disconnecting and closes it\<close>
  "won p = (case p of
     Report _ \<Rightarrow> True | Close_generation _ \<Rightarrow> True | Close_socket _ \<Rightarrow> True | Close_lock _ \<Rightarrow> True
   | Close_clear _ \<Rightarrow> True | Close_state _ \<Rightarrow> True | _ \<Rightarrow> False)"

definition finishing :: "pc \<Rightarrow> bool" where
  "finishing p = (case p of Close_writing _ \<Rightarrow> True | Close_put _ \<Rightarrow> True | _ \<Rightarrow> False)"

definition cleared :: "pc \<Rightarrow> bool" where
  "cleared p = (case p of Close_state _ \<Rightarrow> True | _ \<Rightarrow> False)"

definition op_of :: "pc \<Rightarrow> async_op option" where
  "op_of p = (case p of Guard _ op _ \<Rightarrow> Some op | Handler op _ \<Rightarrow> Some op | _ \<Rightarrow> None)"

fun is_write :: "async_op \<Rightarrow> bool" where
  "is_write (WriteOp _ _) = True"
| "is_write _ = False"

fun is_resolve :: "async_op \<Rightarrow> bool" where
  "is_resolve (ResolveOp _ _) = True"
| "is_resolve _ = False"

fun is_tls :: "async_op \<Rightarrow> bool" where
  "is_tls (SslHandshakeOp _ _) = True"
| "is_tls _ = False"

definition used :: "pc \<Rightarrow> bool" where
  \<comment> \<open>the counters that these calls lead to\<close>
  "used p = (case p of
     Check_send m \<Rightarrow> out_type m = OUT_MESSAGE
   | Cas_exchange _ st \<Rightarrow> st \<noteq> STATE_DISCONNECTED \<and> st \<noteq> STATE_DISCONNECTING
   | Check_close \<Rightarrow> False | Check_unlock_close \<Rightarrow> False | Request_load \<Rightarrow> False | Request_exchange _ \<Rightarrow> False
   | Request_lock _ \<Rightarrow> False | Request_push _ \<Rightarrow> False | Open_exchange _ \<Rightarrow> False | Open_lock \<Rightarrow> False
   | Open_clear \<Rightarrow> False | Open_generation \<Rightarrow> False | Open_resolve \<Rightarrow> False | _ \<Rightarrow> True)"

definition count_ops :: "(async_op \<Rightarrow> bool) \<Rightarrow> 'a gwsocket_scheme \<Rightarrow> nat" where
  "count_ops f s = length (filter f (map snd (pending s)))"

definition disconnects :: "GWSocketMessageIn list \<Rightarrow> nat" where
  "disconnects ms = length (filter (\<lambda>m. in_type m = IN_DISCONNECTED) ms)"

definition reported :: "nat \<Rightarrow> 'a gwsocket_scheme \<Rightarrow> nat" where
  \<comment> \<open>how often the disconnection was reported: \<open>n\<close> times taken already\<close>
  "reported n s = n + disconnects (backingQueue (messageQueue s))"

definition handles :: "(async_op \<Rightarrow> bool) \<Rightarrow> pc \<Rightarrow> bool" where
  "handles f p = (case op_of p of None \<Rightarrow> False | Some op \<Rightarrow> f op)"

fun call_allowed :: "call \<Rightarrow> bool" where
  "call_allowed DoClose = False"
| "call_allowed (DoOpen _) = False"
| "call_allowed _ = True"

definition event_allowed :: "thread_event \<Rightarrow> bool" where
  "event_allowed e = (case e of Begin _ call \<Rightarrow> call_allowed call | _ \<Rightarrow> True)"

locale threaded = socket_rules K has_ws tls
  for K :: "('a gwsocket_scheme, 'z) socket_class_scheme"
    and has_ws :: "'a \<Rightarrow> bool"
    and tls :: bool +
  assumes connect_ok: "v_asyncConnect K True s = Some s' \<Longrightarrow>
      has_ws (gwsocket.more s') \<and> same_base s' (async_start ConnectOp s)"
    and connect_fails: "c_connectFails K s = Some s' \<Longrightarrow> has_ws (gwsocket.more s') \<and> same_base s' s"
begin

definition op_ok :: "async_op \<Rightarrow> bool" where
  "op_ok op \<longleftrightarrow> op \<noteq> CloseOp \<and> (is_tls op \<longrightarrow> tls)"

definition shared_ok :: "nat \<Rightarrow> 'a gwsocket_scheme \<Rightarrow> bool" where
  "shared_ok n s \<longleftrightarrow>
     state s \<noteq> STATE_DISCONNECT_REQUESTED \<and> list_all (\<lambda>m. out_type m = OUT_MESSAGE) (writeQueue s)
     \<and> list_all op_ok (map snd (pending s))
     \<and> count_ops is_write s \<le> 1 \<and> (count_ops is_write s = 1 \<and> state s \<noteq> STATE_DISCONNECTED \<longrightarrow> writing s)
     \<and> (has_ws (gwsocket.more s) \<and> count_ops is_resolve s = 0
        \<or> state s \<noteq> STATE_CONNECTED \<and> count_ops is_resolve s = length (pending s) \<and> length (pending s) \<le> 1)
     \<and> reported n s \<le> 1 \<and> (state s \<noteq> STATE_DISCONNECTED \<longrightarrow> reported n s = 0)"

definition thread_ok :: "nat \<Rightarrow> nat \<Rightarrow> pc \<Rightarrow> nat option \<Rightarrow> 'a gwsocket_scheme \<Rightarrow> bool" where
  "thread_ok n i p h s \<longleftrightarrow>
     (critical p \<longleftrightarrow> h = Some i) \<and> (in_handler p \<longrightarrow> i = 0) \<and> used p
     \<and> (won p \<longrightarrow> state s = STATE_DISCONNECTING)
     \<and> (finishing p \<longrightarrow> state s = STATE_DISCONNECTED \<and> reported n s = 0)
     \<and> (sending p \<longrightarrow> has_ws (gwsocket.more s) \<and> count_ops is_resolve s = 0
          \<and> (state s = STATE_CONNECTED \<or> state s = STATE_DISCONNECTING))
     \<and> (taking p \<longrightarrow> writeQueue s \<noteq> []) \<and> (claiming p \<longrightarrow> \<not> writing s)
     \<and> (popping p \<longrightarrow> writing s \<and> count_ops is_write s = 0)
     \<and> (op_of p \<noteq> None \<longrightarrow> handles op_ok p)
     \<and> (handles is_write p \<longrightarrow> count_ops is_write s = 0 \<and> (state s \<noteq> STATE_DISCONNECTED \<longrightarrow> writing s))
     \<and> (handles is_resolve p \<longrightarrow> pending s = [] \<and> state s \<noteq> STATE_CONNECTED)
     \<and> (in_handler p \<and> \<not> handles is_resolve p \<longrightarrow> has_ws (gwsocket.more s) \<and> count_ops is_resolve s = 0)"

definition apart :: "pc \<Rightarrow> pc \<Rightarrow> bool" where
  \<comment> \<open>two threads can be at these counters\<close>
  "apart p q \<longleftrightarrow>
     \<not> ((won p \<or> finishing p) \<and> (won q \<or> finishing q)) \<and> \<not> (sending p \<and> cleared q)
     \<and> \<not> (popping p \<and> handles is_write q) \<and> \<not> (sending p \<and> handles is_resolve q)"

lemma counters:
  "popping q \<Longrightarrow> sending q" "claiming q \<Longrightarrow> sending q" "taking q \<Longrightarrow> sending q" "sending q \<Longrightarrow> critical q"
  "cleared q \<Longrightarrow> won q" "handles f q \<Longrightarrow> in_handler q"
  by (cases q; simp add: popping_def claiming_def taking_def sending_def critical_def cleared_def won_def
      in_handler_def handles_def op_of_def)+

lemmas counter_defs =
  critical_def sending_def claiming_def taking_def popping_def won_def finishing_def cleared_def used_def
  in_handler_def op_of_def handles_def


text \<open>The assertions one at a time, and how another thread keeps them.\<close>

lemma thread_okD:
  assumes "thread_ok n i p h s"
  shows "critical p \<Longrightarrow> h = Some i" "h = Some i \<Longrightarrow> critical p" "in_handler p \<Longrightarrow> i = 0" "used p"
    and "won p \<Longrightarrow> state s = STATE_DISCONNECTING"
    and "finishing p \<Longrightarrow> state s = STATE_DISCONNECTED" "finishing p \<Longrightarrow> reported n s = 0"
    and "sending p \<Longrightarrow> has_ws (gwsocket.more s)" "sending p \<Longrightarrow> count_ops is_resolve s = 0"
    and "sending p \<Longrightarrow> state s = STATE_CONNECTED \<or> state s = STATE_DISCONNECTING"
    and "taking p \<Longrightarrow> writeQueue s \<noteq> []" "claiming p \<Longrightarrow> \<not> writing s"
    and "popping p \<Longrightarrow> writing s" "popping p \<Longrightarrow> count_ops is_write s = 0"
    and "op_of p \<noteq> None \<Longrightarrow> handles op_ok p"
    and "handles is_write p \<Longrightarrow> count_ops is_write s = 0"
    and "handles is_write p \<Longrightarrow> state s \<noteq> STATE_DISCONNECTED \<Longrightarrow> writing s"
    and "handles is_resolve p \<Longrightarrow> pending s = []" "handles is_resolve p \<Longrightarrow> state s \<noteq> STATE_CONNECTED"
    and "in_handler p \<Longrightarrow> \<not> handles is_resolve p \<Longrightarrow> has_ws (gwsocket.more s)"
    and "in_handler p \<Longrightarrow> \<not> handles is_resolve p \<Longrightarrow> count_ops is_resolve s = 0"
  using assms unfolding thread_ok_def by simp_all

lemma thread_ok_frame:
  assumes "thread_ok n j q h s" "h' = Some j \<longleftrightarrow> h = Some j" "won q \<Longrightarrow> state s' = state s"
    and "finishing q \<Longrightarrow> state s' = state s \<and> reported n s' = reported n s"
    and "sending q \<Longrightarrow> has_ws (gwsocket.more s') \<and> count_ops is_resolve s' = 0
          \<and> (state s' = STATE_CONNECTED \<or> state s' = STATE_DISCONNECTING)"
    and "taking q \<Longrightarrow> writeQueue s' \<noteq> []" "claiming q \<Longrightarrow> \<not> writing s'"
    and "popping q \<Longrightarrow> writing s' \<and> count_ops is_write s' = 0"
    and "handles is_write q \<Longrightarrow> count_ops is_write s' = 0 \<and> (state s' \<noteq> STATE_DISCONNECTED \<longrightarrow> writing s')"
    and "handles is_resolve q \<Longrightarrow> pending s' = [] \<and> state s' \<noteq> STATE_CONNECTED"
    and "in_handler q \<Longrightarrow> \<not> handles is_resolve q \<Longrightarrow> has_ws (gwsocket.more s') \<and> count_ops is_resolve s' = 0"
  shows "thread_ok n j q h' s'"
  using assms unfolding thread_ok_def by simp

definition others_ok :: "nat \<Rightarrow> nat \<Rightarrow> pc \<Rightarrow> pc \<Rightarrow> nat option \<Rightarrow> nat option \<Rightarrow> 'a gwsocket_scheme \<Rightarrow> 'a gwsocket_scheme \<Rightarrow> bool" where
  \<comment> \<open>the other threads do not notice\<close>
  "others_ok n i p p' h h' s s' \<longleftrightarrow>
     (\<forall>j q. j \<noteq> i \<longrightarrow> thread_ok n j q h s \<longrightarrow> apart p q \<longrightarrow> apart q p \<longrightarrow>
        thread_ok n j q h' s' \<and> apart p' q \<and> apart q p')"

definition sound :: "nat \<Rightarrow> nat \<Rightarrow> pc \<Rightarrow> nat option \<Rightarrow> 'a gwsocket_scheme \<Rightarrow> 'a gwsocket_scheme access \<Rightarrow> bool" where
  "sound n i p h s r \<longleftrightarrow>
     (case r of Wait \<Rightarrow> True | Crash \<Rightarrow> False
      | Go p' h' s' \<Rightarrow> shared_ok n s' \<and> thread_ok n i p' h' s' \<and> others_ok n i p p' h h' s s')"

lemma same_others:
  assumes "h' = h \<or> h = None \<and> h' = Some i \<or> h = Some i \<and> h' = None" "state s' = state s" "writing s' = writing s"
    and "writeQueue s' = writeQueue s" "pending s' = pending s" "has_ws (gwsocket.more s') = has_ws (gwsocket.more s)"
    and "reported n s' = reported n s"
    and "\<And>j q. j \<noteq> i \<Longrightarrow> thread_ok n j q h s \<Longrightarrow> apart p q \<Longrightarrow> apart q p \<Longrightarrow> apart p' q \<and> apart q p'"
  shows "others_ok n i p p' h h' s s'"
proof -
  have "thread_ok n j q h' s'" if "j \<noteq> i" "thread_ok n j q h s" for j q
    using that assms(1-7) unfolding thread_ok_def by (auto simp: count_ops_def)
  with assms(8) show ?thesis by (simp add: others_ok_def)
qed

lemma op_of_none: "op_of p = None \<Longrightarrow> \<not> handles f p"
  by (simp add: handles_def)

lemma soundI:
  assumes "r = Go p' h' s'" "shared_ok n s'" "thread_ok n i p' h' s'" "others_ok n i p p' h h' s s'"
  shows "sound n i p h s r"
  using assms by (simp add: sound_def)

lemma check_reads_sound:
  assumes G: "shared_ok n s" and T: "thread_ok n i p h s"
    and p: "p = Check_lock \<or> p = Check_connected \<or> p = Check_writing \<or> p = Check_requested \<or> p = Check_empty
      \<or> p = Check_unlock"
  shows "sound n i p h s (check_access K spurious i p h s)"
proof (cases "p = Check_lock \<and> h \<noteq> None")
  case True
  then show ?thesis by (auto simp: sound_def check_access_def lock_def)
next
  case False
  obtain p' h' where go: "check_access K spurious i p h s = Go p' h' s"
    using False p by (auto simp: check_access_def lock_def)
  have sent: "has_ws (gwsocket.more s)" "count_ops is_resolve s = 0" if "state s = STATE_CONNECTED"
    using G that by (auto simp: shared_ok_def)
  show ?thesis
  proof (rule soundI [OF go G])
    show "thread_ok n i p' h' s"
      using go p T G sent unfolding shared_ok_def thread_ok_def
      by (elim disjE) (auto simp: check_access_def lock_def counter_defs split: if_splits)
    show "others_ok n i p p' h h' s s"
    proof (rule same_others)
      show "h' = h \<or> h = None \<and> h' = Some i \<or> h = Some i \<and> h' = None"
        using go p T unfolding thread_ok_def
        by (elim disjE) (auto simp: check_access_def lock_def counter_defs split: if_splits)
      fix j q
      assume q: "j \<noteq> i" "thread_ok n j q h s" "apart p q" "apart q p"
      have "p' = Check_writing \<longrightarrow> \<not> handles is_resolve q \<and> \<not> cleared q" if "p = Check_connected"
        using that go thread_okD [OF q(2)] counters(5) [of q] by (auto simp: check_access_def split: if_splits)
      moreover have "p' \<noteq> Check_writing" if "p = Check_requested"
        using that go G by (auto simp: check_access_def shared_ok_def)
      ultimately show "apart p' q \<and> apart q p'"
        using go p q(3,4) unfolding apart_def
        by (elim disjE) (auto simp: check_access_def lock_def counter_defs split: if_splits)
    qed simp_all
  qed
qed

lemma check_mark_sound:
  assumes G: "shared_ok n s" and T: "thread_ok n i Check_mark h s"
  shows "sound n i Check_mark h s (check_access K spurious i Check_mark h s)"
proof (rule soundI)
  let ?s = "s\<lparr>writing := True\<rparr>"
  show "check_access K spurious i Check_mark h s = Go Check_pop h ?s" by (simp add: check_access_def)
  have st: "state s \<noteq> STATE_DISCONNECTED" "\<not> writing s"
    using T by (auto simp: thread_ok_def counter_defs)
  show "shared_ok n ?s" using G by (simp add: shared_ok_def count_ops_def reported_def)
  have "count_ops is_write s = 0" using G st by (auto simp: shared_ok_def)
  then show "thread_ok n i Check_pop h ?s" using T by (auto simp: thread_ok_def counter_defs count_ops_def)
  show "others_ok n i Check_mark Check_pop h h s ?s"
    unfolding others_ok_def
  proof (intro allI impI conjI)
    fix j q
    assume q: "j \<noteq> i" "thread_ok n j q h s" "apart Check_mark q" "apart q Check_mark"
    have crit: "\<not> critical q" using thread_okD(1) [OF q(2)] thread_okD(1) [OF T] q(1) by (auto simp: counter_defs)
    have w: "\<not> handles is_write q" using thread_okD(17) [OF q(2)] st by auto
    show "thread_ok n j q h ?s"
      by (rule thread_ok_frame [OF q(2)])
         (use thread_okD [OF q(2)] crit w counters [where q = q] in \<open>auto simp: count_ops_def reported_def\<close>)
    show "apart Check_pop q" "apart q Check_pop"
      using q(3,4) w crit counters(1,4) [of q] by (auto simp: apart_def counter_defs)
  qed
qed

text \<open>The holder of the mutex changes the queue.\<close>

lemma queue_others:
  assumes T: "thread_ok n i p h s" and p: "critical p" and h': "h' = h \<or> h' = None"
    and ap: "\<And>j q. j \<noteq> i \<Longrightarrow> thread_ok n j q h s \<Longrightarrow> apart p q \<Longrightarrow> apart q p \<Longrightarrow> apart p' q \<and> apart q p'"
  shows "others_ok n i p p' h h' s (s\<lparr>writeQueue := Q\<rparr>)"
  unfolding others_ok_def
proof (intro allI impI)
  fix j q
  assume q: "j \<noteq> i" "thread_ok n j q h s" "apart p q" "apart q p"
  have h: "h = Some i" using thread_okD(1) [OF T p] .
  then have crit: "\<not> critical q" using thread_okD(1) [OF q(2)] q(1) by auto
  have "thread_ok n j q h' (s\<lparr>writeQueue := Q\<rparr>)"
    by (rule thread_ok_frame [OF q(2)])
       (use thread_okD [OF q(2)] crit h h' q(1) counters [where q = q] in \<open>auto simp: count_ops_def reported_def\<close>)
  with ap [OF q] show "thread_ok n j q h' (s\<lparr>writeQueue := Q\<rparr>) \<and> apart p' q \<and> apart q p'" by simp
qed

lemma check_pop_sound:
  assumes G: "shared_ok n s" and T: "thread_ok n i Check_pop h s"
  shows "sound n i Check_pop h s (check_access K spurious i Check_pop h s)"
proof -
  obtain m rest where mr: "writeQueue s = m # rest"
    using thread_okD(11) [OF T] by (cases "writeQueue s") (auto simp: counter_defs)
  show ?thesis
  proof (rule soundI)
    show "check_access K spurious i Check_pop h s = Go (Check_send m) h (s\<lparr>writeQueue := rest\<rparr>)"
      by (simp add: check_access_def mr)
    show "shared_ok n (s\<lparr>writeQueue := rest\<rparr>)" using G mr by (simp add: shared_ok_def count_ops_def reported_def)
    have "out_type m = OUT_MESSAGE" using G mr by (simp add: shared_ok_def)
    then show "thread_ok n i (Check_send m) h (s\<lparr>writeQueue := rest\<rparr>)"
      using T by (simp add: thread_ok_def counter_defs count_ops_def)
    show "others_ok n i Check_pop (Check_send m) h h s (s\<lparr>writeQueue := rest\<rparr>)"
      by (rule queue_others [OF T]) (simp_all add: apart_def counter_defs)
  qed
qed

lemma start_fields:
  assumes "same_base t (async_start op s)"
  shows "state t = state s" "writing t = writing s" "writeQueue t = writeQueue s" "reported n t = reported n s"
    and "pending t = pending s @ [(generation s, op)]"
    and "count_ops f t = count_ops f s + (if f op then 1 else 0)"
  using same_baseD [OF assms] by (simp_all add: async_start_def count_ops_def reported_def)

lemma start_shared:
  assumes "shared_ok n s" "same_base t (async_start op s)" "has_ws (gwsocket.more t)" "op_ok op"
    "\<not> is_write op" "\<not> is_resolve op" "count_ops is_resolve s = 0"
  shows "shared_ok n t"
  using assms start_fields [OF assms(2)] by (auto simp: shared_ok_def)

lemma check_send_sound:
  assumes G: "shared_ok n s" and T: "thread_ok n i (Check_send m) h s"
  shows "sound n i (Check_send m) h s (check_access K spurious i (Check_send m) h s)"
proof -
  have s: "has_ws (gwsocket.more s)" "count_ops is_resolve s = 0" "count_ops is_write s = 0" "writing s"
      "out_type m = OUT_MESSAGE"
    using thread_okD [OF T] by (simp_all add: counter_defs)
  obtain t where t: "v_asyncWrite K (out_message m) (out_binary m) s = Some t" using write_total [OF s(1)] by blast
  let ?op = "WriteOp (out_message m) (out_binary m)"
  have base: "same_base (t\<lparr>messageToWrite := messageToWrite s\<rparr>) (async_start ?op s)" and ws: "has_ws (gwsocket.more t)"
    using write_base [OF t] by (auto simp: gwsocket.truncate_def async_start_def)
  note f = start_fields [OF base, simplified]
  have cnt: "count_ops g t = count_ops g s + (if g ?op then 1 else 0)" for g
    using f(6) [of g] by (simp add: count_ops_def)
  have rep: "reported n t = reported n s" using f(4) by (simp add: reported_def)
  show ?thesis
  proof (rule soundI)
    show "check_access K spurious i (Check_send m) h s = Go Check_unlock h t"
      by (simp add: check_access_def s(5) start_op_def t)
    show "shared_ok n t" using G s f ws cnt rep by (auto simp: shared_ok_def op_ok_def)
    show "thread_ok n i Check_unlock h t" using T f by (simp add: thread_ok_def counter_defs)
    show "others_ok n i (Check_send m) Check_unlock h h s t"
      unfolding others_ok_def
    proof (intro allI impI conjI)
      fix j q
      assume q: "j \<noteq> i" "thread_ok n j q h s" "apart (Check_send m) q" "apart q (Check_send m)"
      have crit: "\<not> critical q"
        using thread_okD(1) [OF q(2)] thread_okD(1) [OF T] q(1) by (auto simp: counter_defs)
      have away: "\<not> handles is_write q" "\<not> handles is_resolve q"
        using q(3) by (simp_all add: apart_def counter_defs)
      show "thread_ok n j q h t"
        by (rule thread_ok_frame [OF q(2)])
           (use thread_okD [OF q(2)] crit away counters [where q = q] f cnt rep ws s in auto)
      show "apart Check_unlock q" "apart q Check_unlock"
        using q(3,4) by (simp_all add: apart_def counter_defs)
    qed
  qed
qed

lemma client_sound:
  assumes G: "shared_ok n s" and T: "thread_ok n i p h s" and p: "\<not> in_check p" "\<not> in_close p" "\<not> in_handler p"
  shows "sound n i p h s (client_access i p h s)"
proof (cases p)
  case (Write_lock m b)
  show ?thesis
  proof (cases h)
    case None
    show ?thesis unfolding Write_lock
    proof (rule soundI [OF _ G])
      show "client_access i (Write_lock m b) h s = Go (Write_push m b) (Some i) s"
        by (simp add: client_access_defs lock_def None)
      show "thread_ok n i (Write_push m b) (Some i) s" using T Write_lock by (simp add: thread_ok_def counter_defs)
      show "others_ok n i (Write_lock m b) (Write_push m b) h (Some i) s s"
        by (rule same_others) (simp_all add: None apart_def counter_defs)
    qed
  qed (simp add: sound_def client_access_defs lock_def Write_lock)
next
  case Clear_lock
  show ?thesis
  proof (cases h)
    case None
    show ?thesis unfolding Clear_lock
    proof (rule soundI [OF _ G])
      show "client_access i Clear_lock h s = Go Clear_queue (Some i) s"
        by (simp add: client_access_defs lock_def None)
      show "thread_ok n i Clear_queue (Some i) s" using T Clear_lock by (simp add: thread_ok_def counter_defs)
      show "others_ok n i Clear_lock Clear_queue h (Some i) s s"
        by (rule same_others) (simp_all add: None apart_def counter_defs)
    qed
  qed (simp add: sound_def client_access_defs lock_def Clear_lock)
next
  case (Write_push m b)
  let ?q = "writeQueue s @ [\<lparr>out_type = OUT_MESSAGE, out_message = m, out_binary = b\<rparr>]"
  show ?thesis unfolding Write_push
  proof (rule soundI)
    show "client_access i (Write_push m b) h s = Go Check_lock None (s\<lparr>writeQueue := ?q\<rparr>)"
      by (simp add: client_access_defs)
    show "shared_ok n (s\<lparr>writeQueue := ?q\<rparr>)" using G by (simp add: shared_ok_def count_ops_def reported_def)
    show "thread_ok n i Check_lock None (s\<lparr>writeQueue := ?q\<rparr>)"
      using T Write_push by (simp add: thread_ok_def counter_defs)
    show "others_ok n i (Write_push m b) Check_lock h None s (s\<lparr>writeQueue := ?q\<rparr>)"
      by (rule queue_others [OF T [unfolded Write_push]]) (simp_all add: apart_def counter_defs)
  qed
next
  case Clear_queue
  show ?thesis unfolding Clear_queue
  proof (rule soundI)
    show "client_access i Clear_queue h s = Go Ready None (s\<lparr>writeQueue := []\<rparr>)"
      by (simp add: client_access_defs clearQueue_def)
    show "shared_ok n (s\<lparr>writeQueue := []\<rparr>)" using G by (simp add: shared_ok_def count_ops_def reported_def)
    show "thread_ok n i Ready None (s\<lparr>writeQueue := []\<rparr>)" using T Clear_queue by (simp add: thread_ok_def counter_defs)
    show "others_ok n i Clear_queue Ready h None s (s\<lparr>writeQueue := []\<rparr>)"
      by (rule queue_others [OF T [unfolded Clear_queue]]) (simp_all add: apart_def counter_defs)
  qed
qed (use T p in \<open>simp_all add: thread_ok_def counter_defs in_check_def in_close_def sound_def client_access_defs\<close>)

subsection \<open>Closing\<close>

text \<open>Only one thread gets past the compare-and-exchange.\<close>

lemma same_sound:
  assumes "r = Go p' h s" "shared_ok n s" "thread_ok n i p h s" "used p'" "\<not> critical p" "\<not> critical p'"
    "\<not> in_handler p'" "\<not> won p'" "\<not> finishing p'"
  shows "sound n i p h s r"
proof (rule soundI [OF assms(1,2)])
  have p': "op_of p' = None" "\<not> sending p'" "\<not> taking p'" "\<not> claiming p'" "\<not> popping p'" "\<not> cleared p'"
    using assms(6-9) counters [where q = p'] by (auto simp: in_handler_def op_of_def split: pc.splits)
  then show "thread_ok n i p' h s"
    using assms(3-9) by (simp add: thread_ok_def op_of_none)
  show "others_ok n i p p' h h s s"
    by (rule same_others) (use p' assms(5-9) in \<open>simp_all add: apart_def op_of_none\<close>)
qed

lemma cas_reads_sound:
  assumes "shared_ok n s" "thread_ok n i p h s" "p = Cas_load w \<or> p = Cas_connected w \<or> p = Cas_connecting w"
  shows "sound n i p h s (close_access K i p h s)"
proof -
  obtain p' where go: "close_access K i p h s = Go p' h s"
      "p' = Ready \<or> p' = Cas_load w \<or> p' = Cas_connecting w
       \<or> p' = Cas_exchange w (state s) \<and> state s \<noteq> STATE_DISCONNECTED \<and> state s \<noteq> STATE_DISCONNECTING"
    using assms(3) by (auto simp: close_access_defs)
  show ?thesis
    by (rule same_sound [OF go(1) assms(1,2)]) (use go(2) assms(3) in \<open>auto simp: counter_defs\<close>)
qed

lemma disconnecting_counters:
  "won (disconnecting w)" "\<not> critical (disconnecting w)" "\<not> sending (disconnecting w)" "\<not> cleared (disconnecting w)"
  "\<not> popping (disconnecting w)" "\<not> finishing (disconnecting w)" "\<not> in_handler (disconnecting w)"
  "used (disconnecting w)" "\<not> taking (disconnecting w)" "\<not> claiming (disconnecting w)" "op_of (disconnecting w) = None"
  by (cases w; simp add: counter_defs)+

lemma cas_exchange_sound:
  assumes G: "shared_ok n s" and T: "thread_ok n i (Cas_exchange w e) h s"
  shows "sound n i (Cas_exchange w e) h s (close_access K i (Cas_exchange w e) h s)"
proof (cases "state s = e")
  case False
  then have "close_access K i (Cas_exchange w e) h s = Go (Cas_connected w) h s"
    by (simp add: close_access_defs compare_exchange_strong_def)
  then show ?thesis by (rule same_sound [OF _ G T]) (simp_all add: counter_defs)
next
  case True
  let ?s = "s\<lparr>state := STATE_DISCONNECTING\<rparr>"
  have e: "state s \<noteq> STATE_DISCONNECTED" "state s \<noteq> STATE_DISCONNECTING"
    using T True by (simp_all add: thread_ok_def counter_defs)
  show ?thesis
  proof (rule soundI)
    show "close_access K i (Cas_exchange w e) h s = Go (disconnecting w) h ?s"
      using True by (simp add: close_access_defs compare_exchange_strong_def)
    show "shared_ok n ?s" using G e by (auto simp: shared_ok_def count_ops_def reported_def)
    show "thread_ok n i (disconnecting w) h ?s"
      using T by (simp add: thread_ok_def disconnecting_counters op_of_none) (simp add: counter_defs)
    show "others_ok n i (Cas_exchange w e) (disconnecting w) h h s ?s"
      unfolding others_ok_def
    proof (intro allI impI)
      fix j q
      assume q: "j \<noteq> i" "thread_ok n j q h s" "apart (Cas_exchange w e) q" "apart q (Cas_exchange w e)"
      have lost: "\<not> won q" "\<not> finishing q" using thread_okD(5,6) [OF q(2)] e by auto
      have "thread_ok n j q h ?s"
        by (rule thread_ok_frame [OF q(2)])
           (use thread_okD [OF q(2)] lost e counters [where q = q] in \<open>auto simp: count_ops_def reported_def\<close>)
      then show "thread_ok n j q h ?s \<and> apart (disconnecting w) q \<and> apart q (disconnecting w)"
        using lost by (simp add: apart_def disconnecting_counters op_of_none)
    qed
  qed
qed

text \<open>A step that changes nothing the assertions speak of.\<close>

definition same_view :: "nat \<Rightarrow> 'a gwsocket_scheme \<Rightarrow> 'a gwsocket_scheme \<Rightarrow> bool" where
  "same_view n s t \<longleftrightarrow> state t = state s \<and> writing t = writing s \<and> writeQueue t = writeQueue s
     \<and> pending t = pending s \<and> has_ws (gwsocket.more t) = has_ws (gwsocket.more s) \<and> reported n t = reported n s"

lemma view_ok:
  assumes "same_view n s t"
  shows "shared_ok n t = shared_ok n s" "thread_ok n i p h t = thread_ok n i p h s"
  using assms by (simp_all add: same_view_def shared_ok_def thread_ok_def count_ops_def)

lemma view_sound:
  assumes "r = Go p' h t" "same_view n s t" "shared_ok n s" "thread_ok n i p' h s"
    and "\<And>j q. j \<noteq> i \<Longrightarrow> thread_ok n j q h s \<Longrightarrow> apart p q \<Longrightarrow> apart q p \<Longrightarrow> apart p' q \<and> apart q p'"
  shows "sound n i p h s r"
proof (rule soundI [OF assms(1)])
  show "shared_ok n t" "thread_ok n i p' h t" using assms(3,4) by (simp_all add: view_ok [OF assms(2)])
  show "others_ok n i p p' h h s t"
    by (rule same_others) (use assms(2) in \<open>simp_all add: same_view_def assms(5)\<close>)
qed

lemma view_updates:
  "ty \<noteq> IN_DISCONNECTED \<Longrightarrow> same_view n s (put_in ty msg s)"
  "same_view n s (s\<lparr>generation := g\<rparr>)" "same_view n s (s\<lparr>readBuffer := b\<rparr>)" "same_view n s (v_closeSocket K s)"
  using same_baseD [OF closeSocket_base [of s]]
  by (simp_all add: same_view_def put_in_def reported_def disconnects_def closeSocket_ws)

lemma close_chain_sound:
  assumes G: "shared_ok n s" and T: "thread_ok n i p h s"
    and p: "p = Report r \<or> p = Close_generation r \<or> p = Close_socket r"
  shows "sound n i p h s (close_access K i p h s)"
  using p
proof (elim disjE)
  assume p: "p = Report r"
  show ?thesis unfolding p
    by (rule view_sound [OF _ _ G, where p' = "Close_generation r" and t = "put_in IN_ERROR r s"])
       (use T p in \<open>simp_all add: close_access_defs view_updates thread_ok_def apart_def counter_defs\<close>)
next
  assume p: "p = Close_generation r"
  show ?thesis unfolding p
    by (rule view_sound [OF _ _ G, where p' = "Close_socket r" and t = "s\<lparr>generation := generation s + 1\<rparr>"])
       (use T p in \<open>simp_all add: close_access_defs view_updates thread_ok_def apart_def counter_defs\<close>)
next
  assume p: "p = Close_socket r"
  show ?thesis unfolding p
    by (rule view_sound [OF _ _ G, where p' = "Close_lock r" and t = "v_closeSocket K s"])
       (use T p in \<open>simp_all add: close_access_defs view_updates thread_ok_def apart_def counter_defs\<close>)
qed

lemma close_queue_sound:
  assumes G: "shared_ok n s" and T: "thread_ok n i p h s" and p: "p = Close_lock r \<or> p = Close_clear r"
  shows "sound n i p h s (close_access K i p h s)"
  using p
proof (elim disjE)
  assume p: "p = Close_lock r"
  show ?thesis
  proof (cases h)
    case None
    show ?thesis unfolding p
    proof (rule soundI [OF _ G])
      show "close_access K i (Close_lock r) h s = Go (Close_clear r) (Some i) s"
        by (simp add: close_access_defs lock_def None)
      show "thread_ok n i (Close_clear r) (Some i) s" using T p by (simp add: thread_ok_def counter_defs)
      show "others_ok n i (Close_lock r) (Close_clear r) h (Some i) s s"
        by (rule same_others) (simp_all add: None apart_def counter_defs)
    qed
  qed (simp add: sound_def close_access_defs lock_def p)
next
  assume p: "p = Close_clear r"
  show ?thesis unfolding p
  proof (rule soundI)
    show "close_access K i (Close_clear r) h s = Go (Close_state r) None (s\<lparr>writeQueue := []\<rparr>)"
      by (simp add: close_access_defs clearQueue_def)
    show "shared_ok n (s\<lparr>writeQueue := []\<rparr>)" using G by (simp add: shared_ok_def count_ops_def reported_def)
    show "thread_ok n i (Close_state r) None (s\<lparr>writeQueue := []\<rparr>)" using T p by (simp add: thread_ok_def counter_defs)
    show "others_ok n i (Close_clear r) (Close_state r) h None s (s\<lparr>writeQueue := []\<rparr>)"
    proof (rule queue_others)
      fix j q
      assume q: "j \<noteq> i" "thread_ok n j q h s" "apart (Close_clear r) q" "apart q (Close_clear r)"
      have "\<not> critical q" using thread_okD(1) [OF q(2)] thread_okD(1) [OF T] q(1) p by (auto simp: counter_defs)
      then show "apart (Close_state r) q \<and> apart q (Close_state r)"
        using q(3,4) counters(4) [of q] by (auto simp: apart_def counter_defs)
    qed (use T p in \<open>simp_all add: counter_defs\<close>)
  qed
qed

lemma end_sound:
  assumes go: "r = Go p' h t" and G: "shared_ok n s" and T: "thread_ok n i p h s"
    and p: "cleared p \<or> finishing p" "\<not> critical p"
    and p': "used p'" "\<not> critical p'" "\<not> in_handler p'" "\<not> won p'" "finishing p' \<Longrightarrow> reported n t = 0"
    and t: "pending t = pending s" "writeQueue t = writeQueue s" "state t = STATE_DISCONNECTED"
      "has_ws (gwsocket.more t) = has_ws (gwsocket.more s)" "reported n t \<le> 1"
  shows "sound n i p h s r"
proof (rule soundI [OF go])
  have none: "op_of p' = None" "\<not> sending p'" "\<not> taking p'" "\<not> claiming p'" "\<not> popping p'" "\<not> cleared p'"
    using p' counters [where q = p'] by (auto simp: in_handler_def op_of_def split: pc.splits)
  have cnt: "count_ops f t = count_ops f s" for f using t by (simp add: count_ops_def)
  have st: "state s \<noteq> STATE_CONNECTED" "finishing p \<Longrightarrow> state s = STATE_DISCONNECTED"
    using p thread_okD(5,6) [OF T] counters(5) [of p] by auto
  show "shared_ok n t" using G t cnt st by (simp add: shared_ok_def)
  show "thread_ok n i p' h t"
    using T p(2) p' none t by (simp add: thread_ok_def op_of_none)
  show "others_ok n i p p' h h s t"
    unfolding others_ok_def
  proof (intro allI impI)
    fix j q
    assume q: "j \<noteq> i" "thread_ok n j q h s" "apart p q" "apart q p"
    have lost: "\<not> won q" "\<not> finishing q" using q(3) p(1) counters(5) [of p] by (auto simp: apart_def)
    have "\<not> sending q" using q(4) p(1) st(2) thread_okD(10) [OF q(2)] by (auto simp: apart_def)
    then have idle: "\<not> sending q" "\<not> popping q" "\<not> taking q" "\<not> claiming q" using counters [where q = q] by auto
    have "thread_ok n j q h t"
      by (rule thread_ok_frame [OF q(2)])
         (use thread_okD [OF q(2)] lost idle t cnt in simp_all)
    moreover have "apart p' q \<and> apart q p'"
      using lost idle none p' by (simp add: apart_def op_of_none)
    ultimately show "thread_ok n j q h t \<and> apart p' q \<and> apart q p'" by simp
  qed
qed

lemma close_end_sound:
  assumes G: "shared_ok n s" and T: "thread_ok n i p h s"
    and p: "p = Close_state r \<or> p = Close_writing r \<or> p = Close_put r"
  shows "sound n i p h s (close_access K i p h s)"
  using p
proof (elim disjE)
  assume p: "p = Close_state r"
  have "reported n s = 0" using thread_okD(5) [OF T] G p by (simp add: counter_defs shared_ok_def)
  then show ?thesis unfolding p
    by (intro end_sound [OF _ G T [unfolded p], where p' = "Close_writing r" and t = "s\<lparr>state := STATE_DISCONNECTED\<rparr>"])
       (simp_all add: close_access_defs counter_defs reported_def)
next
  assume p: "p = Close_writing r"
  have "reported n s = 0" "state s = STATE_DISCONNECTED" using thread_okD(6,7) [OF T] p by (simp_all add: counter_defs)
  then show ?thesis unfolding p
    by (intro end_sound [OF _ G T [unfolded p], where p' = "Close_put r" and t = "s\<lparr>writing := False\<rparr>"])
       (simp_all add: close_access_defs counter_defs reported_def)
next
  assume p: "p = Close_put r"
  have "reported n s = 0" "state s = STATE_DISCONNECTED" using thread_okD(6,7) [OF T] p by (simp_all add: counter_defs)
  then show ?thesis unfolding p
    by (intro end_sound [OF _ G T [unfolded p], where p' = Ready and t = "put_in IN_DISCONNECTED r s"])
       (simp_all add: close_access_defs counter_defs reported_def put_in_def disconnects_def)
qed

lemma close_sound:
  assumes "shared_ok n s" "thread_ok n i p h s" "in_close p"
  shows "sound n i p h s (close_access K i p h s)"
  using assms cas_reads_sound [OF assms(1,2)] close_chain_sound [OF assms(1,2)] close_queue_sound [OF assms(1,2)]
    close_end_sound [OF assms(1,2)] cas_exchange_sound [OF assms(1)]
  by (cases p) (simp_all add: in_close_def)

lemma check_sound:
  assumes "shared_ok n s" "thread_ok n i p h s" "in_check p"
  shows "sound n i p h s (check_access K spurious i p h s)"
  using assms check_reads_sound [OF assms(1,2)] check_mark_sound [OF assms(1)] check_pop_sound [OF assms(1)]
    check_send_sound [OF assms(1)]
  by (cases p) (simp_all add: in_check_def thread_ok_def used_def)

subsection \<open>Handlers\<close>

lemma other_handler:
  assumes "thread_ok n i p h s" "in_handler p" "j \<noteq> i" "thread_ok n j q h s"
  shows "\<not> in_handler q" "\<not> handles f q"
  using assms thread_okD(3) [OF assms(1)] thread_okD(3) [OF assms(4)] counters(6) [of f q] by auto

text \<open>The handler starts the next operation.\<close>

lemma start_sound:
  assumes go: "r = Go p' h t" and G: "shared_ok n s" and T: "thread_ok n i p h s"
    and p: "in_handler p" "\<not> critical p" "\<not> won p" "\<not> finishing p" and p': "p' = Ready \<or> p' = Check_lock"
    and t: "same_base t (async_start op s)" "has_ws (gwsocket.more t)" "op_ok op" "\<not> is_write op" "\<not> is_resolve op"
    and s: "count_ops is_resolve s = 0"
    and ap: "\<And>j q. j \<noteq> i \<Longrightarrow> thread_ok n j q h s \<Longrightarrow> apart q p \<Longrightarrow> \<not> sending q \<or> has_ws (gwsocket.more s)"
  shows "sound n i p h s r"
proof (rule soundI [OF go])
  note f = start_fields [OF t(1)]
  show "shared_ok n t" using start_shared [OF G t s] .
  show "thread_ok n i p' h t"
    using T p p' by (elim disjE) (simp_all add: thread_ok_def counter_defs)
  show "others_ok n i p p' h h s t"
    unfolding others_ok_def
  proof (intro allI impI)
    fix j q
    assume q: "j \<noteq> i" "thread_ok n j q h s" "apart p q" "apart q p"
    note out = other_handler [OF T p(1) q(1,2)]
    have "thread_ok n j q h t"
      by (rule thread_ok_frame [OF q(2)])
         (use thread_okD [OF q(2)] out f t(2,4,5) in simp_all)
    moreover have "apart p' q \<and> apart q p'"
      using p' out by (elim disjE) (simp_all add: apart_def counter_defs)
    ultimately show "thread_ok n j q h t \<and> apart p' q \<and> apart q p'" by simp
  qed
qed

lemma cas_sound:
  assumes "shared_ok n s" "thread_ok n i p h s" "\<not> critical p"
  shows "sound n i p h s (Go (Cas_load w) h s)"
  by (rule same_sound [OF refl assms(1,2) _ assms(3)]) (simp_all add: counter_defs)

lemma guard_sound:
  assumes G: "shared_ok n s" and T: "thread_ok n i (Guard g op ec) h s"
  shows "sound n i (Guard g op ec) h s (handler_access K spurious (Guard g op ec) h s)"
proof (cases "generation s = g")
  case False
  then show ?thesis
    by (intro same_sound [OF _ G T, where p' = Ready]) (simp_all add: handler_access_defs counter_defs)
next
  case True
  show ?thesis
    by (rule view_sound [OF _ _ G, where p' = "Handler op ec" and t = s])
       (use T True in \<open>auto simp: handler_access_defs same_view_def thread_ok_def apart_def counter_defs\<close>)
qed

text \<open>The stream is made anew, but the connection does not get under way.\<close>

lemma prepare_sound:
  assumes go: "r = Go (Cas_load w) h t" and G: "shared_ok n s" and T: "thread_ok n i p h s"
    and p: "handles is_resolve p" "\<not> critical p" and t: "has_ws (gwsocket.more t)" "same_base t s"
  shows "sound n i p h s r"
proof (rule soundI [OF go])
  note f = same_baseD [OF t(2)]
  have none: "pending s = []" "pending t = []" "state s \<noteq> STATE_CONNECTED"
    using thread_okD(18,19) [OF T p(1)] f by simp_all
  then have cnt: "count_ops g s = 0" "count_ops g t = 0" for g by (simp_all add: count_ops_def)
  have rep: "reported n t = reported n s" using f by (simp add: reported_def)
  have hd: "in_handler p" using counters(6) [OF p(1)] .
  show "shared_ok n t" using G f none cnt rep t(1) by (simp add: shared_ok_def)
  show "thread_ok n i (Cas_load w) h t" using T p(2) by (simp add: thread_ok_def counter_defs)
  show "others_ok n i p (Cas_load w) h h s t"
    unfolding others_ok_def
  proof (intro allI impI)
    fix j q
    assume q: "j \<noteq> i" "thread_ok n j q h s" "apart p q" "apart q p"
    note out = other_handler [OF T hd q(1,2)]
    have "\<not> sending q" using q(4) p(1) by (simp add: apart_def)
    then have "\<not> taking q" "\<not> claiming q" "\<not> popping q" using counters(1-3) by auto
    then have "thread_ok n j q h t"
      by (intro thread_ok_frame [OF q(2)])
         (use thread_okD [OF q(2)] out f rep \<open>\<not> sending q\<close> in simp_all)
    moreover have "apart (Cas_load w) q \<and> apart q (Cas_load w)"
      using out by (simp add: apart_def counter_defs)
    ultimately show "thread_ok n j q h t \<and> apart (Cas_load w) q \<and> apart q (Cas_load w)" by simp
  qed
qed

lemma resolve_sound:
  assumes G: "shared_ok n s" and T: "thread_ok n i (Handler (ResolveOp a b) ec) h s"
  shows "sound n i (Handler (ResolveOp a b) ec) h s (handler_access K bad (Handler (ResolveOp a b) ec) h s)"
proof (cases "ec_set ec")
  case True
  show ?thesis
    using cas_sound [OF G T] True by (simp add: handler_access_defs failed_def critical_def)
next
  case False
  obtain t where t: "v_asyncConnect K True s = Some t" using connect_total [of True s] by blast
  have none: "pending s = []" using thread_okD(18) [OF T] by (simp add: counter_defs)
  show ?thesis
  proof (cases "if bad then c_connectFails K s else None")
    case None
    show ?thesis
      by (rule start_sound [OF _ G T, where p' = Ready and t = t and op = ConnectOp])
         (use None none connect_ok [OF t] False in \<open>auto simp: handler_access_defs start_op_def t counter_defs op_ok_def
            count_ops_def apart_def\<close>)
  next
    case (Some s')
    then have bad: "bad" "c_connectFails K s = Some s'" by (simp_all split: if_splits)
    show ?thesis
      by (rule prepare_sound [OF _ G T _ _ connect_fails [OF bad(2), THEN conjunct1] connect_fails [OF bad(2), THEN conjunct2]])
         (use bad False in \<open>simp_all add: handler_access_defs counter_defs\<close>)
  qed
qed

lemma connected_ops:
  assumes "thread_ok n i p h s" "in_handler p" "\<not> handles is_resolve p"
  shows "has_ws (gwsocket.more s)" "count_ops is_resolve s = 0"
  using thread_okD(20,21) [OF assms(1)] assms(2,3) by auto

lemma connect_sound:
  assumes G: "shared_ok n s" and T: "thread_ok n i (Handler ConnectOp ec) h s"
  shows "sound n i (Handler ConnectOp ec) h s (handler_access K spurious (Handler ConnectOp ec) h s)"
proof (cases "ec_set ec")
  case True
  show ?thesis
    using cas_sound [OF G T] True by (simp add: handler_access_defs failed_def critical_def)
next
  case False
  have ws: "has_ws (gwsocket.more s)" "count_ops is_resolve s = 0"
    using connected_ops [OF T] by (simp_all add: counter_defs)
  obtain t where t: "v_asyncHandshake K (hostWithPort s) (path s) s = Some t"
    using handshake_total [OF ws(1)] by blast
  let ?op = "if tls then SslHandshakeOp (hostWithPort s) (path s) else HandshakeOp (hostWithPort s) (path s)"
  show ?thesis
    by (rule start_sound [OF _ G T, where p' = Ready and t = t and op = ?op])
       (use handshake_base [OF t] False ws in \<open>auto simp: handler_access_defs start_op_def t counter_defs op_ok_def\<close>)
qed

lemma tls_sound:
  assumes G: "shared_ok n s" and T: "thread_ok n i (Handler (SslHandshakeOp a b) ec) h s"
  shows "sound n i (Handler (SslHandshakeOp a b) ec) h s (handler_access K spurious (Handler (SslHandshakeOp a b) ec) h s)"
proof (cases "ec_set ec")
  case True
  show ?thesis
    using cas_sound [OF G T] True by (simp add: handler_access_defs failed_def critical_def)
next
  case False
  have ws: "has_ws (gwsocket.more s)" "count_ops is_resolve s = 0" and tls: tls
    using connected_ops [OF T] thread_okD(15) [OF T] by (simp_all add: counter_defs op_ok_def)
  obtain t where t: "c_sslHandshakeComplete K False ec a b s = Some t" using tls_total [OF tls False ws(1)] by blast
  show ?thesis
    by (rule start_sound [OF _ G T, where p' = Ready and t = t and op = "HandshakeOp a b"])
       (use tls_done [OF tls False t] False ws in \<open>auto simp: handler_access_defs start_op_def t counter_defs op_ok_def\<close>)
qed

lemma read_started_sound:
  assumes G: "shared_ok n s" and T: "thread_ok n i p h s" and p: "p = Handshake_read \<or> p = Read_again"
  shows "sound n i p h s (handler_access K spurious p h s)"
proof -
  have ws: "has_ws (gwsocket.more s)" "count_ops is_resolve s = 0"
    using connected_ops [OF T] p by (auto simp: counter_defs)
  obtain t where t: "v_asyncRead K s = Some t" using read_total [OF ws(1)] by blast
  let ?p = "if p = Read_again then Ready else Check_lock"
  show ?thesis
    by (rule start_sound [OF _ G T, where p' = ?p and t = t and op = ReadOp])
       (use read_base [OF t] ws p in \<open>auto simp: handler_access_defs start_op_def t counter_defs op_ok_def\<close>)
qed

lemma handshake_sound:
  assumes G: "shared_ok n s" and T: "thread_ok n i (Handler (HandshakeOp a b) ec) h s"
  shows "sound n i (Handler (HandshakeOp a b) ec) h s (handler_access K spurious (Handler (HandshakeOp a b) ec) h s)"
proof (cases "ec_set ec \<or> state s \<noteq> STATE_CONNECTING")
  case True
  then show ?thesis
    using cas_sound [OF G T]
    by (auto simp: handler_access_defs failed_def critical_def compare_exchange_strong_def)
next
  case False
  let ?t = "s\<lparr>state := STATE_CONNECTED\<rparr>"
  have ws: "has_ws (gwsocket.more s)" "count_ops is_resolve s = 0"
    using connected_ops [OF T] by (simp_all add: counter_defs)
  have "reported n s = 0" using G False by (simp add: shared_ok_def)
  show ?thesis
  proof (rule soundI)
    show "handler_access K spurious (Handler (HandshakeOp a b) ec) h s = Go Handshake_put h ?t"
      using False by (simp add: handler_access_defs compare_exchange_strong_def)
    show "shared_ok n ?t" using G False ws by (auto simp: shared_ok_def count_ops_def reported_def)
    show "thread_ok n i Handshake_put h ?t" using T ws by (auto simp: thread_ok_def counter_defs count_ops_def)
    show "others_ok n i (Handler (HandshakeOp a b) ec) Handshake_put h h s ?t"
      unfolding others_ok_def
    proof (intro allI impI)
      fix j q
      assume q: "j \<noteq> i" "thread_ok n j q h s" "apart (Handler (HandshakeOp a b) ec) q"
        "apart q (Handler (HandshakeOp a b) ec)"
      have out: "\<not> in_handler q" "\<not> handles f q" for f
        using other_handler [OF T _ q(1,2)] by (simp_all add: in_handler_def)
      have "\<not> won q" "\<not> finishing q" using thread_okD(5,6) [OF q(2)] False by auto
      then have "thread_ok n j q h ?t"
        by (intro thread_ok_frame [OF q(2)])
           (use thread_okD [OF q(2)] out False in \<open>simp_all add: count_ops_def reported_def\<close>)
      moreover have "apart Handshake_put q \<and> apart q Handshake_put"
        using out by (simp add: apart_def counter_defs)
      ultimately show "thread_ok n j q h ?t \<and> apart Handshake_put q \<and> apart q Handshake_put" by simp
    qed
  qed
qed

lemma handler_view_sound:
  assumes go: "r = Go p' h t" and v: "same_view n s t" and G: "shared_ok n s" and T: "thread_ok n i p h s"
    and p: "in_handler p" "\<not> handles is_resolve p" "\<not> critical p"
    and p': "in_handler p'" "op_of p' = None"
  shows "sound n i p h s r"
proof (rule view_sound [OF go v G])
  have p'_is: "p' = Handshake_put \<or> p' = Handshake_read \<or> p' = Read_buffer \<or> p' = Read_again"
    using p' by (cases p') (simp_all add: in_handler_def op_of_def)
  then show "thread_ok n i p' h s"
    using T p connected_ops [OF T p(1,2)] thread_okD(1,2,3) [OF T]
    by (elim disjE) (auto simp: thread_ok_def counter_defs)
  show "apart p' q \<and> apart q p'" if "j \<noteq> i" "thread_ok n j q h s" for j q
    using p'_is other_handler [OF T p(1) that]
    by (elim disjE) (simp_all add: apart_def counter_defs)
qed

lemma read_sound:
  assumes G: "shared_ok n s" and T: "thread_ok n i (Handler ReadOp ec) h s"
  shows "sound n i (Handler ReadOp ec) h s (handler_access K spurious (Handler ReadOp ec) h s)"
proof (cases "ec_set ec")
  case True
  then show ?thesis
    using cas_sound [OF G T] by (auto simp: handler_access_defs failed_def critical_def)
next
  case False
  show ?thesis
    by (rule handler_view_sound [OF _ _ G T, where p' = Read_buffer and t = "put_in IN_MESSAGE (readBuffer s) s"])
       (simp_all add: handler_access_defs False view_updates counter_defs)
qed

lemma written_sound:
  assumes G: "shared_ok n s" and T: "thread_ok n i (Handler (WriteOp a b) ec) h s"
  shows "sound n i (Handler (WriteOp a b) ec) h s (handler_access K spurious (Handler (WriteOp a b) ec) h s)"
proof (cases "ec_set ec")
  case True
  then show ?thesis
    using cas_sound [OF G T] by (auto simp: handler_access_defs failed_def critical_def)
next
  case False
  let ?t = "s\<lparr>writing := False\<rparr>"
  have w: "count_ops is_write s = 0" using thread_okD(16) [OF T] by (simp add: counter_defs)
  show ?thesis
  proof (rule soundI)
    show "handler_access K spurious (Handler (WriteOp a b) ec) h s = Go Check_lock h ?t"
      using False by (simp add: handler_access_defs)
    show "shared_ok n ?t" using G w by (simp add: shared_ok_def count_ops_def reported_def)
    show "thread_ok n i Check_lock h ?t" using T by (auto simp: thread_ok_def counter_defs)
    show "others_ok n i (Handler (WriteOp a b) ec) Check_lock h h s ?t"
      unfolding others_ok_def
    proof (intro allI impI)
      fix j q
      assume q: "j \<noteq> i" "thread_ok n j q h s" "apart (Handler (WriteOp a b) ec) q"
        "apart q (Handler (WriteOp a b) ec)"
      have out: "\<not> in_handler q" "\<not> handles f q" for f
        using other_handler [OF T _ q(1,2)] by (simp_all add: in_handler_def)
      have "\<not> popping q" using q(4) by (simp add: apart_def counter_defs)
      then have "thread_ok n j q h ?t"
        by (intro thread_ok_frame [OF q(2)])
           (use thread_okD [OF q(2)] out in \<open>simp_all add: count_ops_def reported_def\<close>)
      moreover have "apart Check_lock q \<and> apart q Check_lock"
        using out by (simp add: apart_def counter_defs)
      ultimately show "thread_ok n j q h ?t \<and> apart Check_lock q \<and> apart q Check_lock" by simp
    qed
  qed
qed

lemma handler_sound:
  assumes G: "shared_ok n s" and T: "thread_ok n i p h s" and p: "in_handler p"
  shows "sound n i p h s (handler_access K spurious p h s)"
proof (cases p)
  case (Guard g op ec)
  then show ?thesis using guard_sound [OF G] T by simp
next
  case (Handler op ec)
  show ?thesis
  proof (cases op)
    case CloseOp
    then show ?thesis using thread_okD(15) [OF T] Handler by (simp add: op_of_def handles_def op_ok_def)
  qed (use G T Handler resolve_sound connect_sound tls_sound handshake_sound read_sound written_sound in simp_all)
next
  case Handshake_put
  show ?thesis unfolding Handshake_put
    by (rule handler_view_sound [OF _ _ G T [unfolded Handshake_put], where p' = Handshake_read
        and t = "put_in IN_CONNECTED ''Connected'' s"]) (simp_all add: handler_access_defs view_updates counter_defs)
next
  case Read_buffer
  show ?thesis unfolding Read_buffer
    by (rule handler_view_sound [OF _ _ G T [unfolded Read_buffer], where p' = Read_again
        and t = "s\<lparr>readBuffer := []\<rparr>"]) (simp_all add: handler_access_defs view_updates counter_defs)
qed (use p read_started_sound [OF G T] in \<open>simp_all add: in_handler_def\<close>)

lemma access_sound:
  assumes "shared_ok n s" "thread_ok n i p h s"
  shows "sound n i p h s (access K spurious i p h s)"
  using check_sound [OF assms] close_sound [OF assms] handler_sound [OF assms] client_sound [OF assms]
  by (simp add: access_def)

subsection \<open>All threads together\<close>

definition threads_ok :: "'a gwsocket_scheme threads \<Rightarrow> bool" where
  "threads_ok c \<longleftrightarrow>
     shared_ok (disconnects (taken c)) (sock c)
     \<and> (\<forall>i. thread_ok (disconnects (taken c)) i (pcs c i) (holder c) (sock c))
     \<and> (\<forall>i j. i \<noteq> j \<longrightarrow> apart (pcs c i) (pcs c j))"

lemma threads_okI:
  assumes "shared_ok n s" "thread_ok n i p h s"
    and "\<And>j. j \<noteq> i \<Longrightarrow> thread_ok n j (pcs c j) h s \<and> apart p (pcs c j) \<and> apart (pcs c j) p"
    and "threads_ok c" "n = disconnects (taken c')" "sock c' = s" "holder c' = h" "pcs c' = (pcs c)(i := p)"
  shows "threads_ok c'"
  using assms unfolding threads_ok_def by auto

lemma run_ok:
  assumes ok: "threads_ok c"
  shows "\<exists>c'. thread_step K (Run i spurious) c = Some c' \<and> threads_ok c'"
proof -
  let ?n = "disconnects (taken c)"
  have t: "shared_ok ?n (sock c)" "thread_ok ?n j (pcs c j) (holder c) (sock c)"
      "j \<noteq> k \<Longrightarrow> apart (pcs c j) (pcs c k)" for j k
    using ok by (simp_all add: threads_ok_def)
  have s: "sound ?n i (pcs c i) (holder c) (sock c) (access K spurious i (pcs c i) (holder c) (sock c))"
    using access_sound [OF t(1,2)] .
  show ?thesis
  proof (cases "access K spurious i (pcs c i) (holder c) (sock c)")
    case Wait
    then show ?thesis using ok by simp
  next
    case Crash
    then show ?thesis using s by (simp add: sound_def)
  next
    case (Go p h s')
    with s have r: "shared_ok ?n s'" "thread_ok ?n i p h s'"
        "others_ok ?n i (pcs c i) p (holder c) h (sock c) s'"
      by (simp_all add: sound_def)
    show ?thesis
    proof (intro exI conjI)
      show "thread_step K (Run i spurious) c = Some (c\<lparr>sock := s', holder := h, pcs := (pcs c)(i := p)\<rparr>)"
        by (simp add: Go)
      show "threads_ok (c\<lparr>sock := s', holder := h, pcs := (pcs c)(i := p)\<rparr>)"
        by (rule threads_okI [OF r(1,2) _ ok]) (use r(3) t(2,3) in \<open>auto simp: others_ok_def\<close>)
    qed
  qed
qed

text \<open>A thread that is ready starts a call; the handlers are started by the io_context.\<close>

lemma entry_ok:
  assumes ok: "threads_ok c" and p: "pcs c i = Ready" "p = entry call \<and> call_allowed call \<or> p = Cas_load w"
  shows "threads_ok (c\<lparr>pcs := (pcs c)(i := p)\<rparr>)"
proof (rule threads_okI [OF _ _ _ ok])
  have p': "\<not> critical p" "\<not> in_handler p" "used p" "\<not> won p" "\<not> finishing p" "\<not> sending p" "\<not> taking p"
      "\<not> claiming p" "\<not> popping p" "\<not> cleared p" "op_of p = None"
    using p(2) by (cases call; auto simp: counter_defs)+
  show "shared_ok (disconnects (taken c)) (sock c)" using ok by (simp add: threads_ok_def)
  have "thread_ok (disconnects (taken c)) i Ready (holder c) (sock c)"
    using ok p(1) unfolding threads_ok_def by metis
  then show "thread_ok (disconnects (taken c)) i p (holder c) (sock c)"
    using p' by (simp add: thread_ok_def op_of_none) (simp add: counter_defs)
  show "thread_ok (disconnects (taken c)) j (pcs c j) (holder c) (sock c) \<and> apart p (pcs c j) \<and> apart (pcs c j) p"
    if "j \<noteq> i" for j
    using ok p' by (simp add: threads_ok_def apart_def op_of_none)
qed simp_all

lemma view_threads_ok:
  assumes ok: "threads_ok c" and v: "same_view (disconnects (taken c)) (sock c) t"
  shows "threads_ok (c\<lparr>sock := t\<rparr>)"
  using ok by (simp add: threads_ok_def view_ok [OF v])

lemma take_ok:
  assumes "threads_ok c"
  shows "threads_ok (c\<lparr>sock := (sock c)\<lparr>messageQueue := snd (bq_clear (messageQueue (sock c)))\<rparr>,
    taken := taken c @ fst (bq_clear (messageQueue (sock c)))\<rparr>)"
  using assms
  by (simp add: threads_ok_def shared_ok_def thread_ok_def count_ops_def reported_def disconnects_def)

lemma removed_count:
  assumes "k < length xs"
  shows "length (filter f (map snd (take k xs @ drop (Suc k) xs))) + (if f (snd (xs ! k)) then 1 else 0)
    = length (filter f (map snd xs))"
proof -
  have "xs = take k xs @ xs ! k # drop (Suc k) xs" using assms by (rule id_take_nth_drop)
  then have "filter f (map snd xs) = filter f (map snd (take k xs @ xs ! k # drop (Suc k) xs))" by simp
  then show ?thesis by simp
qed

lemma complete_ok:
  assumes ok: "threads_ok c" and p: "pcs c 0 = Ready" "k < length (pending (sock c))" "pending (sock c) ! k = (g, op)"
  shows "threads_ok (c\<lparr>sock := (sock c)\<lparr>pending := take k (pending (sock c)) @ drop (Suc k) (pending (sock c))\<rparr>,
    pcs := (pcs c)(0 := Guard g op ec)\<rparr>)"
proof -
  let ?n = "disconnects (taken c)" let ?s = "sock c"
  let ?t = "?s\<lparr>pending := take k (pending ?s) @ drop (Suc k) (pending ?s)\<rparr>"
  have G: "shared_ok ?n ?s" and T: "thread_ok ?n 0 Ready (holder c) ?s"
    and others: "thread_ok ?n j (pcs c j) (holder c) ?s" for j
    using ok p(1) unfolding threads_ok_def by (metis, metis, metis)
  have cnt: "count_ops f ?t + (if f op then 1 else 0) = count_ops f ?s" for f
    using removed_count [OF p(2), of f] p(3) by (simp add: count_ops_def)
  have op: "op_ok op" "list_all op_ok (map snd (pending ?t))"
  proof -
    have every: "\<forall>x\<in>set (pending ?s). op_ok (snd x)" using G by (simp add: shared_ok_def list_all_iff)
    moreover have "(g, op) \<in> set (pending ?s)" using p(2,3) by (metis nth_mem)
    ultimately show "op_ok op" by force
    show "list_all op_ok (map snd (pending ?t))"
      using every by (auto simp: list_all_iff dest!: in_set_takeD in_set_dropD)
  qed
  have len: "Suc (length (pending ?t)) = length (pending ?s)" using p(2) by simp
  have res: "if is_resolve op then pending ?t = [] \<and> state ?s \<noteq> STATE_CONNECTED
      else has_ws (gwsocket.more ?s) \<and> count_ops is_resolve ?s = 0"
  proof (cases "is_resolve op")
    case True
    then have "count_ops is_resolve ?s \<noteq> 0" using cnt [of is_resolve] by simp
    then show ?thesis using G len True by (auto simp: shared_ok_def)
  next
    case False
    have "count_ops is_resolve ?t \<le> length (pending ?t)"
      unfolding count_ops_def by (metis length_filter_le length_map)
    then have "count_ops is_resolve ?s \<noteq> length (pending ?s)"
      using cnt [of is_resolve] False len by simp
    then show ?thesis using G False by (auto simp: shared_ok_def)
  qed
  have wr: "is_write op \<Longrightarrow> count_ops is_write ?t = 0 \<and> (state ?s \<noteq> STATE_DISCONNECTED \<longrightarrow> writing ?s)"
    using G cnt [of is_write] by (auto simp: shared_ok_def)
  have sh: "shared_ok ?n ?t"
    using G cnt [of is_write] cnt [of is_resolve] op(2) res len
    by (auto simp: shared_ok_def reported_def split: if_splits)
  show ?thesis
  proof (rule threads_okI [OF sh _ _ ok])
    show "thread_ok ?n 0 (Guard g op ec) (holder c) ?t"
      using T op(1) wr res cnt [of is_resolve] by (auto simp: thread_ok_def counter_defs split: if_splits)
    fix j :: nat
    assume j: "j \<noteq> 0"
    define q where "q = pcs c j"
    have q: "thread_ok ?n j q (holder c) ?s" using others by (simp add: q_def)
    have out: "\<not> in_handler q" "\<not> handles f q" for f using thread_okD(3) [OF q] counters(6) [of f q] j by auto
    have "thread_ok ?n j q (holder c) ?t"
      by (rule thread_ok_frame [OF q])
         (use thread_okD [OF q] out cnt [of is_write] cnt [of is_resolve] in \<open>simp_all add: reported_def\<close>)
    moreover have "popping q \<Longrightarrow> \<not> is_write op" "sending q \<Longrightarrow> \<not> is_resolve op"
      using thread_okD(9,14) [OF q] cnt [of is_write] cnt [of is_resolve] by auto
    then have "apart (Guard g op ec) q \<and> apart q (Guard g op ec)"
      using out by (auto simp: apart_def counter_defs)
    ultimately show "thread_ok ?n j (pcs c j) (holder c) ?t \<and> apart (Guard g op ec) (pcs c j)
        \<and> apart (pcs c j) (Guard g op ec)" by (simp add: q_def)
  qed simp_all
qed

lemma thread_step_ok:
  assumes ok: "threads_ok c" and e: "event_allowed e"
  shows "\<exists>c'. thread_step K e c = Some c' \<and> threads_ok c'"
proof (cases e)
  case (Run i spurious)
  then show ?thesis using run_ok [OF ok] by blast
next
  case (Begin i call)
  then show ?thesis using ok e entry_ok [OF ok, of i "entry call" call] by (simp add: event_allowed_def)
next
  case (Complete k ec)
  then show ?thesis using ok complete_ok [OF ok, of k _ _ ec]
    by (auto simp: Let_def split: prod.split)
next
  case (Arrive bytes)
  then show ?thesis using ok view_threads_ok [OF ok view_updates(3)] by simp
next
  case (Peer_close reason)
  have "same_view n s (c_peerClosed K reason s)" for n s
    using same_baseD [OF peerClosed_base [of reason s]] peerClosed_ws [of reason s]
    by (simp add: same_view_def reported_def)
  then show ?thesis using Peer_close ok view_threads_ok [OF ok] by simp
next
  case (Verify msg)
  then show ?thesis using ok entry_ok [OF ok, of 0 "Cas_load (Error msg)" _ "Error msg"] by simp
next
  case Take
  then show ?thesis using take_ok [OF ok] by (simp add: bq_clear_def)
qed

end

end
