(* ===== verification/Socket_Threads_Props.thy ===== *)
theory Socket_Threads_Props
  imports Socket_Threads_Inv
begin

text \<open>
  What holds of the socket under several threads: runs, deadlock freedom, a bound on the
  accesses of each call, what a returned \<open>closeNow\<close> means, and that a thread that is not
  interrupted does what the sequential definitions say. At the end the two interpretations,
  the properties, and two runs that opening again on another thread makes possible.
\<close>

subsection \<open>Runs\<close>

fun thread_run ::
  "('a gwsocket_scheme, 'z) socket_class_scheme \<Rightarrow> thread_event list \<Rightarrow> 'a gwsocket_scheme threads \<Rightarrow>
   'a gwsocket_scheme threads option" where
  "thread_run K [] c = Some c"
| "thread_run K (e # es) c = (case thread_step K e c of None \<Rightarrow> None | Some c' \<Rightarrow> thread_run K es c')"

definition can_move :: "('a gwsocket_scheme, 'z) socket_class_scheme \<Rightarrow> bool \<Rightarrow> nat \<Rightarrow> 'a gwsocket_scheme threads \<Rightarrow> bool" where
  "can_move K spurious i c = (access K spurious i (pcs c i) (holder c) (sock c) \<noteq> Wait)"

fun moves ::
  "('a gwsocket_scheme, 'z) socket_class_scheme \<Rightarrow> nat \<Rightarrow> thread_event list \<Rightarrow> 'a gwsocket_scheme threads \<Rightarrow> nat" where
  \<comment> \<open>how many accesses thread \<open>i\<close> makes in a run\<close>
  "moves K i [] c = 0"
| "moves K i (e # es) c =
     (case e of Run j spurious \<Rightarrow> (if j = i \<and> can_move K spurious i c then 1 else 0) | _ \<Rightarrow> 0)
     + (case thread_step K e c of None \<Rightarrow> 0 | Some c' \<Rightarrow> moves K i es c')"

fun starts :: "nat \<Rightarrow> thread_event \<Rightarrow> bool" where
  \<comment> \<open>thread \<open>i\<close> enters a function\<close>
  "starts i (Begin j call) = (j = i)"
| "starts i (Complete k ec) = (i = 0)"
| "starts i (Verify msg) = (i = 0)"
| "starts i e = False"

text \<open>
  The compare-and-exchange loop starts again only if another thread changed the state, and
  the state of a connection only moves on.
\<close>

fun states_left :: "SocketState \<Rightarrow> nat" where
  "states_left STATE_DISCONNECTED = 0"
| "states_left STATE_DISCONNECTING = 1"
| "states_left STATE_DISCONNECT_REQUESTED = 2"
| "states_left STATE_CONNECTED = 3"
| "states_left STATE_CONNECTING = 4"

definition rank :: "SocketState \<Rightarrow> pc \<Rightarrow> nat" where
  \<comment> \<open>how many accesses a thread has left at most\<close>
  "rank st p = (case p of
     Ready \<Rightarrow> 0
   | Close_put _ \<Rightarrow> 1 | Close_writing _ \<Rightarrow> 2 | Close_state _ \<Rightarrow> 3 | Close_clear _ \<Rightarrow> 4 | Close_lock _ \<Rightarrow> 5
   | Close_socket _ \<Rightarrow> 6 | Close_generation _ \<Rightarrow> 7 | Report _ \<Rightarrow> 8
   | Cas_load _ \<Rightarrow> 4 * states_left st + 10
   | Cas_exchange _ e \<Rightarrow> (if st = e then 4 * states_left st + 9 else 4 * states_left st + 13)
   | Cas_connected _ \<Rightarrow> 4 * states_left st + 12 | Cas_connecting _ \<Rightarrow> 4 * states_left st + 11
   | Check_unlock \<Rightarrow> 1 | Check_close \<Rightarrow> 2 | Check_unlock_close \<Rightarrow> 31 | Check_send _ \<Rightarrow> 32 | Check_pop \<Rightarrow> 33
   | Check_mark \<Rightarrow> 34 | Check_empty \<Rightarrow> 35 | Check_writing \<Rightarrow> 36 | Check_requested \<Rightarrow> 37 | Check_connected \<Rightarrow> 38
   | Check_lock \<Rightarrow> 39 | Write_push _ _ \<Rightarrow> 40 | Write_lock _ _ \<Rightarrow> 41 | Clear_queue \<Rightarrow> 1 | Clear_lock \<Rightarrow> 2
   | Handshake_read \<Rightarrow> 40 | Handshake_put \<Rightarrow> 41 | Read_again \<Rightarrow> 1 | Read_buffer \<Rightarrow> 2
   | Handler _ _ \<Rightarrow> 42 | Guard _ _ _ \<Rightarrow> 43
   | Request_push _ \<Rightarrow> 40 | Request_lock _ \<Rightarrow> 41 | Request_exchange _ \<Rightarrow> 42 | Request_load \<Rightarrow> 43
   | Open_resolve \<Rightarrow> 1 | Open_generation \<Rightarrow> 2 | Open_clear \<Rightarrow> 3 | Open_lock \<Rightarrow> 4 | Open_exchange _ \<Rightarrow> 5)"

lemma states_left_bound: "states_left st \<le> 4"
  by (cases st) simp_all

lemma rank_bound: "rank st p \<le> 43"
  using states_left_bound [of st] by (cases p) (auto simp: rank_def)

lemma rank_later:
  assumes "states_left st' < states_left st"
  shows "rank st' p \<le> rank st p"
  using assms by (cases p) (auto simp: rank_def)

definition fresh :: "'a gwsocket_scheme \<Rightarrow> bool" where
  \<comment> \<open>a socket that was created, with any options set, and not opened\<close>
  "fresh s \<longleftrightarrow> state s = STATE_DISCONNECTED \<and> pending s = [] \<and> backingQueue (messageQueue s) = []"

definition closing_ok :: "pc \<Rightarrow> SocketState \<Rightarrow> bool" where
  \<comment> \<open>a thread inside \<open>closeNow\<close>, or after it\<close>
  "closing_ok p st = (case p of
     Cas_load _ \<Rightarrow> True | Cas_exchange _ e \<Rightarrow> states_left st \<le> states_left e
   | Cas_connected _ \<Rightarrow> states_left st \<le> 3 | _ \<Rightarrow> states_left st \<le> 1)"

lemma closing_ok_later:
  assumes "closing_ok p st" "states_left st' \<le> states_left st"
  shows "closing_ok p st'"
  using assms by (cases p) (simp_all add: closing_ok_def)

lemma closing_ok_closed:
  assumes "states_left st \<le> 1" "used p"
  shows "closing_ok p st"
proof (cases p)
  case (Cas_exchange w e)
  then show ?thesis using assms by (cases e) (simp_all add: closing_ok_def used_def)
qed (use assms in \<open>simp_all add: closing_ok_def\<close>)

lemma ready_idle: "\<not> won Ready" "\<not> finishing Ready" "\<not> critical Ready"
  by (simp_all add: won_def finishing_def critical_def)

subsection \<open>The mutex\<close>

text \<open>
  This holds of all calls, \<open>close\<close> and \<open>open\<close> included, and whatever the virtual functions do:
  a thread is at a counter between \<open>lock\<close> and \<open>unlock\<close> exactly when it holds the mutex.
\<close>

definition plausible :: "pc \<Rightarrow> bool" where
  \<comment> \<open>the states that a call goes on with\<close>
  "plausible p = (case p of
     Cas_exchange _ e \<Rightarrow> e \<noteq> STATE_DISCONNECTED \<and> e \<noteq> STATE_DISCONNECTING
   | Request_exchange e \<Rightarrow> e = STATE_CONNECTING \<or> e = STATE_CONNECTED
   | _ \<Rightarrow> True)"

definition mutex_ok :: "'s threads \<Rightarrow> bool" where
  "mutex_ok c \<longleftrightarrow> (\<forall>i. (critical (pcs c i) \<longleftrightarrow> holder c = Some i) \<and> plausible (pcs c i))"

lemma start_op_go: "start_op p h r = Go p' h' s' \<longleftrightarrow> p' = p \<and> h' = h \<and> r = Some s'"
  by (auto simp: start_op_def split: option.splits)

lemma access_plausible:
  assumes go: "access K spurious i p h s = Go p' h' s'"
  shows "plausible p'"
proof (cases p)
  case (Handler op ec)
  then show ?thesis using go
    by (cases op) (auto simp: access_def in_check_def in_close_def in_handler_def handler_access_defs
        failed_def plausible_def start_op_go split: if_splits prod.splits option.splits)
next
  case (Check_send m)
  then show ?thesis using go
    by (cases "out_type m") (auto simp: access_def in_check_def check_access_def plausible_def start_op_go
        split: if_splits prod.splits)
next
  case (Cas_exchange w e)
  then show ?thesis using go
    by (cases w) (auto simp: access_def in_check_def in_close_def close_access_defs plausible_def
        split: if_splits prod.splits)
next
  case Request_load
  then show ?thesis using go
    by (cases "state s") (auto simp: access_def in_check_def in_close_def in_handler_def client_access_defs plausible_def Let_def)
qed (use go in \<open>auto simp: access_def in_check_def in_close_def in_handler_def check_access_def close_access_defs
      handler_access_defs client_access_defs lock_def plausible_def start_op_go Let_def
      split: if_splits prod.splits list.splits\<close>)

lemma access_mutex:
  assumes go: "access K spurious i p h s = Go p' h' s'" and h: "critical p \<longleftrightarrow> h = Some i"
  shows "(critical p' \<longleftrightarrow> h' = Some i) \<and> (h' = h \<or> h = None \<and> h' = Some i \<or> h = Some i \<and> h' = None)"
proof (cases p)
  case (Handler op ec)
  then show ?thesis using go h
    by (cases op) (auto simp: access_def in_check_def in_close_def in_handler_def handler_access_defs
        failed_def critical_def start_op_go split: if_splits prod.splits option.splits)
next
  case (Check_send m)
  then show ?thesis using go h
    by (cases "out_type m") (auto simp: access_def in_check_def check_access_def critical_def start_op_go
        split: if_splits prod.splits)
next
  case (Cas_exchange w e)
  then show ?thesis using go h
    by (cases w) (auto simp: access_def in_check_def in_close_def close_access_defs critical_def
        split: if_splits prod.splits)
qed (use go h in \<open>auto simp: access_def in_check_def in_close_def in_handler_def check_access_def close_access_defs
      handler_access_defs client_access_defs lock_def critical_def start_op_go Let_def
      split: if_splits prod.splits list.splits\<close>)

lemma entry_plausible: "\<not> critical (entry call) \<and> plausible (entry call)"
  by (cases call) (simp_all add: critical_def plausible_def)

lemma mutex_ok_start: "mutex_ok (c\<lparr>pcs := (pcs c)(i := p)\<rparr>)" if "mutex_ok c" "pcs c i = Ready" "\<not> critical p" "plausible p"
proof -
  have "holder c \<noteq> Some i" using that(1,2) unfolding mutex_ok_def by (metis ready_idle(3))
  with that show ?thesis by (auto simp: mutex_ok_def)
qed

lemma step_mutex_ok:
  assumes ok: "mutex_ok c" and step: "thread_step K e c = Some c'"
  shows "mutex_ok c'"
proof (cases e)
  case (Run i spurious)
  show ?thesis
  proof (cases "access K spurious i (pcs c i) (holder c) (sock c)")
    case (Go p h s')
    have own: "critical (pcs c j) \<longleftrightarrow> holder c = Some j" "plausible (pcs c j)" for j
      using ok by (simp_all add: mutex_ok_def)
    have c': "c' = c\<lparr>sock := s', holder := h, pcs := (pcs c)(i := p)\<rparr>" using step Run Go by simp
    have "(critical (pcs c' j) \<longleftrightarrow> holder c' = Some j) \<and> plausible (pcs c' j)" for j
      using own [of j] access_plausible [OF Go] access_mutex [OF Go own(1)] c' by (cases "j = i") auto
    then show ?thesis by (simp add: mutex_ok_def)
  qed (use step Run ok in simp_all)
next
  case (Begin i call)
  then show ?thesis using step ok mutex_ok_start [OF ok, of i "entry call"] entry_plausible by (auto split: if_splits)
next
  case (Complete k ec)
  then show ?thesis using step ok mutex_ok_start [OF ok, of 0 "Guard g op ec" for g op]
    by (auto simp: Let_def critical_def plausible_def mutex_ok_def split: if_splits prod.splits)
next
  case (Verify msg)
  then show ?thesis using step ok mutex_ok_start [OF ok, of 0 "Cas_load (Error msg)"]
    by (auto simp: critical_def plausible_def split: if_splits)
qed (use step ok in \<open>auto simp: mutex_ok_def bq_clear_def split: if_splits\<close>)

lemma run_mutex_ok: "mutex_ok c \<Longrightarrow> thread_run K es c = Some d \<Longrightarrow> mutex_ok d"
  by (induction es arbitrary: c) (auto split: option.splits dest: step_mutex_ok)

lemma start_mutex_ok: "thread_run K es (threads_start s) = Some c \<Longrightarrow> mutex_ok c"
  by (rule run_mutex_ok) (simp_all add: mutex_ok_def threads_start_def critical_def plausible_def)

lemma access_moves:
  fixes s :: "'a gwsocket_scheme"
  assumes "p \<noteq> Ready" "h = None \<or> critical p"
  shows "access K spurious i p h s \<noteq> Wait"
proof -
  have st: "start_op q g r \<noteq> Wait" for q g and r :: "'a gwsocket_scheme option" by (simp add: start_op_def split: option.splits)
  show ?thesis
  proof (cases p)
    case (Check_send m)
    show ?thesis unfolding Check_send
      by (cases "out_type m") (simp_all add: access_def in_check_def check_access_def st split: prod.splits)
  next
    case (Handler op ec)
    show ?thesis unfolding Handler
      by (cases op) (simp_all add: access_def in_check_def in_close_def in_handler_def handler_access_defs st
          split: prod.splits if_splits option.splits)
  qed (use assms in \<open>simp_all add: access_def in_check_def in_close_def in_handler_def check_access_def close_access_defs
      handler_access_defs client_access_defs lock_def critical_def st Let_def split: prod.splits list.splits\<close>)
qed

lemma mutex_moves:
  assumes "mutex_ok c"
  shows "pcs c i \<noteq> Ready \<Longrightarrow> holder c = None \<Longrightarrow> can_move K spurious i c"
    and "holder c = Some j \<Longrightarrow> pcs c j \<noteq> Ready \<and> can_move K spurious j c"
proof -
  show "pcs c i \<noteq> Ready \<Longrightarrow> holder c = None \<Longrightarrow> can_move K spurious i c"
    using access_moves [of "pcs c i" "holder c"] by (simp add: can_move_def)
  assume "holder c = Some j"
  then have "critical (pcs c j)" using assms by (simp add: mutex_ok_def)
  moreover from this have "pcs c j \<noteq> Ready" using ready_idle(3) by metis
  ultimately show "pcs c j \<noteq> Ready \<and> can_move K spurious j c"
    using access_moves [of "pcs c j" "holder c"] by (simp add: can_move_def)
qed

subsection \<open>How far a call is\<close>

lemma open_rank:
  assumes go: "access K spurious i p h s = Go p' h' s'" and p: "\<not> in_close p"
  shows "rank st' p' < rank st p"
proof -
  have b: "states_left st' \<le> 4" by (rule states_left_bound)
  show ?thesis
  proof (cases p)
    case (Handler op ec)
    then show ?thesis using go b
      by (cases op) (auto simp: access_def in_check_def in_close_def in_handler_def handler_access_defs
          failed_def rank_def start_op_go split: if_splits prod.splits option.splits)
  next
    case (Check_send m)
    then show ?thesis using go b
      by (cases "out_type m") (auto simp: access_def in_check_def check_access_def rank_def start_op_go
          split: if_splits prod.splits)
  qed (use go p b in \<open>auto simp: access_def in_check_def in_close_def in_handler_def check_access_def
      handler_access_defs client_access_defs lock_def rank_def start_op_go Let_def
      split: if_splits prod.splits list.splits\<close>)
qed

lemma close_rank:
  assumes go: "access K spurious i p h s = Go p' h' s'" and p: "in_close p" "plausible p"
  shows "rank (state s') p' < rank (state s) p"
proof (cases p)
  case (Cas_exchange w e)
  then have e: "e \<noteq> STATE_DISCONNECTED" "e \<noteq> STATE_DISCONNECTING" using p(2) by (simp_all add: plausible_def)
  show ?thesis using go Cas_exchange e
    by (cases w; cases e; cases "state s")
       (auto simp: access_def in_check_def in_close_def close_access_defs compare_exchange_strong_def rank_def)
qed (use go p in \<open>auto simp: access_def in_check_def close_access_defs in_close_def rank_def lock_def put_in_def clearQueue_def
    split: if_splits\<close>)

lemma access_rank:
  assumes "access K spurious i p h s = Go p' h' s'" "plausible p"
  shows "rank (state s') p' < rank (state s) p"
  using close_rank [OF assms(1)] open_rank [OF assms(1)] assms(2) by blast

definition transition :: "pc \<Rightarrow> SocketState \<Rightarrow> SocketState \<Rightarrow> bool" where
  \<comment> \<open>what a thread at the counter may make of the state\<close>
  "transition p st st' \<longleftrightarrow> st' = st \<or> (case p of
     Open_exchange _ \<Rightarrow> st = STATE_DISCONNECTED \<and> st' = STATE_CONNECTING
   | Handler (HandshakeOp _ _) _ \<Rightarrow> st = STATE_CONNECTING \<and> st' = STATE_CONNECTED
   | Request_exchange _ \<Rightarrow> (st = STATE_CONNECTING \<or> st = STATE_CONNECTED) \<and> st' = STATE_DISCONNECT_REQUESTED
   | Check_send _ \<Rightarrow> st = STATE_DISCONNECT_REQUESTED \<and> st' = STATE_DISCONNECTING
   | Cas_exchange _ _ \<Rightarrow> st \<noteq> STATE_DISCONNECTED \<and> st' = STATE_DISCONNECTING
   | Close_state _ \<Rightarrow> st' = STATE_DISCONNECTED
   | _ \<Rightarrow> False)"

lemma transition_forward:
  assumes "transition p st st'"
  shows "st' = st \<or> states_left st' < states_left st
    \<or> (\<exists>clear. p = Open_exchange clear) \<and> st = STATE_DISCONNECTED \<and> st' = STATE_CONNECTING"
proof (cases p)
  case (Handler op ec)
  then show ?thesis using assms by (cases op) (auto simp: transition_def)
next
  case (Cas_exchange w e)
  then show ?thesis using assms by (cases st) (auto simp: transition_def)
next
  case (Close_state r)
  then show ?thesis using assms by (cases st) (auto simp: transition_def)
qed (use assms in \<open>auto simp: transition_def\<close>)

lemma rank_reopened:
  assumes "plausible p"
  shows "rank STATE_CONNECTING p \<le> rank STATE_DISCONNECTED p + 16"
  using assms by (cases p) (auto simp: rank_def plausible_def)

fun reopens ::
  "('a gwsocket_scheme, 'z) socket_class_scheme \<Rightarrow> thread_event list \<Rightarrow> 'a gwsocket_scheme threads \<Rightarrow> nat" where
  \<comment> \<open>how often the socket is opened in a run\<close>
  "reopens K [] c = 0"
| "reopens K (e # es) c =
     (case thread_step K e c of None \<Rightarrow> 0
      | Some c' \<Rightarrow>
          (if state (sock c) = STATE_DISCONNECTED \<and> state (sock c') = STATE_CONNECTING then 1 else 0)
          + reopens K es c')"

context threaded
begin

subsection \<open>Nobody stops half way\<close>

definition keeps_state :: "nat \<Rightarrow> 'a gwsocket_scheme \<Rightarrow> 'a gwsocket_scheme access \<Rightarrow> bool" where
  "keeps_state n s r \<longleftrightarrow> (case r of Go p' h' s' \<Rightarrow>
     (state s' = state s \<or> state s = STATE_CONNECTING \<and> state s' = STATE_CONNECTED) \<and> reported n s' = reported n s | _ \<Rightarrow> True)"

lemma start_op_keeps:
  assumes "\<And>t. r = Some t \<Longrightarrow> \<exists>op. same_base t (async_start op s)"
  shows "keeps_state n s (start_op p h r)"
proof (cases r)
  case None
  then show ?thesis by (simp add: keeps_state_def start_op_def)
next
  case (Some t)
  then obtain op where base: "same_base t (async_start op s)" using assms by blast
  then show ?thesis using start_fields(1) [OF base] start_fields(4) [OF base, of n] Some
    by (simp add: keeps_state_def start_op_def)
qed

lemma check_keeps_state:
  assumes "thread_ok n i p h s"
  shows "keeps_state n s (check_access K spurious i p h s)"
proof (cases p)
  case (Check_send m)
  have m: "out_type m = OUT_MESSAGE" using thread_okD(4) [OF assms] Check_send by (simp add: used_def)
  show ?thesis
  proof (cases "v_asyncWrite K (out_message m) (out_binary m) s")
    case (Some t)
    have "state t = state s \<and> messageQueue t = messageQueue s"
      using write_base [OF Some] by (simp add: gwsocket.truncate_def async_start_def)
    then show ?thesis using Check_send m Some by (simp add: check_access_def keeps_state_def start_op_def reported_def)
  qed (simp add: Check_send m check_access_def keeps_state_def start_op_def)
next
  case Check_close
  show ?thesis unfolding check_access_def Check_close
    using close_base by (auto intro: start_op_keeps)
qed (simp_all add: check_access_def keeps_state_def lock_def reported_def split: list.splits)

lemma handler_keeps:
  assumes T: "thread_ok n i p h s" and p: "in_handler p"
  shows "keeps_state n s (handler_access K spurious p h s)"
proof (cases p)
  case (Handler op ec)
  show ?thesis
  proof (cases op)
    case (SslHandshakeOp a b)
    have tls: tls using thread_okD(15) [OF T] Handler SslHandshakeOp by (simp add: counter_defs op_ok_def)
    show ?thesis
    proof (cases "ec_set ec")
      case False
      then have "handler_access K spurious (Handler op ec) h s = start_op Ready h (c_sslHandshakeComplete K False ec a b s)"
        by (simp add: handler_access_defs SslHandshakeOp)
      then show ?thesis unfolding Handler
        using start_op_keeps [of "c_sslHandshakeComplete K False ec a b s" s n Ready h] tls_done [OF tls False]
        by (metis (no_types, lifting))
    qed (simp add: Handler SslHandshakeOp handler_access_defs keeps_state_def)
  next
    case ResolveOp
    have "state t = state s \<and> reported n t = reported n s" if "c_connectFails K s = Some t" for t
      using same_baseD [of t s] connect_fails [OF that] by (simp add: reported_def)
    moreover have "keeps_state n s (start_op Ready h (v_asyncConnect K True s))"
      using connect_ok by (blast intro: start_op_keeps)
    ultimately show ?thesis using ResolveOp unfolding handler_access_defs Handler
      by (auto simp: keeps_state_def split: option.split)
  next
    case ConnectOp
    then show ?thesis unfolding handler_access_defs Handler
      using handshake_base by (auto simp: keeps_state_def intro!: start_op_keeps [unfolded keeps_state_def])
  qed (simp_all add: Handler handler_access_defs keeps_state_def compare_exchange_strong_def put_in_def
      reported_def disconnects_def)
next
  case Handshake_read
  show ?thesis unfolding handler_access_defs Handshake_read
    using read_base by (auto intro: start_op_keeps)
next
  case Read_again
  show ?thesis unfolding handler_access_defs Read_again
    using read_base by (auto intro: start_op_keeps)
qed (use p in \<open>simp_all add: handler_access_defs in_handler_def keeps_state_def put_in_def reported_def disconnects_def\<close>)

lemma client_keeps:
  assumes "thread_ok n i p h s" "\<not> in_check p" "\<not> in_close p" "\<not> in_handler p"
  shows "keeps_state n s (client_access i p h s)"
  using thread_okD(4) [OF assms(1)] assms(2-4)
  by (cases p) (simp_all add: client_access_defs keeps_state_def lock_def reported_def clearQueue_def used_def
      in_check_def in_close_def in_handler_def)

lemma access_live:
  assumes G: "shared_ok n s" and T: "thread_ok n i p h s" and go: "access K spurious i p h s = Go p' h' s'"
  shows "state s' = STATE_DISCONNECTING \<Longrightarrow> won p' \<or> state s = STATE_DISCONNECTING \<and> \<not> won p"
    and "state s' = STATE_DISCONNECTED \<Longrightarrow> finishing p' \<or> reported n s' = 1
      \<or> state s = STATE_DISCONNECTED \<and> \<not> finishing p \<and> reported n s' = reported n s"
proof -
  have "(state s' = STATE_DISCONNECTING \<longrightarrow> won p' \<or> state s = STATE_DISCONNECTING \<and> \<not> won p)
    \<and> (state s' = STATE_DISCONNECTED \<longrightarrow> finishing p' \<or> reported n s' = 1
      \<or> state s = STATE_DISCONNECTED \<and> \<not> finishing p \<and> reported n s' = reported n s)"
  proof (cases "in_close p")
    case False
    then have none: "\<not> won p" "\<not> finishing p"
      by (cases p; simp add: in_close_def counter_defs)+
    have "keeps_state n s (access K spurious i p h s)"
      using check_keeps_state [OF T] handler_keeps [OF T] client_keeps [OF T] False by (simp add: access_def)
    then have "state s' = state s \<or> state s = STATE_CONNECTING \<and> state s' = STATE_CONNECTED" "reported n s' = reported n s"
      by (simp_all add: keeps_state_def go)
    then show ?thesis using none by auto
  next
    case True
    then have go': "close_access K i p h s = Go p' h' s'" using go by (cases p) (simp_all add: access_def in_close_def in_check_def)
    note fin = thread_okD(5,6,7) [OF T]
    show ?thesis
    proof (cases p)
      case (Cas_exchange w e)
      then show ?thesis using go'
        by (cases w) (auto simp: close_access_defs compare_exchange_strong_def counter_defs split: if_splits)
    next
      case (Close_socket r)
      then show ?thesis using go' fin same_baseD [OF closeSocket_base [of s]]
        by (auto simp: close_access_defs counter_defs)
    qed (use True go' fin in \<open>auto simp: close_access_defs lock_def counter_defs in_close_def put_in_def reported_def
         disconnects_def clearQueue_def split: if_splits\<close>)
  qed
  then show "state s' = STATE_DISCONNECTING \<Longrightarrow> won p' \<or> state s = STATE_DISCONNECTING \<and> \<not> won p"
    and "state s' = STATE_DISCONNECTED \<Longrightarrow> finishing p' \<or> reported n s' = 1
      \<or> state s = STATE_DISCONNECTED \<and> \<not> finishing p \<and> reported n s' = reported n s"
    by simp_all
qed

definition ends_well :: "'a gwsocket_scheme threads \<Rightarrow> bool" where
  \<comment> \<open>a disconnection that has begun is in the hands of a thread\<close>
  "ends_well c \<longleftrightarrow>
     (state (sock c) = STATE_DISCONNECTING \<longrightarrow> (\<exists>i. won (pcs c i)))
     \<and> (state (sock c) = STATE_DISCONNECTED \<longrightarrow>
          reported (disconnects (taken c)) (sock c) = 1 \<or> (\<exists>i. finishing (pcs c i)))"

lemma ends_wellI:
  assumes "ends_well c" "state (sock c') = state (sock c)"
    and "reported (disconnects (taken c')) (sock c') = reported (disconnects (taken c)) (sock c)"
    and "\<And>i. won (pcs c i) \<Longrightarrow> won (pcs c' i)" "\<And>i. finishing (pcs c i) \<Longrightarrow> finishing (pcs c' i)"
  shows "ends_well c'"
  using assms unfolding ends_well_def by metis

lemma run_ends_well:
  assumes ok: "threads_ok c" and live: "ends_well c" and step: "thread_step K (Run i spurious) c = Some c'"
  shows "ends_well c'"
proof (cases "access K spurious i (pcs c i) (holder c) (sock c)")
  case (Go p h s')
  have "shared_ok (disconnects (taken c)) (sock c)" "thread_ok (disconnects (taken c)) i (pcs c i) (holder c) (sock c)"
    using ok by (simp_all add: threads_ok_def)
  note l = access_live [OF this Go]
  have c': "c' = c\<lparr>sock := s', holder := h, pcs := (pcs c)(i := p)\<rparr>" using step Go by simp
  show ?thesis unfolding ends_well_def
  proof (intro conjI impI)
    assume "state (sock c') = STATE_DISCONNECTING"
    then have "won p \<or> state (sock c) = STATE_DISCONNECTING \<and> \<not> won (pcs c i)" using l(1) c' by simp
    then show "\<exists>j. won (pcs c' j)"
    proof
      assume "state (sock c) = STATE_DISCONNECTING \<and> \<not> won (pcs c i)"
      then obtain j where "won (pcs c j)" "j \<noteq> i" using live by (auto simp: ends_well_def)
      then show ?thesis using c' by (intro exI [of _ j]) simp
    qed (use c' in auto)
  next
    assume "state (sock c') = STATE_DISCONNECTED"
    then have "finishing p \<or> reported (disconnects (taken c)) s' = 1
      \<or> state (sock c) = STATE_DISCONNECTED \<and> \<not> finishing (pcs c i)
        \<and> reported (disconnects (taken c)) s' = reported (disconnects (taken c)) (sock c)"
      using l(2) c' by simp
    then show "reported (disconnects (taken c')) (sock c') = 1 \<or> (\<exists>j. finishing (pcs c' j))"
    proof (elim disjE)
      assume u: "state (sock c) = STATE_DISCONNECTED \<and> \<not> finishing (pcs c i)
        \<and> reported (disconnects (taken c)) s' = reported (disconnects (taken c)) (sock c)"
      then consider "reported (disconnects (taken c)) (sock c) = 1" | j where "finishing (pcs c j)" "j \<noteq> i"
        using live by (auto simp: ends_well_def)
      then show ?thesis
      proof cases
        case 2
        then show ?thesis using c' by (intro disjI2 exI [of _ j]) simp
      qed (use u c' in simp)
    qed (use c' in auto)
  qed
qed (use step live in simp_all)

lemma step_ends_well:
  assumes ok: "threads_ok c" and live: "ends_well c" and step: "thread_step K e c = Some c'"
  shows "ends_well c'"
proof (cases e)
  case (Run i spurious)
  then show ?thesis using run_ends_well ok live step by simp
next
  case (Begin i call)
  show ?thesis
    by (rule ends_wellI [OF live]) (use step Begin ready_idle in \<open>auto split: if_splits\<close>)
next
  case (Complete k ec)
  show ?thesis
    by (rule ends_wellI [OF live])
       (use step Complete ready_idle in \<open>auto simp: Let_def reported_def split: if_splits prod.splits\<close>)
next
  case (Arrive bytes)
  show ?thesis by (rule ends_wellI [OF live]) (use step Arrive in \<open>auto simp: reported_def split: if_splits\<close>)
next
  case (Peer_close reason)
  have "state (c_peerClosed K reason s) = state s" "reported n (c_peerClosed K reason s) = reported n s" for n s
    using same_baseD [OF peerClosed_base [of reason s]] by (simp_all add: reported_def)
  then show ?thesis by (intro ends_wellI [OF live]) (use step Peer_close in \<open>auto split: if_splits\<close>)
next
  case (Verify msg)
  show ?thesis by (rule ends_wellI [OF live]) (use step Verify ready_idle in \<open>auto split: if_splits\<close>)
next
  case Take
  show ?thesis
    by (rule ends_wellI [OF live]) (use step Take in \<open>auto simp: bq_clear_def reported_def disconnects_def\<close>)
qed

lemma quiet_end:
  assumes "ends_well c" "threads_ok c" "\<And>i. pcs c i = Ready"
  shows "(state (sock c) = STATE_CONNECTING \<or> state (sock c) = STATE_CONNECTED)
      \<and> reported (disconnects (taken c)) (sock c) = 0
    \<or> state (sock c) = STATE_DISCONNECTED \<and> reported (disconnects (taken c)) (sock c) = 1"
  using assms ready_idle by (cases "state (sock c)") (auto simp: ends_well_def threads_ok_def shared_ok_def)

subsection \<open>The state of all calls\<close>

lemma start_op_state:
  assumes "start_op q g r = Go p' h' s'" "\<And>t. r = Some t \<Longrightarrow> \<exists>op. same_base t (async_start op s)"
  shows "state s' = state s"
  using assms start_fields(1) [of s' _ s] by (auto simp: start_op_go)

lemma access_transition:
  assumes go: "access K spurious i p h s = Go p' h' s'" and p: "plausible p"
  shows "transition p (state s) (state s')"
proof (cases p)
  case (Check_send m)
  show ?thesis
  proof (cases "out_type m")
    case OUT_MESSAGE
    then have "v_asyncWrite K (out_message m) (out_binary m) s = Some s'"
      using go Check_send by (simp add: access_def in_check_def check_access_def start_op_go)
    from write_base [OF this] have "state s' = state s" by (simp add: gwsocket.truncate_def async_start_def)
    then show ?thesis by (simp add: transition_def)
  next
    case OUT_DISCONNECT
    then show ?thesis using go Check_send
      by (auto simp: access_def in_check_def check_access_def compare_exchange_weak_def transition_def split: if_splits)
  qed
next
  case Check_close
  then have "start_op Check_unlock h (v_asyncCloseSocket K s) = Go p' h' s'"
    using go by (simp add: access_def in_check_def check_access_def)
  then have "state s' = state s" by (rule start_op_state) (use close_base in blast)
  then show ?thesis by (simp add: transition_def)
next
  case (Handler op ec)
  then have h: "handler_access K spurious (Handler op ec) h s = Go p' h' s'"
    using go by (simp add: access_def in_check_def in_close_def in_handler_def)
  have "state s' = state s" if "\<And>a b. op \<noteq> HandshakeOp a b"
  proof (cases "ec_set ec")
    case True
    then show ?thesis using h that
      by (cases op) (auto simp: handler_access_defs split: if_splits)
  next
    case False
    show ?thesis
    proof (cases op)
      case (ResolveOp a b)
      show ?thesis
      proof (cases "if spurious then c_connectFails K s else None")
        case None
        then have "start_op Ready h (v_asyncConnect K True s) = Go p' h' s'"
          using h ResolveOp False by (simp add: handler_access_defs)
        then show ?thesis by (rule start_op_state) (use connect_ok in blast)
      next
        case (Some t)
        then have "c_connectFails K s = Some t" by (simp split: if_splits)
        from connect_fails [OF this] show ?thesis using h ResolveOp False Some same_baseD(5)
          by (auto simp: handler_access_defs)
      qed
    next
      case ConnectOp
      then have "start_op Ready h (v_asyncHandshake K (hostWithPort s) (path s) s) = Go p' h' s'"
        using h False by (simp add: handler_access_defs)
      then show ?thesis by (rule start_op_state) (use handshake_base in blast)
    next
      case (SslHandshakeOp a b)
      then have go': "c_sslHandshakeComplete K False ec a b s = Some s'"
        using h False by (simp add: handler_access_defs start_op_go)
      then have tls using no_tls [of False ec a b s] by auto
      from tls_done [OF this False go'] show ?thesis using start_fields(1) by blast
    next
      case (HandshakeOp a b)
      then show ?thesis using that by blast
    qed (use h False in \<open>auto simp: handler_access_defs put_in_def split: if_splits\<close>)
  qed
  moreover have "transition p (state s) (state s')" if "op = HandshakeOp a b" for a b
    using h that Handler
    by (auto simp: handler_access_defs compare_exchange_strong_def transition_def split: if_splits)
  ultimately show ?thesis by (cases op) (auto simp: transition_def)
next
  case Handshake_read
  then have "start_op Check_lock h (v_asyncRead K s) = Go p' h' s'"
    using go by (simp add: access_def in_check_def in_close_def in_handler_def handler_access_defs)
  then have "state s' = state s" by (rule start_op_state) (use read_base in blast)
  then show ?thesis by (simp add: transition_def)
next
  case Read_again
  then have "start_op Ready h (v_asyncRead K s) = Go p' h' s'"
    using go by (simp add: access_def in_check_def in_close_def in_handler_def handler_access_defs)
  then have "state s' = state s" by (rule start_op_state) (use read_base in blast)
  then show ?thesis by (simp add: transition_def)
next
  case (Close_socket r)
  then show ?thesis using go same_baseD [OF closeSocket_base [of s]]
    by (auto simp: access_def in_check_def in_close_def close_access_defs transition_def)
next
  case (Cas_exchange w e)
  then show ?thesis using go p
    by (auto simp: access_def in_check_def in_close_def close_access_defs compare_exchange_strong_def transition_def
        plausible_def split: if_splits)
next
  case (Request_exchange e)
  then show ?thesis using go p
    by (auto simp: access_def in_check_def in_close_def in_handler_def client_access_defs compare_exchange_strong_def
        transition_def plausible_def split: if_splits)
qed (use go in \<open>auto simp: access_def in_check_def in_close_def in_handler_def check_access_def close_access_defs
      handler_access_defs client_access_defs compare_exchange_strong_def lock_def put_in_def clearQueue_def async_start_def
      transition_def Let_def split: if_splits prod.splits list.splits\<close>)

lemma step_transition:
  assumes ok: "mutex_ok c" and step: "thread_step K e c = Some c'"
  shows "(case e of Run j _ \<Rightarrow> transition (pcs c j) (state (sock c)) (state (sock c')) | _ \<Rightarrow> state (sock c') = state (sock c))"
proof (cases e)
  case (Run j spurious)
  have "plausible (pcs c j)" using ok by (simp add: mutex_ok_def)
  then show ?thesis using step Run access_transition [of spurious j "pcs c j" "holder c" "sock c"]
    by (cases "access K spurious j (pcs c j) (holder c) (sock c)") (auto simp: transition_def [of _ x x for x])
next
  case (Peer_close reason)
  have "state (c_peerClosed K reason s) = state s" for s
    using same_baseD [OF peerClosed_base [of reason s]] by simp
  then show ?thesis using step Peer_close by (auto split: if_splits)
qed (use step in \<open>auto simp: Let_def bq_clear_def split: if_splits prod.splits\<close>)

subsection \<open>Every call ends\<close>

lemma step_rank:
  assumes ok: "mutex_ok c" and step: "thread_step K e c = Some c'" and quiet: "\<not> starts i e"
  shows "(case e of Run j spurious \<Rightarrow> (if j = i \<and> can_move K spurious i c then 1 else 0) | _ \<Rightarrow> 0)
    + rank (state (sock c')) (pcs c' i)
    \<le> rank (state (sock c)) (pcs c i)
      + (if state (sock c) = STATE_DISCONNECTED \<and> state (sock c') = STATE_CONNECTING then 16 else 0)"
proof (cases e)
  case (Run j spurious)
  have pl: "plausible (pcs c k)" for k using ok by (simp add: mutex_ok_def)
  show ?thesis
  proof (cases "access K spurious j (pcs c j) (holder c) (sock c)")
    case (Go p h s')
    have c': "c' = c\<lparr>sock := s', holder := h, pcs := (pcs c)(j := p)\<rparr>" using Run Go step by simp
    show ?thesis
    proof (cases "j = i")
      case True
      then show ?thesis using access_rank [OF Go pl] Run Go c' by (auto simp: can_move_def)
    next
      case False
      have "state s' = state (sock c) \<or> states_left (state s') < states_left (state (sock c))
          \<or> state (sock c) = STATE_DISCONNECTED \<and> state s' = STATE_CONNECTING"
        using transition_forward [OF access_transition [OF Go pl]] by auto
      then show ?thesis
        using rank_later [of "state s'" "state (sock c)" "pcs c i"] rank_reopened [OF pl [of i]] False Run c' by auto
    qed
  qed (use Run step in \<open>auto simp: can_move_def\<close>)
next
  case (Peer_close reason)
  have "state (c_peerClosed K reason s) = state s" for s
    using same_baseD [OF peerClosed_base [of reason s]] by simp
  then show ?thesis using step Peer_close by (auto split: if_splits)
qed (use step quiet in \<open>auto simp: Let_def bq_clear_def split: if_splits prod.splits\<close>)

lemma run_rank:
  assumes "mutex_ok c" "list_all (\<lambda>e. \<not> starts i e) es" "thread_run K es c = Some d"
  shows "moves K i es c + rank (state (sock d)) (pcs d i) \<le> rank (state (sock c)) (pcs c i) + 16 * reopens K es c"
  using assms
proof (induction es arbitrary: c)
  case (Cons e es)
  obtain c' where c': "thread_step K e c = Some c'" "thread_run K es c' = Some d"
    using Cons.prems(3) by (auto split: option.splits)
  have "moves K i es c' + rank (state (sock d)) (pcs d i) \<le> rank (state (sock c')) (pcs c' i) + 16 * reopens K es c'"
    by (rule Cons.IH) (use Cons.prems c' step_mutex_ok [OF Cons.prems(1) c'(1)] in simp_all)
  moreover have "(case e of Run j spurious \<Rightarrow> (if j = i \<and> can_move K spurious i c then 1 else 0) | _ \<Rightarrow> 0)
    + rank (state (sock c')) (pcs c' i) \<le> rank (state (sock c)) (pcs c i)
      + (if state (sock c) = STATE_DISCONNECTED \<and> state (sock c') = STATE_CONNECTING then 16 else 0)"
    by (rule step_rank [OF Cons.prems(1) c'(1)]) (use Cons.prems(2) in simp)
  ultimately show ?case using c' by (auto split: if_splits)
qed simp

lemma calls_end:
  assumes "thread_run K es (threads_start s) = Some c" "list_all (\<lambda>e. \<not> starts i e) es'" "thread_run K es' c = Some d"
  shows "moves K i es' c \<le> 43 + 16 * reopens K es' c"
    and "moves K i es' c = 43 + 16 * reopens K es' c \<Longrightarrow> pcs d i = Ready"
proof -
  have r: "moves K i es' c + rank (state (sock d)) (pcs d i) \<le> 43 + 16 * reopens K es' c"
    using run_rank [OF start_mutex_ok [OF assms(1)] assms(2,3)] rank_bound [of "state (sock c)" "pcs c i"] by simp
  then show "moves K i es' c \<le> 43 + 16 * reopens K es' c" by simp
  assume "moves K i es' c = 43 + 16 * reopens K es' c"
  then have "rank (state (sock d)) (pcs d i) = 0" using r by simp
  then show "pcs d i = Ready" by (cases "pcs d i") (auto simp: rank_def split: if_splits)
qed

lemma allowed_forward:
  assumes T: "thread_ok n i p h s" and go: "access K spurious i p h s = Go p' h' s'"
  shows "states_left (state s') \<le> states_left (state s)"
proof -
  have "plausible p" "\<And>clear. p \<noteq> Open_exchange clear"
    using thread_okD(4) [OF T] by (cases p; simp add: used_def plausible_def)+
  then show ?thesis using transition_forward [OF access_transition [OF go]] by auto
qed
subsection \<open>From the start\<close>

lemma run_ok_well:
  assumes "threads_ok c" "ends_well c" "list_all event_allowed es"
  shows "\<exists>c'. thread_run K es c = Some c' \<and> threads_ok c' \<and> ends_well c'"
  using assms
proof (induction es arbitrary: c)
  case (Cons e es)
  then obtain c' where "thread_step K e c = Some c'" "threads_ok c'" using thread_step_ok [of c e] by auto
  then show ?case using Cons step_ends_well [of c e c'] by auto
qed simp

lemma start_threads_ok:
  assumes "fresh s"
  shows "threads_ok (threads_start s)" "ends_well (threads_start s)"
proof -
  have s: "state (gw_open True s) = STATE_CONNECTING" "writeQueue (gw_open True s) = []"
      "pending (gw_open True s) = [(generation s + 1, ResolveOp (host s) (to_string (unat (port s))))]"
      "messageQueue (gw_open True s) = messageQueue s"
    using assms by (simp_all add: fresh_def gw_open_def compare_exchange_strong_def clearQueue_def async_start_def Let_def)
  have "shared_ok 0 (gw_open True s)"
    using s assms by (simp add: shared_ok_def fresh_def op_ok_def count_ops_def reported_def disconnects_def)
  moreover have "thread_ok 0 i Ready None (gw_open True s)" for i
    by (simp add: thread_ok_def counter_defs)
  moreover have "apart Ready Ready" by (simp add: apart_def counter_defs)
  ultimately show "threads_ok (threads_start s)" by (simp add: threads_ok_def threads_start_def disconnects_def)
  show "ends_well (threads_start s)" by (simp add: ends_well_def threads_start_def s(1))
qed

lemma start_run:
  assumes "fresh s" "list_all event_allowed es"
  shows "\<exists>c. thread_run K es (threads_start s) = Some c \<and> threads_ok c \<and> ends_well c"
  using run_ok_well start_threads_ok assms by blast

lemma threads_okD:
  assumes "threads_ok c"
  shows "count_ops is_write (sock c) \<le> 1" "critical (pcs c i) \<longleftrightarrow> holder c = Some i"
    and "reported (disconnects (taken c)) (sock c) \<le> 1"
  using assms by (simp_all add: threads_ok_def shared_ok_def thread_ok_def)

subsection \<open>What a returned \<open>closeNow\<close> means\<close>

lemma closing_access:
  assumes G: "shared_ok n s" and T: "thread_ok n i p h s" and c: "closing_ok p (state s)"
    and go: "access K spurious i p h s = Go p' h' s'" and u: "used p'"
  shows "closing_ok p' (state s')"
proof -
  have req: "state s \<noteq> STATE_DISCONNECT_REQUESTED" using G by (simp add: shared_ok_def)
  have later: "states_left (state s') \<le> states_left (state s)" using allowed_forward [OF T go] .
  show ?thesis
  proof (cases "states_left (state s) \<le> 1")
    case True
    then show ?thesis using later u by (auto intro: closing_ok_closed)
  next
    case alive: False
    show ?thesis
    proof (cases p)
      case (Cas_load w)
      then show ?thesis using go
        by (auto simp: access_def in_check_def in_close_def close_access_defs closing_ok_def split: if_splits)
    next
      case (Cas_exchange w e)
      show ?thesis
      proof (cases "state s = e")
        case True
        then show ?thesis using go Cas_exchange
          by (cases w) (auto simp: access_def in_check_def in_close_def close_access_defs closing_ok_def)
      next
        case False
        then have "states_left (state s) < states_left e"
          using c Cas_exchange by (cases "state s"; cases e) (simp_all add: closing_ok_def)
        then show ?thesis using go Cas_exchange False states_left_bound [of e]
          by (auto simp: access_def in_check_def in_close_def close_access_defs closing_ok_def)
      qed
    next
      case (Cas_connected w)
      then show ?thesis using go c req
        by (cases "state s") (auto simp: access_def in_check_def in_close_def close_access_defs closing_ok_def)
    qed (use c alive in \<open>simp_all add: closing_ok_def\<close>)
  qed
qed

lemma step_closing:
  assumes ok: "threads_ok c" and step: "thread_step K e c = Some c'" and e: "event_allowed e" and quiet: "\<not> starts i e"
    and c: "closing_ok (pcs c i) (state (sock c))"
  shows "closing_ok (pcs c' i) (state (sock c'))"
proof (cases e)
  case (Run j spurious)
  have G: "shared_ok (disconnects (taken c)) (sock c)"
    and T: "thread_ok (disconnects (taken c)) j (pcs c j) (holder c) (sock c)" using ok by (simp_all add: threads_ok_def)
  have ok': "threads_ok c'" using thread_step_ok [OF ok e] step by simp
  show ?thesis
  proof (cases "access K spurious j (pcs c j) (holder c) (sock c)")
    case (Go p h s')
    have c': "c' = c\<lparr>sock := s', holder := h, pcs := (pcs c)(j := p)\<rparr>" using step Run Go by simp
    show ?thesis
    proof (cases "j = i")
      case True
      have "thread_ok (disconnects (taken c')) i (pcs c' i) (holder c') (sock c')" using ok' by (simp add: threads_ok_def)
      then have "used p" using thread_okD(4) c' True by force
      then show ?thesis using closing_access [OF G T _ Go] c c' True by simp
    next
      case False
      then show ?thesis using closing_ok_later [OF c] allowed_forward [OF T Go] c' by auto
    qed
  qed (use step Run c in simp_all)
next
  case (Peer_close reason)
  have "state (c_peerClosed K reason s) = state s" for s
    using same_baseD [OF peerClosed_base [of reason s]] by simp
  then show ?thesis using step Peer_close c by (auto split: if_splits)
qed (use step quiet c in \<open>auto simp: Let_def bq_clear_def split: if_splits prod.splits\<close>)

lemma run_closing:
  assumes "threads_ok c" "list_all event_allowed es" "list_all (\<lambda>e. \<not> starts i e) es"
    "closing_ok (pcs c i) (state (sock c))" "thread_run K es c = Some d"
  shows "closing_ok (pcs d i) (state (sock d))"
  using assms
proof (induction es arbitrary: c)
  case (Cons e es)
  obtain c' where c': "thread_step K e c = Some c'" "threads_ok c'"
    using thread_step_ok [OF Cons.prems(1)] Cons.prems(2) by auto
  show ?case
    by (rule Cons.IH [OF c'(2)]) (use Cons.prems c' step_closing [OF Cons.prems(1) c'(1)] in simp_all)
qed simp

lemma closeNow_closes:
  assumes c: "threads_ok c" "ends_well c" "pcs c i = Ready" and i: "i \<noteq> 0"
    and es: "list_all event_allowed es" "list_all (\<lambda>e. \<not> starts i e) es"
    and run: "thread_run K (Begin i DoCloseNow # es) c = Some d" and ret: "pcs d i = Ready"
  shows "state (sock d) = STATE_DISCONNECTING \<or> state (sock d) = STATE_DISCONNECTED"
    and "(\<And>j. pcs d j = Ready) \<Longrightarrow>
      state (sock d) = STATE_DISCONNECTED \<and> reported (disconnects (taken d)) (sock d) = 1"
proof -
  let ?c = "c\<lparr>pcs := (pcs c)(i := Cas_load (Reason default_reason))\<rparr>"
  have "thread_step K (Begin i DoCloseNow) c = Some ?c" using c(3) i by simp
  then have run': "thread_run K es ?c = Some d" and ok: "threads_ok ?c"
    using run thread_step_ok [OF c(1), of "Begin i DoCloseNow"] by (auto simp: event_allowed_def)
  have well: "ends_well ?c" using step_ends_well [OF c(1,2), of "Begin i DoCloseNow" ?c] c(3) i by simp
  have "closing_ok (pcs d i) (state (sock d))"
    by (rule run_closing [OF ok es _ run']) (simp add: closing_ok_def)
  then have "states_left (state (sock d)) \<le> 1" using ret by (simp add: closing_ok_def)
  then show st: "state (sock d) = STATE_DISCONNECTING \<or> state (sock d) = STATE_DISCONNECTED"
    by (cases "state (sock d)") simp_all
  assume "\<And>j. pcs d j = Ready"
  moreover have "threads_ok d" "ends_well d" using run_ok_well [OF ok well es(1)] run' by auto
  ultimately show "state (sock d) = STATE_DISCONNECTED \<and> reported (disconnects (taken d)) (sock d) = 1"
    using quiet_end [of d] st by auto
qed

end

subsection \<open>A thread that is not interrupted\<close>

fun alone ::
  "('a gwsocket_scheme, 'z) socket_class_scheme \<Rightarrow> bool \<Rightarrow> nat \<Rightarrow> nat \<Rightarrow> pc \<Rightarrow> nat option \<Rightarrow> 'a gwsocket_scheme \<Rightarrow>
   'a gwsocket_scheme access" where
  \<comment> \<open>at most \<open>n\<close> accesses of thread \<open>i\<close>, until it has nothing to do or waits\<close>
  "alone K spurious i 0 p h s = Go p h s"
| "alone K spurious i (Suc n) p h s =
     (case access K spurious i p h s of Wait \<Rightarrow> Go p h s | Crash \<Rightarrow> Crash | Go p' h' s' \<Rightarrow> alone K spurious i n p' h' s')"

fun result :: "'s option \<Rightarrow> 's access" where
  "result None = Crash"
| "result (Some s) = Go Ready None s"

fun call_seq ::
  "('a gwsocket_scheme, 'z) socket_class_scheme \<Rightarrow> bool \<Rightarrow> call \<Rightarrow> 'a gwsocket_scheme \<Rightarrow> 'a gwsocket_scheme option" where
  "call_seq K spurious (DoWrite m b) s = gw_write K spurious m b s"
| "call_seq K spurious DoCloseNow s = Some (snd (closeNow (v_closeSocket K) default_reason s))"
| "call_seq K spurious DoClearQueue s = Some (clearQueue s)"
| "call_seq K spurious DoClose s = map_option snd (gw_close K spurious s)"
| "call_seq K spurious (DoOpen clear) s = Some (gw_open clear s)"

lemma alone_numeral:
  "alone K spurious i (numeral k) p h s =
     (case access K spurious i p h s of Wait \<Rightarrow> Go p h s | Crash \<Rightarrow> Crash
      | Go p' h' s' \<Rightarrow> alone K spurious i (pred_numeral k) p' h' s')"
  by (simp add: numeral_eq_Suc)

lemma alone_ready: "alone K spurious i n Ready h s = Go Ready h s"
  by (cases n) (simp_all add: access_def in_check_def in_close_def in_handler_def client_access_defs)

lemmas in_defs = in_check_def in_close_def in_handler_def

lemma alone_doClose:
  assumes "7 \<le> n"
  shows "alone K spurious i n (Close_generation r) None s = Go Ready None (doClose (v_closeSocket K) r s)"
proof -
  obtain m where "n = 7 + m" using assms le_Suc_ex by blast
  then have "n = Suc (Suc (Suc (Suc (Suc (Suc (Suc m))))))" by simp
  then show ?thesis by (simp add: access_def in_defs close_access_defs lock_def alone_ready doClose_def Let_def)
qed

lemma alone_closeNow:
  assumes "9 \<le> n"
  shows "alone K spurious i n (Cas_load (Reason r)) None s = Go Ready None (snd (closeNow (v_closeSocket K) r s))"
proof -
  obtain m where "n = Suc (Suc m)" "7 \<le> m" using assms le_Suc_ex [of 9 n] by fastforce
  then show ?thesis
    by (auto simp: access_def in_defs close_access_defs client_access_defs alone_ready alone_doClose closeNow_def
        set_disconnecting_alone compare_exchange_strong_def)
qed

lemma alone_errorConnection:
  assumes "10 \<le> n"
  shows "alone K spurious i n (Cas_load (Error r)) None s = Go Ready None (snd (errorConnection (v_closeSocket K) r s))"
proof -
  obtain m where "n = Suc (Suc (Suc m))" "7 \<le> m" using assms le_Suc_ex [of 10 n] by fastforce
  then show ?thesis
    by (auto simp: access_def in_defs close_access_defs client_access_defs alone_ready alone_doClose errorConnection_def
        set_disconnecting_alone compare_exchange_strong_def put_in_def)
qed

lemmas alone_close = alone_doClose alone_closeNow alone_errorConnection

lemma alone_unlock:
  assumes "2 \<le> n"
  shows "alone K spurious i n Check_unlock h s = Go Ready None s"
    and "alone K spurious i n Check_close h s = result (v_asyncCloseSocket K s)"
proof -
  obtain m where "n = Suc (Suc m)" using assms le_Suc_ex [of 2 n] by fastforce
  then show "alone K spurious i n Check_unlock h s = Go Ready None s"
    and "alone K spurious i n Check_close h s = result (v_asyncCloseSocket K s)"
    by (cases "v_asyncCloseSocket K s"; simp add: access_def in_defs check_access_def client_access_defs start_op_def
        alone_ready)+
qed

lemma alone_send_close:
  assumes "11 \<le> n"
  shows "alone K spurious i n Check_unlock_close h s = Go Ready None (snd (closeNow (v_closeSocket K) default_reason s))"
proof -
  obtain m where "n = Suc m" "9 \<le> m" using assms le_Suc_ex [of 11 n] by fastforce
  then show ?thesis by (simp add: access_def in_defs check_access_def alone_closeNow)
qed

lemma alone_checkWriting:
  assumes "20 \<le> n"
  shows "alone K spurious i n Check_lock None s = result (checkWriting K spurious s)"
proof -
  obtain m where n: "n = Suc (Suc (Suc (Suc (Suc (Suc (Suc (Suc m)))))))" "12 \<le> m"
    using assms le_Suc_ex [of 20 n] by fastforce
  show ?thesis
  proof (cases "(state s = STATE_CONNECTED \<or> state s = STATE_DISCONNECT_REQUESTED) \<and> \<not> writing s \<and> writeQueue s \<noteq> []")
    case False
    then show ?thesis
      by (auto simp: n(1) access_def in_defs check_access_def client_access_defs lock_def alone_ready checkWriting_def
          split: list.splits)
  next
    case True
    then obtain m' rest where q: "writeQueue s = m' # rest" by (cases "writeQueue s") auto
    show ?thesis
    proof (cases "out_type m'")
      case OUT_MESSAGE
      then show ?thesis using True q n(2)
        by (cases "v_asyncWrite K (out_message m') (out_binary m') (s\<lparr>writing := True, writeQueue := rest\<rparr>)")
           (auto simp: n(1) access_def in_defs check_access_def client_access_defs lock_def alone_ready checkWriting_def
             start_op_def Let_def alone_unlock)
    next
      case OUT_DISCONNECT
      let ?s = "s\<lparr>writing := True, writeQueue := rest, state := STATE_DISCONNECTING\<rparr>"
      show ?thesis using True q OUT_DISCONNECT n(2)
        by (cases "v_asyncCloseSocket K ?s")
           (auto simp: n(1) access_def in_defs check_access_def lock_def alone_send_close alone_closeNow alone_unlock checkWriting_def
             Let_def compare_exchange_weak_def)
    qed
  qed
qed

lemma alone_enter:
  assumes "20 \<le> n"
  shows "alone K spurious i (Suc (Suc n)) (Write_lock m b) None s = result (gw_write K spurious m b s)"
    and "alone K spurious i (Suc (Suc (Suc (Suc n)))) Request_load None s = result (map_option snd (gw_close K spurious s))"
proof -
  show "alone K spurious i (Suc (Suc n)) (Write_lock m b) None s = result (gw_write K spurious m b s)"
    using assms by (simp add: access_def in_defs client_access_defs lock_def alone_checkWriting gw_write_def Let_def)
  show "alone K spurious i (Suc (Suc (Suc (Suc n)))) Request_load None s = result (map_option snd (gw_close K spurious s))"
    using assms by (auto simp: access_def in_defs client_access_defs lock_def alone_ready alone_checkWriting
        gw_close_def Let_def compare_exchange_strong_def option.map_comp o_def option.map_ident)
qed

lemma alone_call: "alone K spurious i 43 (entry call) None s = result (call_seq K spurious call s)"
proof (cases call)
  case (DoWrite m b)
  then show ?thesis using alone_enter(1) [of 41] by simp
next
  case DoClose
  then show ?thesis using alone_enter(2) [of 39] by simp
next
  case (DoOpen clear)
  then show ?thesis
    by (cases clear) (auto simp: alone_numeral access_def in_defs client_access_defs lock_def alone_ready gw_open_def
        Let_def compare_exchange_strong_def clearQueue_def)
next
  case DoCloseNow
  then show ?thesis using alone_closeNow [of 43] by simp
qed (simp add: alone_numeral access_def in_defs client_access_defs lock_def alone_ready)

lemma alone_resolved:
  assumes fails: "v_asyncConnect K False s = (case c_connectFails K s of None \<Rightarrow> v_asyncConnect K True s
      | Some t \<Rightarrow> Some (snd (errorConnection (v_closeSocket K) ''Error setting SSL parameters'' t)))"
    and n: "20 \<le> n"
  shows "alone K (\<not> params_ok) i (Suc n) (Handler (ResolveOp h p) ec) None s =
    result (run_handler K spurious params_ok ec (ResolveOp h p) s)"
proof -
  have err: "alone K b i n (Cas_load (Error msg)) None t = Go Ready None (snd (errorConnection (v_closeSocket K) msg t))"
    for b msg t using n by (simp add: alone_errorConnection)
  have ready: "alone K b i n Ready None t = Go Ready None t" for b t by (rule alone_ready)
  have first: "access K b i (Handler (ResolveOp h p) ec) None s = resolved_access K b ec None s" for b
    by (simp add: access_def in_defs handler_access_def)
  show ?thesis
    using fails err ready
    by (cases params_ok; cases "c_connectFails K s"; cases "v_asyncConnect K True s")
       (auto simp: first resolved_access_def failed_def run_handler_def hostResolvedStep_def start_op_def)
qed

lemma alone_handler:
  assumes tls_call: "is_tls op \<Longrightarrow> c_sslHandshakeComplete K spurious ec = (if ec_set ec then
      (\<lambda>h p. handshakeCompleted K spurious ec) else c_sslHandshakeComplete K False ec)"
    and fails: "v_asyncConnect K False s = (case c_connectFails K s of None \<Rightarrow> v_asyncConnect K True s
      | Some t \<Rightarrow> Some (snd (errorConnection (v_closeSocket K) ''Error setting SSL parameters'' t)))"
  shows "alone K (if is_resolve op then \<not> params_ok else spurious) i 43 (Guard g op ec) None s =
    result (guardGeneration g (run_handler K spurious params_ok ec op) s)"
proof -
  let ?b = "if is_resolve op then \<not> params_ok else spurious"
  obtain n where n: "(43::nat) = Suc (Suc (Suc (Suc n)))" "20 \<le> n" using le_Suc_ex [of 24 "43::nat"] by fastforce
  have step: "alone K spurious i (Suc m) (Handler op ec) None s = (case handler_access K spurious (Handler op ec) None s of
      Wait \<Rightarrow> Go (Handler op ec) None s | Crash \<Rightarrow> Crash | Go p' h' s' \<Rightarrow> alone K spurious i m p' h' s')" for m
    by (simp add: access_def in_defs)
  have bad: "alone K spurious i (Suc (Suc n)) (failed what ec) None s
      = Go Ready None (snd (errorConnection (v_closeSocket K) (what @ ec_message ec) s))" for what
    using n(2) by (simp add: failed_def alone_errorConnection del: alone.simps)
  have close: "alone K spurious i (Suc (Suc n)) (Cas_load (Reason r)) None t
      = Go Ready None (snd (closeNow (v_closeSocket K) r t))" for r t
    using n(2) by (simp add: alone_closeNow del: alone.simps)
  have put: "alone K spurious i (Suc (Suc n)) Handshake_put None t
      = result (v_asyncRead K (put_in IN_CONNECTED ''Connected'' t) \<bind> checkWriting K spurious)" for t
    using n(2) by (cases "v_asyncRead K (put_in IN_CONNECTED ''Connected'' t)")
      (simp_all add: access_def in_defs handler_access_defs start_op_def alone_checkWriting)
  have buffer: "alone K spurious i (Suc (Suc n)) Read_buffer None t = result (v_asyncRead K (t\<lparr>readBuffer := []\<rparr>))" for t
    by (cases "v_asyncRead K (t\<lparr>readBuffer := []\<rparr>)")
       (simp_all add: access_def in_defs handler_access_defs start_op_def alone_ready)
  have check: "alone K spurious i (Suc (Suc n)) Check_lock None t = result (checkWriting K spurious t)" for t
    using n(2) by (simp add: alone_checkWriting del: alone.simps)
  have do_close: "alone K spurious i (Suc (Suc n)) (Close_generation r) None t
      = Go Ready None (doClose (v_closeSocket K) r t)" for r t
    using n(2) by (simp add: alone_doClose del: alone.simps)
  have start: "(case start_op Ready None r of Wait \<Rightarrow> A | Crash \<Rightarrow> Crash
      | Go p' h' s' \<Rightarrow> alone K spurious i (Suc (Suc n)) p' h' s') = result r" for r A
    by (cases r) (simp_all add: start_op_def alone_ready del: alone.simps)
  show ?thesis
  proof (cases "generation s = g")
    case True
    have "alone K ?b i (Suc (Suc (Suc n))) (Handler op ec) None s = result (run_handler K spurious params_ok ec op s)"
    proof (cases "is_resolve op")
      case True
      then obtain x y where "op = ResolveOp x y" by (cases op) simp_all
      then show ?thesis using alone_resolved [OF fails, of "Suc (Suc n)"] n(2) by (simp del: alone.simps)
    next
      case other: False
      have "alone K spurious i (Suc (Suc (Suc n))) (Handler op ec) None s = result (run_handler K spurious params_ok ec op s)"
      proof (cases op)
        case (SslHandshakeOp x y)
        then show ?thesis using tls_call bad [of "''Connection failed: ''"] unfolding step
          by (auto simp: handler_access_defs run_handler_def handshakeCompleted_def start simp del: alone.simps)
      qed (use other in simp, unfold step, auto simp: handler_access_defs run_handler_def handshakeCompleted_def
          socketConnected_def onRead_def onWrite_def onDisconnected_def compare_exchange_strong_def Let_def
          start bad close put buffer check do_close bad [of "[]", simplified] simp del: alone.simps)
      with other show ?thesis by simp
    qed
    then show ?thesis using True
      by (simp add: n(1) access_def in_defs handler_access_defs guardGeneration_def)
  next
    case False
    then show ?thesis
      by (simp add: n(1) access_def in_defs handler_access_defs guardGeneration_def client_access_defs alone_ready)
  qed
qed

subsection \<open>Both kinds of sockets\<close>

interpretation plain_threads: threaded WebSocket_class ws_present False
  by unfold_locales (auto simp: plain_defs Let_def gwsocket.truncate_def async_start_def split: option.splits)

interpretation tls_threads: threaded SSLWebSocket_class sws_present True
  by unfold_locales (auto simp: tls_defs ssl_prepareConnect_def Let_def gwsocket.truncate_def async_start_def
      split: option.splits)

lemma connect_fails_alone:
  "v_asyncConnect WebSocket_class False s = (case c_connectFails WebSocket_class s of
      None \<Rightarrow> v_asyncConnect WebSocket_class True s
    | Some t \<Rightarrow> Some (snd (errorConnection (v_closeSocket WebSocket_class) ''Error setting SSL parameters'' t)))"
  "v_asyncConnect SSLWebSocket_class False t = (case c_connectFails SSLWebSocket_class t of
      None \<Rightarrow> v_asyncConnect SSLWebSocket_class True t
    | Some t \<Rightarrow> Some (snd (errorConnection (v_closeSocket SSLWebSocket_class) ''Error setting SSL parameters'' t)))"
  by (simp_all add: ws_asyncConnect_def ssl_asyncConnect_def ssl_prepareConnect_def ssl_resetWS_def Let_def)

lemma plain_tls_call: "is_tls op \<Longrightarrow> c_sslHandshakeComplete SSLWebSocket_class spurious ec = (if ec_set ec then
    (\<lambda>h p. handshakeCompleted SSLWebSocket_class spurious ec) else c_sslHandshakeComplete SSLWebSocket_class False ec)"
  by (auto simp: fun_eq_iff sslHandshakeComplete_def handshakeCompleted_class)

lemma new_fresh: "fresh (new_websocket h p pt)" "fresh (new_sslwebsocket h p pt)"
  by (simp_all add: fresh_def new_websocket_def new_sslwebsocket_def new_gwsocket_def gwsocket.extend_def empty_queue_def)

definition ok_code :: error_code where
  "ok_code = \<lparr>ec_value = Success, ec_message = []\<rparr>"

definition connects :: "thread_event list" where
  \<comment> \<open>name resolved, connected\<close>
  "connects = [Complete 0 ok_code, Run 0 False, Run 0 False, Complete 0 ok_code, Run 0 False, Run 0 False]"

definition two_threads :: "thread_event list" where
  \<comment> \<open>the handshake completes while another thread writes, and a third closes\<close>
  "two_threads = connects @ [Begin 2 (DoWrite ''PUFFS'' False), Run 2 False, Complete 0 ok_code, Run 0 False,
     Run 2 False, Run 0 False, Run 0 False, Begin 1 DoCloseNow, Run 1 False, Run 0 False, Run 1 False,
     Run 0 False, Run 1 False]"

lemma thread_run_append:
  "thread_run K (es @ fs) c = (case thread_run K es c of None \<Rightarrow> None | Some c' \<Rightarrow> thread_run K fs c')"
  by (induction es arbitrary: c) (simp_all split: option.splits)

lemma thread_run_replicate:
  "thread_run K (replicate (numeral k) e) c =
     (case thread_step K e c of None \<Rightarrow> None | Some c' \<Rightarrow> thread_run K (replicate (pred_numeral k) e) c')"
  by (simp add: numeral_eq_Suc)

lemmas thread_eval = thread_run_append thread_run_replicate threads_start_def gw_open_def compare_exchange_strong_def
  clearQueue_def async_start_def new_websocket_def new_sslwebsocket_def new_gwsocket_def gwsocket.extend_def access_def in_defs
  handler_access_defs check_access_def close_access_defs client_access_defs lock_def ok_code_def ec_set_def start_op_def
  put_in_def plain_defs tls_defs fresh_stream_def put_def empty_queue_def current_ops_def count_ops_def

text \<open>
  C3. However the accesses of any number of threads that write, clear the queue and close
  at once interleave with the handlers of the io_context and with the network, no step
  uses a null stream or the front of an empty queue, never more than one write is
  outstanding, and never two threads are inside the mutex.
\<close>

theorem threads_safe:
  assumes "list_all event_allowed es" "fresh s" "fresh t"
  shows "(\<exists>c. thread_run WebSocket_class es (threads_start (s :: websocket)) = Some c \<and> count_ops is_write (sock c) \<le> 1
      \<and> (\<forall>i j. critical (pcs c i) \<and> critical (pcs c j) \<longrightarrow> i = j))
    \<and> (\<exists>c. thread_run SSLWebSocket_class es (threads_start (t :: sslwebsocket)) = Some c
      \<and> count_ops is_write (sock c) \<le> 1 \<and> (\<forall>i j. critical (pcs c i) \<and> critical (pcs c j) \<longrightarrow> i = j))"
  using plain_threads.start_run [OF assms(2,1)] tls_threads.start_run [OF assms(3,1)]
  by (metis option.inject plain_threads.threads_okD tls_threads.threads_okD)

lemma two_threads_allowed: "list_all event_allowed two_threads"
  by (simp add: two_threads_def connects_def event_allowed_def)

theorem threads_safe_witness:
  "\<exists>c. thread_run WebSocket_class two_threads (threads_start (new_websocket ''h'' 80 ''/'')) = Some c
    \<and> count_ops is_write (sock c) \<le> 1 \<and> (\<forall>i j. critical (pcs c i) \<and> critical (pcs c j) \<longrightarrow> i = j)"
  using threads_safe [OF two_threads_allowed new_fresh(1) new_fresh(2)] by blast

text \<open>
  C9. Under the same interleavings a TLS connection is reported as disconnected at most
  once, even when several threads close it and operations fail at the same time; and when
  no thread is inside a member function the socket is connecting or connected and not yet
  reported, or disconnected and reported exactly once: no thread leaves it half closed.
\<close>

theorem threads_disconnect_once:
  assumes "list_all event_allowed es" "fresh s" "thread_run SSLWebSocket_class es (threads_start s) = Some c"
  shows "reported (disconnects (taken c)) (sock c) \<le> 1
    \<and> ((\<forall>i. pcs c i = Ready) \<longrightarrow>
        (state (sock c) = STATE_CONNECTING \<or> state (sock c) = STATE_CONNECTED)
          \<and> reported (disconnects (taken c)) (sock c) = 0
        \<or> state (sock c) = STATE_DISCONNECTED \<and> reported (disconnects (taken c)) (sock c) = 1)"
proof -
  have ok: "tls_threads.threads_ok c" "tls_threads.ends_well c"
    using tls_threads.start_run [OF assms(2,1)] assms(3) by auto
  then show ?thesis
    using tls_threads.quiet_end [OF ok(2,1)] tls_threads.threads_okD(3) [OF ok(1)] by blast
qed

definition closed_twice :: "thread_event list" where
  \<comment> \<open>two threads close at once\<close>
  "closed_twice = [Begin 1 DoCloseNow, Begin 2 DoCloseNow, Run 1 False, Run 2 False, Run 2 False, Run 1 False,
     Run 1 False, Run 1 False] @ replicate 7 (Run 2 False)"

theorem threads_disconnect_once_witness:
  "\<exists>c. thread_run SSLWebSocket_class closed_twice (threads_start (new_sslwebsocket ''h'' 443 ''/'')) = Some c
    \<and> reported (disconnects (taken c)) (sock c) \<le> 1"
proof -
  have al: "list_all event_allowed closed_twice" by (simp add: closed_twice_def event_allowed_def list_all_iff)
  obtain c where c: "thread_run SSLWebSocket_class closed_twice (threads_start (new_sslwebsocket ''h'' 443 ''/'')) = Some c"
    using tls_threads.start_run [OF new_fresh(2) al] by blast
  with threads_disconnect_once [OF al new_fresh(2) c] show ?thesis by blast
qed

text \<open>
  C17. The threads never block each other, whatever they call, close and open included,
  and whatever the virtual functions do: a thread is between lock and unlock exactly when
  it holds the mutex, so that there is at most one; the thread that holds it can always
  make its next access, and when none does, every thread that is inside a member function
  or handler can. No thread ever locks the mutex while it holds it.
\<close>

theorem threads_never_stuck:
  assumes "thread_run K es (threads_start s) = Some c"
  shows "(critical (pcs c i) \<longleftrightarrow> holder c = Some i)
    \<and> (pcs c i \<noteq> Ready \<and> holder c = None \<longrightarrow> can_move K spurious i c)
    \<and> (\<forall>j. holder c = Some j \<longrightarrow> pcs c j \<noteq> Ready \<and> can_move K spurious j c)"
proof -
  have ok: "mutex_ok c" by (rule start_mutex_ok [OF assms])
  then have "critical (pcs c i) \<longleftrightarrow> holder c = Some i" by (simp add: mutex_ok_def)
  then show ?thesis using mutex_moves [OF ok] by metis
qed

definition waiting :: "thread_event list" where
  \<comment> \<open>thread 2 waits to write while thread 1 closes gracefully\<close>
  "waiting = connects @ [Complete 0 ok_code] @ replicate 9 (Run 0 False)
     @ [Begin 1 DoClose, Begin 2 (DoWrite ''a'' False)] @ replicate 3 (Run 1 False)"

theorem threads_never_stuck_witness:
  "\<exists>c. thread_run WebSocket_class waiting (threads_start (new_websocket ''h'' 80 ''/'')) = Some c
    \<and> pcs c 2 = Write_lock ''a'' False \<and> \<not> can_move WebSocket_class False 2 c
    \<and> holder c = Some 1 \<and> can_move WebSocket_class False 1 c"
proof -
  obtain c where c: "thread_run WebSocket_class waiting (threads_start (new_websocket ''h'' 80 ''/'')) = Some c"
      "pcs c 2 = Write_lock ''a'' False" "holder c = Some 1"
    by (simp add: waiting_def connects_def thread_eval Let_def)
  moreover have "can_move WebSocket_class False 1 c" using threads_never_stuck [OF c(1)] c(3) by blast
  ultimately show ?thesis by (auto simp: can_move_def access_def in_defs client_access_defs lock_def)
qed

text \<open>
  C10. Every call and every handler ends, on plain and TLS sockets, whatever else the
  threads call, close and open included: although setDisconnectingCAS tries again when its
  exchange fails, a thread makes at most 43 accesses before it is through, and 16 more for
  each time the socket is opened meanwhile, because otherwise the state only moves on.
\<close>

theorem thread_calls_end:
  assumes "list_all (\<lambda>e. \<not> starts i e) es'"
  shows "(\<forall>c d. thread_run WebSocket_class es (threads_start s) = Some c \<and> thread_run WebSocket_class es' c = Some d \<longrightarrow>
      moves WebSocket_class i es' c \<le> 43 + 16 * reopens WebSocket_class es' c
      \<and> (moves WebSocket_class i es' c = 43 + 16 * reopens WebSocket_class es' c \<longrightarrow> pcs d i = Ready))
    \<and> (\<forall>c d. thread_run SSLWebSocket_class es (threads_start t) = Some c \<and> thread_run SSLWebSocket_class es' c = Some d \<longrightarrow>
      moves SSLWebSocket_class i es' c \<le> 43 + 16 * reopens SSLWebSocket_class es' c
      \<and> (moves SSLWebSocket_class i es' c = 43 + 16 * reopens SSLWebSocket_class es' c \<longrightarrow> pcs d i = Ready))"
  using plain_threads.calls_end [OF _ assms] tls_threads.calls_end [OF _ assms] by metis

definition closing :: "thread_event list" where
  \<comment> \<open>thread 1 is in the loop of \<open>closeNow\<close>, which thread 2 makes it repeat\<close>
  "closing = [Run 1 False, Begin 2 DoClose, Run 2 False, Run 2 False] @ replicate 3 (Run 1 False)"

theorem thread_calls_end_witness:
  "\<exists>c d. thread_run WebSocket_class [Begin 1 DoCloseNow] (threads_start (new_websocket ''h'' 80 ''/'')) = Some c
    \<and> thread_run WebSocket_class closing c = Some d \<and> moves WebSocket_class 1 closing c \<le> 43
    \<and> state (sock d) = STATE_DISCONNECT_REQUESTED \<and> pcs d 1 = Ready"
proof -
  let ?s = "new_websocket ''h'' 80 ''/''"
  let ?c = "(threads_start ?s)\<lparr>pcs := (\<lambda>_. Ready)(1 := Cas_load (Reason default_reason))\<rparr>"
  have c: "thread_run WebSocket_class [Begin 1 DoCloseNow] (threads_start ?s) = Some ?c"
    by (simp add: threads_start_def)
  moreover obtain d where "thread_run WebSocket_class closing ?c = Some d" "reopens WebSocket_class closing ?c = 0"
      "state (sock d) = STATE_DISCONNECT_REQUESTED" "pcs d 1 = Ready"
    by (simp add: closing_def thread_eval Let_def numeral_eq_Suc)
  moreover have "list_all (\<lambda>e. \<not> starts 1 e) closing" by (simp add: closing_def list_all_iff)
  ultimately show ?thesis using thread_calls_end [of 1 closing "[Begin 1 DoCloseNow]" ?s] by fastforce
qed

text \<open>
  C20. Under every interleaving of any calls, close and open included, on plain and TLS
  sockets, the state changes only in these ways: open's exchange takes DISCONNECTED to
  CONNECTING, the handler of the WebSocket handshake CONNECTING to CONNECTED, close()
  CONNECTING or CONNECTED to DISCONNECT_REQUESTED, the sending of the close request
  DISCONNECT_REQUESTED to DISCONNECTING, the exchange of closeNow and errorConnection
  anything but DISCONNECTED to DISCONNECTING, and only doClose stores DISCONNECTED. The
  network, the other handlers and the reader of the event queue leave it alone.
\<close>

theorem thread_state_changes:
  shows "(\<forall>c c'. thread_run WebSocket_class es (threads_start s) = Some c \<and> thread_step WebSocket_class e c = Some c' \<longrightarrow>
      (case e of Run i _ \<Rightarrow> transition (pcs c i) (state (sock c)) (state (sock c')) | _ \<Rightarrow> state (sock c') = state (sock c)))
    \<and> (\<forall>c c'. thread_run SSLWebSocket_class es (threads_start t) = Some c \<and> thread_step SSLWebSocket_class e c = Some c' \<longrightarrow>
      (case e of Run i _ \<Rightarrow> transition (pcs c i) (state (sock c)) (state (sock c')) | _ \<Rightarrow> state (sock c') = state (sock c)))"
  using plain_threads.step_transition [OF start_mutex_ok] tls_threads.step_transition [OF start_mutex_ok] by blast

theorem thread_state_changes_witness:
  "\<exists>c c'. thread_run WebSocket_class [Begin 1 DoClose, Run 1 False] (threads_start (new_websocket ''h'' 80 ''/'')) = Some c
    \<and> thread_step WebSocket_class (Run 1 False) c = Some c'
    \<and> transition (Request_exchange STATE_CONNECTING) STATE_CONNECTING (state (sock c'))
    \<and> state (sock c') = STATE_DISCONNECT_REQUESTED"
proof -
  obtain c c' where c: "thread_run WebSocket_class [Begin 1 DoClose, Run 1 False] (threads_start (new_websocket ''h'' 80 ''/'')) = Some c"
      "thread_step WebSocket_class (Run 1 False) c = Some c'" "pcs c 1 = Request_exchange STATE_CONNECTING"
      "state (sock c) = STATE_CONNECTING" "state (sock c') = STATE_DISCONNECT_REQUESTED"
    by (simp add: thread_eval Let_def)
  with thread_state_changes show ?thesis by fastforce
qed

text \<open>
  C16. A thread that no other interrupts does what the member functions and handlers do as
  they are written, failures of the OpenSSL calls in asyncConnect, spurious failures of
  the weak exchange and errors of the certificate callback included: cutting them into
  accesses changes nothing but that others may come between.
\<close>

theorem uninterrupted_thread:
  "alone K spurious i 43 (entry call) None s = result (call_seq K spurious call s)
   \<and> alone SSLWebSocket_class (if is_resolve op then \<not> params_ok else spurious) i 43 (Guard g op ec) None t =
       result (guardGeneration g (run_handler SSLWebSocket_class spurious params_ok ec op) t)
   \<and> (is_tls op
      \<or> alone WebSocket_class (if is_resolve op then \<not> params_ok else spurious) i 43 (Guard g op ec) None u =
          result (guardGeneration g (run_handler WebSocket_class spurious params_ok ec op) u))
   \<and> alone SSLWebSocket_class spurious i 43 (case verify_message err of None \<Rightarrow> Ready | Some msg \<Rightarrow> Cas_load (Error msg)) None t =
       Go Ready None (snd (verifyCertificate err t))"
proof (intro conjI)
  show "is_tls op \<or> alone WebSocket_class (if is_resolve op then \<not> params_ok else spurious) i 43 (Guard g op ec) None u =
      result (guardGeneration g (run_handler WebSocket_class spurious params_ok ec op) u)"
    using alone_handler [OF _ connect_fails_alone(1)] by blast
  show "alone SSLWebSocket_class spurious i 43 (case verify_message err of None \<Rightarrow> Ready | Some msg \<Rightarrow> Cas_load (Error msg)) None t =
      Go Ready None (snd (verifyCertificate err t))"
    by (cases "verify_message err") (simp_all add: verifyCertificate_def alone_ready alone_errorConnection)
qed (rule alone_call, rule alone_handler [OF plain_tls_call connect_fails_alone(2)])

text \<open>
  C8. Among threads that write, clear the queue and call closeNow, beside the handlers and
  the network, on plain and TLS sockets: when closeNow returns the socket is disconnected
  or another thread is closing it, also when the connection was established meanwhile; and
  once all threads are through it is disconnected and this was reported exactly once. (A
  close() on another thread is left out: with it closeNow may return while the state is
  DISCONNECT_REQUESTED.)
\<close>

theorem closeNow_under_threads:
  assumes "list_all event_allowed es" "list_all event_allowed es'" "list_all (\<lambda>e. \<not> starts i e) es'" "i \<noteq> 0"
    and "fresh s" "fresh t"
  shows "(\<forall>c d. thread_run WebSocket_class es (threads_start (s :: websocket)) = Some c \<and> pcs c i = Ready
      \<and> thread_run WebSocket_class (Begin i DoCloseNow # es') c = Some d \<and> pcs d i = Ready \<longrightarrow>
      (state (sock d) = STATE_DISCONNECTING \<or> state (sock d) = STATE_DISCONNECTED)
      \<and> ((\<forall>j. pcs d j = Ready) \<longrightarrow>
          state (sock d) = STATE_DISCONNECTED \<and> reported (disconnects (taken d)) (sock d) = 1))
    \<and> (\<forall>c d. thread_run SSLWebSocket_class es (threads_start (t :: sslwebsocket)) = Some c \<and> pcs c i = Ready
      \<and> thread_run SSLWebSocket_class (Begin i DoCloseNow # es') c = Some d \<and> pcs d i = Ready \<longrightarrow>
      (state (sock d) = STATE_DISCONNECTING \<or> state (sock d) = STATE_DISCONNECTED)
      \<and> ((\<forall>j. pcs d j = Ready) \<longrightarrow>
          state (sock d) = STATE_DISCONNECTED \<and> reported (disconnects (taken d)) (sock d) = 1))"
proof (intro conjI allI impI)
  fix c d
  assume run: "thread_run WebSocket_class es (threads_start s) = Some c \<and> pcs c i = Ready
      \<and> thread_run WebSocket_class (Begin i DoCloseNow # es') c = Some d \<and> pcs d i = Ready"
  then have "plain_threads.threads_ok c" "plain_threads.ends_well c"
    using plain_threads.start_run [OF assms(5,1)] by auto
  from plain_threads.closeNow_closes [OF this _ assms(4,2,3)] run
  show "state (sock d) = STATE_DISCONNECTING \<or> state (sock d) = STATE_DISCONNECTED"
    and "\<forall>j. pcs d j = Ready \<Longrightarrow> state (sock d) = STATE_DISCONNECTED"
    and "\<forall>j. pcs d j = Ready \<Longrightarrow> reported (disconnects (taken d)) (sock d) = 1" by blast+
next
  fix c d
  assume run: "thread_run SSLWebSocket_class es (threads_start t) = Some c \<and> pcs c i = Ready
      \<and> thread_run SSLWebSocket_class (Begin i DoCloseNow # es') c = Some d \<and> pcs d i = Ready"
  then have "tls_threads.threads_ok c" "tls_threads.ends_well c"
    using tls_threads.start_run [OF assms(6,1)] by auto
  from tls_threads.closeNow_closes [OF this _ assms(4,2,3)] run
  show "state (sock d) = STATE_DISCONNECTING \<or> state (sock d) = STATE_DISCONNECTED"
    and "\<forall>j. pcs d j = Ready \<Longrightarrow> state (sock d) = STATE_DISCONNECTED"
    and "\<forall>j. pcs d j = Ready \<Longrightarrow> reported (disconnects (taken d)) (sock d) = 1" by blast+
qed

definition two_closers :: "thread_event list" where
  \<comment> \<open>thread 2 is at its exchange when thread 1 closes; thread 2 ends first\<close>
  "two_closers = [Run 1 False, Run 1 False] @ replicate 3 (Run 2 False) @ replicate 7 (Run 1 False)"

theorem closeNow_under_threads_witness:
  "\<exists>d. thread_run SSLWebSocket_class ([Begin 2 DoCloseNow, Run 2 False] @ Begin 1 DoCloseNow # two_closers)
        (threads_start (new_sslwebsocket ''h'' 443 ''/'')) = Some d
    \<and> pcs d 1 = Ready \<and> (state (sock d) = STATE_DISCONNECTING \<or> state (sock d) = STATE_DISCONNECTED)"
proof -
  let ?es = "[Begin 2 DoCloseNow, Run 2 False]"
  have al: "list_all event_allowed ?es" "list_all event_allowed two_closers" "list_all (\<lambda>e. \<not> starts 1 e) two_closers"
    by (simp_all add: two_closers_def event_allowed_def list_all_iff)
  obtain c where c: "thread_run SSLWebSocket_class ?es (threads_start (new_sslwebsocket ''h'' 443 ''/'')) = Some c"
    using tls_threads.start_run [OF new_fresh(2) al(1)] by blast
  have c1: "pcs c 1 = Ready" using c
    by (auto simp: threads_start_def access_def in_defs close_access_defs)
  have "list_all event_allowed (?es @ Begin 1 DoCloseNow # two_closers)" using al by (simp add: event_allowed_def)
  then obtain d where "thread_run SSLWebSocket_class (?es @ Begin 1 DoCloseNow # two_closers)
      (threads_start (new_sslwebsocket ''h'' 443 ''/'')) = Some d"
    using tls_threads.start_run [OF new_fresh(2)] by blast
  moreover from this have d: "thread_run SSLWebSocket_class (Begin 1 DoCloseNow # two_closers) c = Some d"
    using c by (simp only: thread_run_append option.case)
  moreover have "pcs d 1 = Ready" using d c
    by (auto simp: two_closers_def thread_eval)
  ultimately show ?thesis
    using closeNow_under_threads [OF al(1,2,3) _ new_fresh(1) new_fresh(2)] c c1 d by blast
qed

subsection \<open>Opening again meanwhile\<close>

text \<open>
  The theorems on safety and on \<open>closeNow\<close> leave out \<open>close\<close> and \<open>open\<close> on other threads. The
  generation is compared when a handler begins, not when it takes effect: two runs show what
  \<open>open\<close> makes possible.
\<close>

definition stale_handshake :: "thread_event list" where
  \<comment> \<open>between the guard of the handshake handler and its exchange, thread 1 closes and opens\<close>
  "stale_handshake = connects @ [Complete 0 ok_code, Run 0 False, Begin 1 DoCloseNow] @ replicate 9 (Run 1 False)
     @ [Begin 1 (DoOpen True)] @ replicate 5 (Run 1 False) @ [Run 0 False, Run 0 False]"

definition late_close :: "thread_event list" where
  \<comment> \<open>thread 1 closes and is interrupted after it published the disconnected state\<close>
  "late_close = [Begin 1 DoCloseNow] @ replicate 7 (Run 1 False)
     @ [Begin 2 (DoOpen True)] @ replicate 5 (Run 2 False)
     @ [Complete 1 ok_code, Run 0 False, Run 0 False, Complete 1 ok_code, Run 0 False, Run 0 False,
        Complete 1 ok_code] @ replicate 9 (Run 0 False)
     @ [Begin 2 (DoWrite ''a'' False)] @ replicate 10 (Run 2 False)
     @ [Run 1 False, Run 1 False]
     @ [Begin 2 (DoWrite ''b'' False)] @ replicate 10 (Run 2 False)"

text \<open>
  A handler that passed the guard is not stopped by a close and a new open on another
  thread: the handshake of the old connection completes the new attempt, whose host is
  still being resolved, and the client is told that it is connected, over a stream that
  was closed.
\<close>

lemma stale_handler_passes_guard:
  "\<exists>c stream. thread_run WebSocket_class stale_handshake (threads_start (new_websocket h p pt)) = Some c
    \<and> state (sock c) = STATE_CONNECTED \<and> current_ops (sock c) = [ResolveOp h (to_string (unat (port (sock c))))]
    \<and> map in_type (backingQueue (messageQueue (sock c))) = [IN_DISCONNECTED, IN_CONNECTED]
    \<and> ws (sock c) = Some stream \<and> \<not> lowest_open stream"
  by (simp add: stale_handshake_def connects_def thread_eval Let_def)

text \<open>
  \<open>doClose\<close> publishes the disconnected state before it resets the writing flag and
  reports the disconnection: a connection that another thread opens in between loses its
  mark that a write is outstanding, so that a second write is started beside the first,
  and the disconnection of the old connection is the last thing that is reported.
\<close>

lemma late_close_spoils_next:
  "\<exists>c. thread_run WebSocket_class late_close (threads_start (new_websocket h p pt)) = Some c
    \<and> state (sock c) = STATE_CONNECTED \<and> current_ops (sock c) = [ReadOp, WriteOp ''a'' False, WriteOp ''b'' False]
    \<and> map in_type (backingQueue (messageQueue (sock c))) = [IN_CONNECTED, IN_DISCONNECTED]"
  by (simp add: late_close_def thread_eval Let_def)

end
