(* ===== verification/Socket_Program.thy ===== *)
theory Socket_Program
  imports Socket_Threads_Props Lua_Module_Inv "HOL-Library.Sublist"
begin

text \<open>
  The program at the end of GLua.cpp, which runs a socket outside the game: \<open>main\<close> opens it,
  \<open>runIOThread\<close> runs the io_context on a thread of its own (0), \<open>sendMessages\<close> writes on
  another (2), and \<open>main\<close> (1) empties the event queue a hundred times and closes. What it prints
  and how long it sleeps is left out: any interleaving is a run. The joins and the end of the
  io_context have no counterpart; a run may stop anywhere.
\<close>

definition main_socket :: "socket_obj exec" where
  "main_socket = createWebSocketFromURL ''wss://echo.websocket.events'' True"

definition main_thread :: "thread_event list" where
  \<comment> \<open>what \<open>main\<close> does with the socket after the threads were started\<close>
  "main_thread = replicate 100 thread_event.Take @ [Begin 1 DoCloseNow]"

definition by_main :: "thread_event \<Rightarrow> bool" where
  "by_main e = (case e of thread_event.Take \<Rightarrow> True | Begin i _ \<Rightarrow> i = 1 | _ \<Rightarrow> False)"

definition by_others :: "thread_event \<Rightarrow> bool" where
  \<comment> \<open>\<open>sendMessages\<close> on thread 2, \<open>runIOThread\<close> on thread 0 and the network\<close>
  "by_others e = (case e of
     Begin i call \<Rightarrow> i = 1 \<or> i = 2 \<and> call = DoWrite ''PUFFS'' False
   | Run i _ \<Rightarrow> i \<le> 2 | _ \<Rightarrow> True)"

definition main_run :: "thread_event list \<Rightarrow> bool" where
  "main_run es \<longleftrightarrow> prefix (filter by_main es) main_thread \<and> list_all by_others es"

definition main_url :: url where
  "main_url = \<lparr>m_scheme = ''wss'', m_user = [], m_host = ''echo.websocket.events'', m_port = [], m_path = [],
     m_query = [], m_fragment = [], m_url = ''wss://echo.websocket.events'', m_parse = True, m_built = False, m_ip_v = 0\<rparr>"

lemma main_url_parsed: "parse_url (url_of_string ''wss://echo.websocket.events'') = Ret main_url"
  by code_simp

lemma main_socket_tls: "main_socket = Ret (make_socket True True ''echo.websocket.events'' 443 ''/'')"
  by (simp add: main_socket_def createWebSocketFromURL_parsed main_url_parsed main_url_def url_port_def url_ssl_def)

lemma main_run_allowed:
  assumes "main_run es"
  shows "list_all event_allowed es"
proof -
  have "event_allowed e" if "e \<in> set es" for e
  proof -
    have "e \<in> set main_thread" if b: "by_main e"
    proof -
      have "e \<in> set (filter by_main es)" using b \<open>e \<in> set es\<close> by simp
      then show ?thesis using assms unfolding main_run_def by (blast dest: set_mono_prefix)
    qed
    moreover have "event_allowed x" if "x \<in> set main_thread" for x
      using that by (auto simp: main_thread_def event_allowed_def)
    moreover have "by_main e \<or> event_allowed e"
    proof -
      have "by_others e" using assms \<open>e \<in> set es\<close> by (simp add: main_run_def list_all_iff)
      then show ?thesis by (cases e) (auto simp: by_main_def by_others_def event_allowed_def)
    qed
    ultimately show ?thesis by blast
  qed
  then show ?thesis by (simp add: list_all_iff)
qed

text \<open>A thread that enters no function does nothing.\<close>

lemma ready_access: "access K spurious i Ready h s = Wait"
  by (simp add: access_def in_defs client_access_defs)

lemma step_ready:
  assumes "pcs c i = Ready" "\<not> starts i e" "thread_step K e c = Some c'"
  shows "pcs c' i = Ready"
proof (cases e)
  case (Run j spurious)
  then show ?thesis using assms ready_access [of K spurious i]
    by (cases "access K spurious j (pcs c j) (holder c) (sock c)"; cases "j = i") auto
qed (use assms in \<open>auto simp: Let_def split: if_splits prod.splits\<close>)

lemma run_ready:
  assumes "pcs c i = Ready" "list_all (\<lambda>e. \<not> starts i e) es" "thread_run K es c = Some d"
  shows "pcs d i = Ready"
  using assms
proof (induction es arbitrary: c)
  case (Cons e es)
  then show ?case using step_ready [of c i e K] by (auto split: option.splits)
qed simp

lemma main_closes_once:
  assumes "main_run (es @ Begin 1 DoCloseNow # fs)"
  shows "list_all (\<lambda>e. \<not> starts 1 e) es" "list_all (\<lambda>e. \<not> starts 1 e) fs"
proof -
  let ?b = "Begin 1 DoCloseNow"
  have sub: "starts 1 e \<Longrightarrow> by_main e" for e
    by (cases e) (simp_all add: by_main_def)
  obtain rest where "main_thread = filter by_main (es @ ?b # fs) @ rest"
    using assms by (auto simp: main_run_def prefix_def)
  then have "filter (starts 1) main_thread = filter (starts 1) (filter by_main (es @ ?b # fs)) @ filter (starts 1) rest"
    by (metis filter_append)
  moreover have "filter (starts 1) (filter by_main gs) = filter (starts 1) gs" for gs
    by (induction gs) (use sub in auto)
  moreover have "filter (starts 1) main_thread = [?b]"
    by (simp add: main_thread_def filter_replicate)
  ultimately have "filter (starts 1) (es @ ?b # fs) @ filter (starts 1) rest = [?b]" by metis
  then have "filter (starts 1) es = [] \<and> filter (starts 1) fs = []"
    by (auto simp: append_eq_Cons_conv append_eq_append_conv2)
  then show "list_all (\<lambda>e. \<not> starts 1 e) es" "list_all (\<lambda>e. \<not> starts 1 e) fs"
    by (simp_all add: filter_empty_conv list_all_iff)
qed

text \<open>
  C14. In every interleaving of the program at the end of GLua.cpp, which runs the
  io_context on one thread, writes on a second and polls and closes on the main thread, no
  null stream is used and at most one write is outstanding; and when its closeNow was
  called and all threads are through, the socket is disconnected and the disconnection was
  reported exactly once. The accesses are taken one after the other: what the data race on
  the plain flag writing may lead to beyond that is not covered.
\<close>

theorem main_program_runs:
  assumes "main_run es"
  shows "\<exists>s c. main_socket = Ret (Tls s) \<and> thread_run SSLWebSocket_class es (threads_start s) = Some c
    \<and> count_ops is_write (sock c) \<le> 1
    \<and> (Begin 1 DoCloseNow \<in> set es \<and> (\<forall>i. pcs c i = Ready) \<longrightarrow>
        state (sock c) = STATE_DISCONNECTED \<and> reported (disconnects (taken c)) (sock c) = 1)"
proof -
  let ?s = "(new_sslwebsocket ''echo.websocket.events'' 443 ''/'')\<lparr>shouldVerifyCertificate := True\<rparr>"
  have s: "main_socket = Ret (Tls ?s)" by (simp add: main_socket_tls make_socket_def)
  have fresh: "fresh ?s" using new_fresh(2) [of "''echo.websocket.events''" 443 "''/''"] by (simp add: fresh_def)
  have al: "list_all event_allowed es" by (rule main_run_allowed [OF assms])
  obtain c where c: "thread_run SSLWebSocket_class es (threads_start ?s) = Some c" "tls_threads.threads_ok c"
    using tls_threads.start_run [OF fresh al] by blast
  have "state (sock c) = STATE_DISCONNECTED \<and> reported (disconnects (taken c)) (sock c) = 1"
    if b: "Begin 1 DoCloseNow \<in> set es" and ready: "\<forall>i. pcs c i = Ready"
  proof -
    obtain es1 es2 where es: "es = es1 @ Begin 1 DoCloseNow # es2" using split_list [OF b] by blast
    note once = main_closes_once [OF assms [unfolded es]]
    have al': "list_all event_allowed es1" "list_all event_allowed es2" using al es by simp_all
    obtain d where d: "thread_run SSLWebSocket_class es1 (threads_start ?s) = Some d" "tls_threads.threads_ok d"
        "tls_threads.ends_well d"
      using tls_threads.start_run [OF fresh al'(1)] by blast
    have d1: "pcs d 1 = Ready"
      by (rule run_ready [OF _ once(1) d(1)]) (simp add: threads_start_def)
    have "thread_run SSLWebSocket_class (Begin 1 DoCloseNow # es2) d = Some c"
      using c(1) d(1) by (simp only: es thread_run_append option.case)
    from tls_threads.closeNow_closes(2) [OF d(2,3) d1 _ al'(2) once(2) this] ready show ?thesis by simp
  qed
  then show ?thesis using s c tls_threads.threads_okD(1) [OF c(2)] by blast
qed

definition short_run :: "thread_event list" where
  \<comment> \<open>a message is written and the socket is closed while the host is resolved\<close>
  "short_run = replicate 100 thread_event.Take @ [Begin 2 (DoWrite ''PUFFS'' False), Run 2 False, Begin 1 DoCloseNow]
     @ replicate 3 (Run 1 False) @ replicate 4 (Run 2 False) @ replicate 6 (Run 1 False)"

theorem main_program_runs_witness:
  "\<exists>s c. main_run short_run \<and> main_socket = Ret (Tls s)
    \<and> thread_run SSLWebSocket_class short_run (threads_start s) = Some c \<and> count_ops is_write (sock c) \<le> 1"
proof -
  have "main_run short_run"
    by (simp add: main_run_def short_run_def main_thread_def filter_replicate by_main_def by_others_def list_all_iff)
  with main_program_runs [OF this] show ?thesis by blast
qed

end
