(* ===== verification/Lua_Setup.thy ===== *)
theory Lua_Setup
  imports Main
begin

text \<open>
  The two static objects of the module (GLua.cpp): \<open>initialize\<close> makes the io_context and the
  TLS context and loads the root certificates, \<open>deinitialize\<close> frees them. The certificates of
  the system, their parser \<open>d2i\<close> and whether OpenSSL takes one into a store (\<open>takes\<close>) are
  arguments. What has to be given back is counted: open handles of the system's store, its
  certificate contexts, and references to parsed certificates; a reference that the TLS context
  owns is an entry of \<open>trusted\<close>. \<open>None\<close> is the use of a null pointer.
\<close>

record 'c tls_context =
  default_paths :: bool
  trusted :: "'c list"

record 'c statics =
  io_context :: bool
  sslContext :: "'c tls_context option"
  store_handles :: nat
  cert_contexts :: nat
  x509_refs :: nat

definition no_statics :: "'c statics" where
  "no_statics = \<lparr>io_context = False, sslContext = None, store_handles = 0, cert_contexts = 0, x509_refs = 0\<rparr>"

fun add_roots ::
  "('b \<Rightarrow> 'c option) \<Rightarrow> ('c list \<Rightarrow> 'c \<Rightarrow> bool) \<Rightarrow> bool \<Rightarrow> 'b list \<Rightarrow> 'c list \<Rightarrow> 'c statics \<Rightarrow> 'c list \<times> 'c statics" where
  \<comment> \<open>the loop; the enumeration gives the previous context back, also at its end\<close>
  "add_roots d2i takes previous [] store s =
     (store, s\<lparr>cert_contexts := cert_contexts s - (if previous then 1 else 0)\<rparr>)"
| "add_roots d2i takes previous (b # bs) store s =
     (let s = s\<lparr>cert_contexts := cert_contexts s - (if previous then 1 else 0) + 1\<rparr> in
      case d2i b of
        None \<Rightarrow> add_roots d2i takes True bs store s
      | Some x509 \<Rightarrow>
          (let s = s\<lparr>x509_refs := x509_refs s + 1\<rparr>;
               store = (if takes store x509 then store @ [x509] else store);
               s = s\<lparr>x509_refs := x509_refs s - 1\<rparr>
           in add_roots d2i takes True bs store s))"

definition load_system_roots ::
  "('b \<Rightarrow> 'c option) \<Rightarrow> ('c list \<Rightarrow> 'c \<Rightarrow> bool) \<Rightarrow> 'b list option \<Rightarrow> 'c statics \<Rightarrow> 'c statics option" where
  \<comment> \<open>\<open>loadRootCertificates\<close> on Windows; \<open>None\<close> for a store that cannot be opened\<close>
  "load_system_roots d2i takes system s =
     (case system of
        None \<Rightarrow> Some s
      | Some blobs \<Rightarrow>
          (let s = s\<lparr>store_handles := store_handles s + 1\<rparr>;
               (store, s) = add_roots d2i takes False blobs [] s;
               s = s\<lparr>store_handles := store_handles s - 1\<rparr>
           in case sslContext s of
                None \<Rightarrow> None
              | Some ctx \<Rightarrow> Some (s\<lparr>sslContext := Some (ctx\<lparr>trusted := store\<rparr>)\<rparr>)))"

definition load_default_roots :: "'c statics \<Rightarrow> 'c statics option" where
  \<comment> \<open>\<open>loadRootCertificates\<close> elsewhere\<close>
  "load_default_roots s =
     (case sslContext s of
        None \<Rightarrow> None
      | Some ctx \<Rightarrow> Some (s\<lparr>sslContext := Some (ctx\<lparr>default_paths := True\<rparr>)\<rparr>))"

definition initialize_statics :: "('c statics \<Rightarrow> 'c statics option) \<Rightarrow> 'c statics \<Rightarrow> 'c statics option" where
  "initialize_statics loadRootCertificates s =
     (let s = s\<lparr>io_context := True\<rparr>;
          s = s\<lparr>sslContext := Some \<lparr>default_paths = False, trusted = []\<rparr>\<rparr>
      in loadRootCertificates s)"

definition deinitialize :: "'c statics \<Rightarrow> 'c statics" where
  "deinitialize s = (let s = s\<lparr>io_context := False\<rparr> in s\<lparr>sslContext := None\<rparr>)"

fun taken_roots :: "('c list \<Rightarrow> 'c \<Rightarrow> bool) \<Rightarrow> 'c list \<Rightarrow> 'c list \<Rightarrow> 'c list" where
  \<comment> \<open>what a store has after it was offered certificates\<close>
  "taken_roots takes store [] = store"
| "taken_roots takes store (x # xs) = taken_roots takes (if takes store x then store @ [x] else store) xs"

lemma add_roots_result:
  assumes "previous \<longrightarrow> cert_contexts s = Suc n" "\<not> previous \<longrightarrow> cert_contexts s = n"
  shows "add_roots d2i takes previous bs store s =
    (taken_roots takes store (List.map_filter d2i bs), s\<lparr>cert_contexts := n\<rparr>)"
  using assms
  by (induction bs arbitrary: store previous s) (simp_all add: List.map_filter_simps Let_def split: option.split)

text \<open>
  Loading leaves no handle, no certificate context and no reference behind, whichever
  certificates cannot be parsed; the TLS context trusts what was parsed and taken, in order; and
  unloading gives everything back, so that loading again starts from the same state.
\<close>

lemma statics_balanced:
  "initialize_statics (load_system_roots d2i takes system) no_statics =
     Some (no_statics\<lparr>io_context := True, sslContext := Some \<lparr>default_paths = False,
       trusted = (case system of None \<Rightarrow> [] | Some blobs \<Rightarrow> taken_roots takes [] (List.map_filter d2i blobs))\<rparr>\<rparr>)"
  "map_option deinitialize (initialize_statics (load_system_roots d2i takes system) no_statics) = Some no_statics"
  "map_option deinitialize (initialize_statics load_default_roots no_statics) = Some no_statics"
  by (simp_all add: initialize_statics_def load_system_roots_def load_default_roots_def deinitialize_def no_statics_def
      add_roots_result [where n = 0] Let_def split: option.split)

end
